(* ===== verification/Prelude.thy ===== *)
theory Prelude
  imports Main "HOL-Library.Word"
begin

text \<open>
  Vocabulary shared by every theory of the development: the machine types of the Go
  sources, the errors of the program as values, the result type of fallible code (a value,
  an error, or a run-time panic), slices, big-endian integers, and the generic lemmas on
  them that the component proofs rest on.
\<close>

unbundle bit_operations_syntax

section \<open>Types\<close>

type_synonym byte = "8 word"
type_synonym bytes = "8 word list"
type_synonym uint16 = "16 word"
type_synonym int32 = "32 word"
type_synonym uint32 = "32 word"
type_synonym int64 = "64 word"
type_synonym uint64 = "64 word"

text \<open>Instants and durations count nanoseconds.\<close>

type_synonym time = int
type_synonym duration = int

section \<open>Errors\<close>

text \<open>
  The sentinel errors of the packages, named as in the source (the packages that each
  declare an \<open>ErrMalformed\<close> get one constructor each), the standard library's I/O and
  context errors, \<open>ErrText\<close> for \<open>errors.New\<close> at the point of return, and \<open>ErrWrap\<close> for
  \<open>fmt.Errorf\<close> with the verb \<open>%w\<close>, which keeps the cause inspectable.
\<close>

datatype err =
    EOF | ErrUnexpectedEOF | ErrShortWrite | ErrIO string
  | ContextCanceled | ContextDeadlineExceeded
  | ErrVarIntTooLong | ErrVarIntPartial | ErrVarIntOverflow
  | ErrEmptyPacket | ErrNegativeLength | PacketTooLargeError int int
  | ErrStringTooLong
  | ErrInvalidCompressionThreshold | ErrInvalidCompressedPacket
  | ErrInvalidCipherParameters
  | ErrHandshakeMalformed | ErrLoginMalformed | ErrStatusMalformed
  | ErrConfigurationMalformed | ErrPlayMalformed
  | ErrNBTTooLarge
  | ErrEmptySecret | ErrInvalidIdentity
  | InvalidTransitionError string string
  | ErrBarrierInactive | ErrBarrierNotReady | ErrUnexpectedKeepAlive | ErrCommandQueueExhausted
  | ErrFull | ErrDuplicate
  | ErrClosed | ErrBufferedEncryptionTransition
  | ErrBackendDisconnected | ErrUnexpectedLoginPacket | ErrUnsupportedEncryption | ErrUnexpectedPlugin
  | ErrBackendConfigurationDisconnected | ErrBackendConfigurationPacket | ErrBackendConfigurationTooLarge
  | ErrTransferAlreadyFinalized | ErrTransferTimedOut
  | ErrUnexpectedBackendKeepAlive | ErrKeepAliveLimit
  | ErrInvalidSharedSecret | ErrVerifyTokenMismatch | ErrNotJoined
  | ErrText string
  | ErrWrap string err

text \<open>\<open>errors.Is\<close> follows the chain of wrapped causes.\<close>

fun errors_Is :: "err \<Rightarrow> err \<Rightarrow> bool" where
  "errors_Is (ErrWrap m e) target = (ErrWrap m e = target \<or> errors_Is e target)"
| "errors_Is e target = (e = target)"

section \<open>Results\<close>

text \<open>
  A call returns a value, returns an error, or panics (an index or a slice bound out of
  range). A panic is not an error: no caller can turn it into one.
\<close>

datatype 'a res = Ok 'a | Fail err | Panic

named_theorems res_iff \<open>when a composed result is a value, an error or a panic\<close>
named_theorems no_panic \<open>calls that never panic\<close>

fun rbind :: "'a res \<Rightarrow> ('a \<Rightarrow> 'b res) \<Rightarrow> 'b res" where
  "rbind (Ok x) f = f x"
| "rbind (Fail e) f = Fail e"
| "rbind Panic f = Panic"

text \<open>\<open>if err != nil { return e }\<close>: any error becomes \<open>e\<close>.\<close>

fun or_fail :: "'a res \<Rightarrow> err \<Rightarrow> 'a res" where
  "or_fail (Ok x) e = Ok x"
| "or_fail (Fail _) e = Fail e"
| "or_fail Panic e = Panic"

definition guard :: "bool \<Rightarrow> err \<Rightarrow> unit res" where
  "guard b e = (if b then Ok () else Fail e)"

lemma rbind_cong [fundef_cong]:
  "m = m' \<Longrightarrow> (\<And>x. m' = Ok x \<Longrightarrow> f x = g x) \<Longrightarrow> rbind m f = rbind m' g"
  by (cases m') auto

lemma rbind_eq_Ok [res_iff]: "rbind m f = Ok y \<longleftrightarrow> (\<exists>x. m = Ok x \<and> f x = Ok y)"
  by (cases m) auto

lemma rbind_eq_Panic [res_iff]:
  "rbind m f = Panic \<longleftrightarrow> m = Panic \<or> (\<exists>x. m = Ok x \<and> f x = Panic)"
  by (cases m) auto

lemma rbind_eq_Fail [res_iff]:
  "rbind m f = Fail e \<longleftrightarrow> m = Fail e \<or> (\<exists>x. m = Ok x \<and> f x = Fail e)"
  by (cases m) auto

lemma or_fail_eq_Ok [res_iff]: "or_fail m e = Ok y \<longleftrightarrow> m = Ok y"
  by (cases m) auto

lemma or_fail_eq_Panic [res_iff]: "or_fail m e = Panic \<longleftrightarrow> m = Panic"
  by (cases m) auto

lemma or_fail_eq_Fail [res_iff]: "or_fail m e = Fail e' \<longleftrightarrow> e' = e \<and> (\<exists>e0. m = Fail e0)"
  by (cases m) auto

lemma guard_True [simp]: "guard True e = Ok ()"
  by (simp add: guard_def)

lemma guard_False [simp]: "guard False e = Fail e"
  by (simp add: guard_def)

lemma guard_eq_Ok [res_iff]: "guard b e = Ok u \<longleftrightarrow> b"
  by (simp add: guard_def)

lemma guard_eq_Fail [res_iff]: "guard b e = Fail e' \<longleftrightarrow> \<not> b \<and> e' = e"
  by (auto simp: guard_def)

lemma guard_no_panic [simp, no_panic]: "guard b e \<noteq> Panic"
  by (simp add: guard_def)

lemma res_not_Ok_Fail: "m \<noteq> Panic \<Longrightarrow> (\<And>x. m \<noteq> Ok x) \<Longrightarrow> \<exists>e. m = Fail e"
  by (cases m) auto

section \<open>Slices\<close>

text \<open>Go's \<open>xs[i]\<close>, \<open>xs[i:]\<close> and \<open>xs[i:j]\<close>, with the run-time bounds check.\<close>

definition index :: "'a list \<Rightarrow> nat \<Rightarrow> 'a res" where
  "index xs i = (if i < length xs then Ok (xs ! i) else Panic)"

definition slice_from :: "'a list \<Rightarrow> nat \<Rightarrow> 'a list res" where
  "slice_from xs i = (if i \<le> length xs then Ok (drop i xs) else Panic)"

definition subslice :: "'a list \<Rightarrow> nat \<Rightarrow> nat \<Rightarrow> 'a list res" where
  "subslice xs i j = (if i \<le> j \<and> j \<le> length xs then Ok (take (j - i) (drop i xs)) else Panic)"

lemma index_append [simp]: "i = length xs \<Longrightarrow> index (xs @ y # ys) i = Ok y"
  by (simp add: index_def)

lemma index_Ok [simp]: "i < length xs \<Longrightarrow> index xs i = Ok (xs ! i)"
  by (simp add: index_def)

lemma index_not_Fail [simp]: "index xs i \<noteq> Fail e"
  by (simp add: index_def)

lemma slice_from_append [simp]: "i = length xs \<Longrightarrow> slice_from (xs @ ys) i = Ok ys"
  by (simp add: slice_from_def)

lemma slice_from_Ok [simp]: "i \<le> length xs \<Longrightarrow> slice_from xs i = Ok (drop i xs)"
  by (simp add: slice_from_def)

lemma slice_from_eq_Ok [res_iff]: "slice_from xs i = Ok ys \<longleftrightarrow> i \<le> length xs \<and> ys = drop i xs"
  by (auto simp: slice_from_def)

lemma slice_from_not_Fail [simp]: "slice_from xs i \<noteq> Fail e"
  by (simp add: slice_from_def)

lemma subslice_append [simp]:
  "i = length xs \<Longrightarrow> j = length xs + length ys \<Longrightarrow> subslice (xs @ ys @ zs) i j = Ok ys"
  by (simp add: subslice_def)

lemma subslice_Ok [simp]:
  "i \<le> j \<Longrightarrow> j \<le> length xs \<Longrightarrow> subslice xs i j = Ok (take (j - i) (drop i xs))"
  by (simp add: subslice_def)

lemma subslice_eq_Ok [res_iff]:
  "subslice xs i j = Ok ys \<longleftrightarrow> i \<le> j \<and> j \<le> length xs \<and> ys = take (j - i) (drop i xs)"
  by (auto simp: subslice_def)

lemma subslice_not_Fail [simp]: "subslice xs i j \<noteq> Fail e"
  by (simp add: subslice_def)

section \<open>Words\<close>

lemma drop_bit_eq_0_iff:
  fixes v :: "'a::len word"
  shows "drop_bit n v = 0 \<longleftrightarrow> (\<forall>m. bit v m \<longrightarrow> m < n)"
proof
  assume z: "drop_bit n v = 0"
  show "\<forall>m. bit v m \<longrightarrow> m < n"
  proof (intro allI impI)
    fix m assume "bit v m"
    then have "\<not> n \<le> m"
      using z bit_drop_bit_eq [of n v] by (metis bit_0_eq bot_apply bot_bool_def comp_apply le_add_diff_inverse)
    then show "m < n" by simp
  qed
next
  assume "\<forall>m. bit v m \<longrightarrow> m < n"
  then show "drop_bit n v = 0"
    by (intro bit_word_eqI) (auto simp: bit_drop_bit_eq)
qed

lemma and_not_mask_eq_0_iff:
  fixes v :: "'a::len word"
  shows "v AND NOT (mask n) = 0 \<longleftrightarrow> (\<forall>m. bit v m \<longrightarrow> m < n)"
proof
  assume z: "v AND NOT (mask n) = 0"
  show "\<forall>m. bit v m \<longrightarrow> m < n"
  proof (intro allI impI)
    fix m assume b: "bit v m"
    then have m: "m < LENGTH('a)" by (rule bit_imp_le_length)
    have "\<not> bit (v AND NOT (mask n)) m" using z by simp
    then show "m < n" using b m by (simp add: bit_and_iff bit_not_iff bit_mask_iff)
  qed
next
  assume "\<forall>m. bit v m \<longrightarrow> m < n"
  then show "v AND NOT (mask n) = 0"
    by (intro bit_word_eqI) (auto simp: bit_and_iff bit_not_iff bit_mask_iff)
qed

lemma drop_bit_0_mono:
  fixes v :: "'a::len word"
  shows "drop_bit m v = 0 \<Longrightarrow> m \<le> n \<Longrightarrow> drop_bit n v = 0"
  by (auto simp: drop_bit_eq_0_iff)

section \<open>Big-endian integers\<close>

text \<open>Big-endian byte order, most significant byte first.\<close>

fun be_bytes :: "nat \<Rightarrow> 'a::len word \<Rightarrow> bytes" where
  "be_bytes 0 v = []"
| "be_bytes (Suc k) v = be_bytes k (drop_bit 8 v) @ [ucast v]"

definition be_word :: "bytes \<Rightarrow> 'a::len word" where
  "be_word bs = foldl (\<lambda>acc b. push_bit 8 acc OR ucast b) 0 bs"

lemma length_be_bytes [simp]: "length (be_bytes k v) = k"
  by (induction k arbitrary: v) simp_all

lemma be_word_snoc: "be_word (bs @ [b]) = push_bit 8 (be_word bs) OR ucast b"
  by (simp add: be_word_def)

lemma be_word_be_bytes: "be_word (be_bytes k v) = take_bit (8 * k) (v :: 'a::len word)"
proof (induction k arbitrary: v)
  case 0
  then show ?case by (simp add: be_word_def)
next
  case (Suc k)
  have "push_bit 8 (take_bit (8 * k) (drop_bit 8 v)) OR ucast (ucast v :: byte) = take_bit (8 * Suc k) v"
  proof (rule bit_word_eqI)
    fix n assume "n < LENGTH('a)"
    then show "bit (push_bit 8 (take_bit (8 * k) (drop_bit 8 v)) OR ucast (ucast v :: byte)) n
       \<longleftrightarrow> bit (take_bit (8 * Suc k) v) n"
      by (cases "8 \<le> n") (auto simp: bit_simps)
  qed
  then show ?case using Suc by (simp add: be_word_snoc)
qed

lemma bit_be_word: "bit (be_word bs :: 'a::len word) m \<Longrightarrow> m < 8 * length bs"
proof (induction bs arbitrary: m rule: rev_induct)
  case Nil
  then show ?case by (simp add: be_word_def)
next
  case (snoc b bs)
  then show ?case by (fastforce simp: be_word_snoc bit_simps dest: bit_imp_le_length)
qed

lemma be_bytes_be_word:
  "8 * length bs \<le> LENGTH('a) \<Longrightarrow> be_bytes (length bs) (be_word bs :: 'a::len word) = bs"
proof (induction bs rule: rev_induct)
  case Nil
  then show ?case by simp
next
  case (snoc b bs)
  have bound: "\<forall>m. bit (be_word bs :: 'a word) m \<longrightarrow> m < 8 * length bs"
    using bit_be_word by blast
  have "drop_bit 8 (push_bit 8 (be_word bs) OR ucast b :: 'a word) = be_word bs"
  proof (rule bit_word_eqI)
    fix n assume "n < LENGTH('a)"
    then show "bit (drop_bit 8 (push_bit 8 (be_word bs) OR ucast b :: 'a word)) n \<longleftrightarrow> bit (be_word bs :: 'a word) n"
      using bound snoc.prems by (auto simp: bit_simps dest: bit_imp_le_length)
  qed
  moreover have "ucast (push_bit 8 (be_word bs) OR ucast b :: 'a word) = b"
  proof (rule bit_word_eqI)
    fix n assume "n < LENGTH(8)"
    then show "bit (ucast (push_bit 8 (be_word bs) OR ucast b :: 'a word) :: byte) n \<longleftrightarrow> bit b n"
      using snoc.prems by (auto simp: bit_simps)
  qed
  ultimately show ?case using snoc by (simp add: be_word_snoc)
qed

text \<open>\<open>binary.BigEndian\<close>: the readers panic on a slice that is too short.\<close>

definition PutUint16 :: "uint16 \<Rightarrow> bytes" where
  "PutUint16 v = be_bytes 2 v"

definition PutUint32 :: "uint32 \<Rightarrow> bytes" where
  "PutUint32 v = be_bytes 4 v"

definition PutUint64 :: "uint64 \<Rightarrow> bytes" where
  "PutUint64 v = be_bytes 8 v"

definition Uint16 :: "bytes \<Rightarrow> uint16 res" where
  "Uint16 b = (if length b < 2 then Panic else Ok (be_word (take 2 b)))"

definition Uint32 :: "bytes \<Rightarrow> uint32 res" where
  "Uint32 b = (if length b < 4 then Panic else Ok (be_word (take 4 b)))"

definition Uint64 :: "bytes \<Rightarrow> uint64 res" where
  "Uint64 b = (if length b < 8 then Panic else Ok (be_word (take 8 b)))"

lemma length_PutUint [simp]:
  "length (PutUint16 a) = 2" "length (PutUint32 b) = 4" "length (PutUint64 c) = 8"
  by (simp_all add: PutUint16_def PutUint32_def PutUint64_def)

lemma take_bit_full [simp]: "take_bit LENGTH('a) (v :: 'a::len word) = v"
  by (rule bit_word_eqI) (simp add: bit_simps)

lemma Uint_PutUint [simp]:
  "Uint16 (PutUint16 a @ rest) = Ok a" "Uint32 (PutUint32 b @ rest) = Ok b"
  "Uint64 (PutUint64 c @ rest) = Ok c"
  using be_word_be_bytes [of 2 a] be_word_be_bytes [of 4 b] be_word_be_bytes [of 8 c]
    take_bit_full [of a] take_bit_full [of b] take_bit_full [of c]
  by (simp_all add: Uint16_def Uint32_def Uint64_def PutUint16_def PutUint32_def PutUint64_def)

lemma Uint_PutUint_only [simp]:
  "Uint16 (PutUint16 a) = Ok a" "Uint32 (PutUint32 b) = Ok b" "Uint64 (PutUint64 c) = Ok c"
  using Uint_PutUint(1) [of a "[]"] Uint_PutUint(2) [of b "[]"] Uint_PutUint(3) [of c "[]"] by simp_all

lemma Uint_eq_Ok [res_iff]:
  "Uint16 x = Ok a \<longleftrightarrow> 2 \<le> length x \<and> a = be_word (take 2 x)"
  "Uint32 x = Ok b \<longleftrightarrow> 4 \<le> length x \<and> b = be_word (take 4 x)"
  "Uint64 x = Ok c \<longleftrightarrow> 8 \<le> length x \<and> c = be_word (take 8 x)"
  by (auto simp: Uint16_def Uint32_def Uint64_def)

lemma Uint_not_Fail [simp]: "Uint16 x \<noteq> Fail e" "Uint32 x \<noteq> Fail e" "Uint64 x \<noteq> Fail e"
  by (simp_all add: Uint16_def Uint32_def Uint64_def)

lemma Uint_eq_Panic [res_iff]:
  "Uint16 x = Panic \<longleftrightarrow> length x < 2" "Uint32 x = Panic \<longleftrightarrow> length x < 4" "Uint64 x = Panic \<longleftrightarrow> length x < 8"
  by (simp_all add: Uint16_def Uint32_def Uint64_def)

lemma PutUint64_be_word: "length x = 8 \<Longrightarrow> PutUint64 (be_word x) = x"
  using be_bytes_be_word [of x, where ?'a = 64] by (simp add: PutUint64_def)

lemma PutUint32_be_word: "length x = 4 \<Longrightarrow> PutUint32 (be_word x) = x"
  using be_bytes_be_word [of x, where ?'a = 32] by (simp add: PutUint32_def)

end
