(* ===== verification/Streams.thy ===== *)
theory Streams
  imports Prelude
begin

text \<open>
  The byte sources and sinks the codecs work on, as the standard library documents them:
  a buffered reader as the bytes that will still arrive and the error that follows them,
  \<open>io.ReadFull\<close>, and the contract of \<open>io.Writer\<close> as a locale.
\<close>

section \<open>Readers\<close>

record reader =
  pending :: bytes
  ends_with :: err

definition ReadByte :: "reader \<Rightarrow> byte res \<times> reader" where
  "ReadByte r = (case pending r of
       [] \<Rightarrow> (Fail (ends_with r), r)
     | b # bs \<Rightarrow> (Ok b, r\<lparr>pending := bs\<rparr>))"

definition ReadFull :: "reader \<Rightarrow> nat \<Rightarrow> bytes res \<times> reader" where
  "ReadFull r n =
     (if n \<le> length (pending r) then (Ok (take n (pending r)), r\<lparr>pending := drop n (pending r)\<rparr>)
      else if pending r \<noteq> [] \<and> ends_with r = EOF then (Fail ErrUnexpectedEOF, r\<lparr>pending := []\<rparr>)
      else (Fail (ends_with r), r\<lparr>pending := []\<rparr>))"

lemma ReadByte_Nil [simp]: "pending r = [] \<Longrightarrow> ReadByte r = (Fail (ends_with r), r)"
  by (simp add: ReadByte_def)

lemma ReadByte_Cons [simp]: "pending r = b # bs \<Longrightarrow> ReadByte r = (Ok b, r\<lparr>pending := bs\<rparr>)"
  by (simp add: ReadByte_def)

lemma ReadFull_append [simp]:
  "n = length xs \<Longrightarrow> ReadFull (r\<lparr>pending := xs @ ys\<rparr>) n = (Ok xs, r\<lparr>pending := ys\<rparr>)"
  by (simp add: ReadFull_def)

lemma ReadFull_Ok:
  "ReadFull r n = (Ok xs, r') \<Longrightarrow> length xs = n \<and> pending r = xs @ pending r' \<and> ends_with r' = ends_with r"
  by (auto simp: ReadFull_def split: if_splits)

lemma ReadFull_no_panic: "fst (ReadFull r n) \<noteq> Panic"
  by (simp add: ReadFull_def)

section \<open>Writers\<close>

text \<open>
  \<open>io.Writer\<close>: a call \<open>put w data\<close> takes some number \<open>n\<close> of bytes and may report an
  error. The contract: the \<open>n\<close> bytes taken are the first \<open>n\<close> of \<open>data\<close>, in order, and
  writers stay usable until they report an error. \<open>sent\<close> is what the other end receives.
\<close>

locale io_writer =
  fixes put :: "'w \<Rightarrow> bytes \<Rightarrow> (nat \<times> err option) \<times> 'w"
    and sent :: "'w \<Rightarrow> bytes"
    and usable :: "'w \<Rightarrow> bool"
  assumes put_count: "usable w \<Longrightarrow> put w data = ((n, e), w') \<Longrightarrow> n \<le> length data"
    and put_sent: "usable w \<Longrightarrow> put w data = ((n, e), w') \<Longrightarrow> sent w' = sent w @ take n data"
    and put_usable: "usable w \<Longrightarrow> put w data = ((n, None), w') \<Longrightarrow> usable w'"

end
