(* ===== verification/Varint.thy ===== *)
theory Varint
  imports Streams
begin

text \<open>
  The VarInt codec of \<open>internal/protocol/codec/varint.go\<close>: decoding from a slice and
  from a reader, encoding, and the contract of a self-delimiting codec that the other
  codecs of the protocol share.
\<close>

section \<open>Definitions\<close>

definition MaxVarIntBytes :: nat where
  "MaxVarIntBytes = 5"

text \<open>The loop of \<open>ConsumeVarInt\<close>, from a position and the value gathered so far.\<close>

function ConsumeVarInt_loop :: "bytes \<Rightarrow> nat \<Rightarrow> uint32 \<Rightarrow> (int32 \<times> nat) res" where
  "ConsumeVarInt_loop data position value =
     (if position < MaxVarIntBytes then
        (if position \<ge> length data then Fail ErrVarIntPartial
         else
           let current = data ! position in
           if position = MaxVarIntBytes - 1 \<and> current AND 0x80 = 0 \<and> current AND 0x70 \<noteq> 0
           then Fail ErrVarIntOverflow
           else
             let value' = value OR push_bit (7 * position) (ucast (current AND 0x7f)) in
             if current AND 0x80 = 0 then Ok (value', position + 1)
             else ConsumeVarInt_loop data (position + 1) value')
      else Fail ErrVarIntTooLong)"
  by pat_completeness auto
termination
  by (relation "measure (\<lambda>(data, position, value). MaxVarIntBytes - position)") auto

definition ConsumeVarInt :: "bytes \<Rightarrow> (int32 \<times> nat) res" where
  "ConsumeVarInt data = ConsumeVarInt_loop data 0 0"

function ReadVarInt_loop :: "nat \<Rightarrow> uint32 \<Rightarrow> reader \<Rightarrow> int32 res \<times> reader" where
  "ReadVarInt_loop position value r =
     (if position < MaxVarIntBytes then
        (case ReadByte r of
           (Panic, r') \<Rightarrow> (Panic, r')
         | (Fail e, r') \<Rightarrow>
             (if errors_Is e EOF \<and> position > 0 then (Fail ErrVarIntPartial, r') else (Fail e, r'))
         | (Ok current, r') \<Rightarrow>
             if position = MaxVarIntBytes - 1 \<and> current AND 0x80 = 0 \<and> current AND 0x70 \<noteq> 0
             then (Fail ErrVarIntOverflow, r')
             else
               let value' = value OR push_bit (7 * position) (ucast (current AND 0x7f)) in
               if current AND 0x80 = 0 then (Ok value', r')
               else ReadVarInt_loop (position + 1) value' r')
      else (Fail ErrVarIntTooLong, r))"
  by pat_completeness auto
termination
  by (relation "measure (\<lambda>(position, value, r). MaxVarIntBytes - position)") auto

definition ReadVarInt :: "reader \<Rightarrow> int32 res \<times> reader" where
  "ReadVarInt r = ReadVarInt_loop 0 0 r"

lemma mask_literals:
  "(0x7f :: uint32) = mask 7" "(0x7f :: byte) = mask 7"
  "(0x70 :: byte) = push_bit 4 (mask 3)"
  by (simp_all add: mask_eq_exp_minus_1)

lemma bit_0x80: "bit (0x80 :: int) n \<longleftrightarrow> n = 7"
proof -
  have "(0x80 :: int) = 2 ^ 7" by simp
  then show ?thesis by (simp only: bit_exp_iff possible_bit_int) auto
qed

lemma and_not_7f: "(v :: uint32) AND NOT 0x7f = 0 \<longleftrightarrow> drop_bit 7 v = 0"
  unfolding mask_literals and_not_mask_eq_0_iff drop_bit_eq_0_iff ..

lemma drop_bit_7_less:
  fixes x :: uint32
  assumes "x AND NOT 0x7f \<noteq> 0"
  shows "unat (drop_bit 7 x) < unat x"
proof -
  have "x \<noteq> 0" using assms by auto
  then have "0 < unat x" by (simp add: unat_gt_0)
  then have "unat x div 128 < unat x" by simp
  moreover have "unat (drop_bit 7 x) = unat x div 128"
    by (subst unat_drop_bit_eq) (simp add: drop_bit_eq_div)
  ultimately show ?thesis by simp
qed

function AppendVarInt_loop :: "bytes \<Rightarrow> uint32 \<Rightarrow> bytes" where
  "AppendVarInt_loop dst remaining =
     (if remaining AND NOT 0x7f = 0 then dst @ [ucast remaining]
      else AppendVarInt_loop (dst @ [ucast (remaining AND 0x7f) OR 0x80]) (drop_bit 7 remaining))"
  by pat_completeness auto
termination
  by (relation "measure (\<lambda>(dst, remaining). unat remaining)") (auto intro: drop_bit_7_less)

definition AppendVarInt :: "bytes \<Rightarrow> int32 \<Rightarrow> bytes" where
  "AppendVarInt dst value = AppendVarInt_loop dst value"

declare ConsumeVarInt_loop.simps [simp del] ReadVarInt_loop.simps [simp del]
  AppendVarInt_loop.simps [simp del]

text \<open>The encoding of one value on its own.\<close>

definition varint :: "int32 \<Rightarrow> bytes" where
  "varint value = AppendVarInt [] value"

section \<open>Encoding\<close>

lemma AppendVarInt_loop_append: "AppendVarInt_loop dst x = dst @ AppendVarInt_loop [] x"
proof (induction "unat x" arbitrary: dst x rule: less_induct)
  case less
  show ?case
  proof (cases "x AND NOT 0x7f = 0")
    case True
    then show ?thesis by (simp add: AppendVarInt_loop.simps [of dst x] AppendVarInt_loop.simps [of "[]" x])
  next
    case False
    let ?b = "ucast (x AND 0x7f) OR 0x80 :: byte" and ?y = "drop_bit 7 x"
    have IH: "AppendVarInt_loop d ?y = d @ AppendVarInt_loop [] ?y" for d
      using less drop_bit_7_less [OF False] by blast
    show ?thesis
      using False IH [of "dst @ [?b]"] IH [of "[?b]"]
      by (simp add: AppendVarInt_loop.simps [of dst x] AppendVarInt_loop.simps [of "[]" x])
  qed
qed

lemma AppendVarInt_eq [simp]: "AppendVarInt dst v = dst @ varint v"
  unfolding varint_def AppendVarInt_def by (rule AppendVarInt_loop_append)

lemma varint_rec:
  "varint v = (if v AND NOT 0x7f = 0 then [ucast v]
     else (ucast (v AND 0x7f) OR 0x80) # varint (drop_bit 7 v))"
  using AppendVarInt_loop_append [of "[ucast (v AND 0x7f) OR 0x80]" "drop_bit 7 v"]
  by (simp add: varint_def AppendVarInt_def AppendVarInt_loop.simps [of "[]" v] del: AppendVarInt_eq)


lemma varint_last: "drop_bit 7 v = 0 \<Longrightarrow> varint v = [ucast v]"
  unfolding varint_rec [of v] and_not_7f by simp

lemma varint_more:
  "drop_bit 7 v \<noteq> 0 \<Longrightarrow> varint v = (ucast (v AND 0x7f) OR 0x80) # varint (drop_bit 7 v)"
  unfolding varint_rec [of v] and_not_7f by simp

lemma last_byte:
  fixes v :: uint32
  assumes "drop_bit 7 v = 0"
  shows "(ucast v :: byte) AND 0x80 = 0"
    and "ucast ((ucast v :: byte) AND 0x7f) = v"
proof -
  have bit: "bit v n \<Longrightarrow> n < 7" for n
    using assms by (simp add: drop_bit_eq_0_iff)
  show "(ucast v :: byte) AND 0x80 = 0"
    unfolding mask_literals by (rule bit_word_eqI) (auto simp: bit_simps bit_0x80 dest: bit)
  show "ucast ((ucast v :: byte) AND 0x7f) = v"
    unfolding mask_literals by (rule bit_word_eqI) (use bit in \<open>force simp: bit_simps bit_0x80\<close>)
qed

lemma last_byte_fits:
  fixes v :: uint32
  assumes "drop_bit 4 v = 0"
  shows "(ucast v :: byte) AND 0x70 = 0"
proof -
  have bit: "bit v n \<Longrightarrow> n < 4" for n
    using assms by (simp add: drop_bit_eq_0_iff)
  show ?thesis
    unfolding mask_literals by (rule bit_word_eqI) (auto simp: bit_simps bit_0x80 dest: bit)
qed

lemma more_byte:
  fixes v :: uint32
  shows "(ucast (v AND 0x7f) OR 0x80 :: byte) AND 0x80 \<noteq> 0"
    and "ucast ((ucast (v AND 0x7f) OR 0x80 :: byte) AND 0x7f) = v AND 0x7f"
proof -
  have "bit ((ucast (v AND 0x7f) OR 0x80 :: byte) AND 0x80) 7"
    unfolding mask_literals by (simp add: bit_simps bit_0x80)
  then show "(ucast (v AND 0x7f) OR 0x80 :: byte) AND 0x80 \<noteq> 0"
    by (metis bit_0_eq bot_apply bot_bool_def)
  show "ucast ((ucast (v AND 0x7f) OR 0x80 :: byte) AND 0x7f) = v AND 0x7f"
    unfolding mask_literals by (rule bit_word_eqI) (auto simp: bit_simps bit_0x80)
qed

lemma push_bit_split7:
  fixes v :: uint32
  shows "push_bit n (v AND 0x7f) OR push_bit (n + 7) (drop_bit 7 v) = push_bit n v"
  unfolding mask_literals
proof (rule bit_word_eqI)
  fix m assume "m < LENGTH(32)"
  then show "bit (push_bit n (v AND mask 7) OR push_bit (n + 7) (drop_bit 7 v)) m \<longleftrightarrow> bit (push_bit n v) m"
    by (cases "n + 7 \<le> m") (auto simp: bit_simps)
qed

section \<open>Decoding\<close>

lemma ConsumeVarInt_loop_varint:
  assumes "p < 5" "drop_bit (32 - 7 * p) v = 0" "length pre = p"
  shows "ConsumeVarInt_loop (pre @ varint v @ rest) p val
         = Ok (val OR push_bit (7 * p) v, p + length (varint v))"
  using assms
proof (induction "5 - p" arbitrary: p v pre val)
  case 0
  then show ?case by simp
next
  case (Suc k)
  note [simp] = MaxVarIntBytes_def
  show ?case
  proof (cases "drop_bit 7 v = 0")
    case True
    note v = varint_last [OF True]
    have "p = 4 \<Longrightarrow> (ucast v :: byte) AND 0x70 = 0"
      using Suc.prems by (auto intro: last_byte_fits)
    then show ?thesis
      using Suc.prems last_byte [OF True] by (simp add: v ConsumeVarInt_loop.simps [of _ p] nth_append Let_def)
  next
    case False
    let ?b = "ucast (v AND 0x7f) OR 0x80 :: byte"
    note v = varint_more [OF False]
    have p: "p < 4"
      using False Suc.prems drop_bit_0_mono [of "32 - 7 * p" v 7] by (cases "p = 4") auto
    have "drop_bit (32 - 7 * Suc p) (drop_bit 7 v) = 0"
      using Suc.prems(2) p by (simp add: drop_bit_drop_bit)
    then have "ConsumeVarInt_loop ((pre @ [?b]) @ varint (drop_bit 7 v) @ rest) (Suc p)
                 (val OR push_bit (7 * p) (v AND 0x7f))
       = Ok ((val OR push_bit (7 * p) (v AND 0x7f)) OR push_bit (7 * Suc p) (drop_bit 7 v),
             Suc p + length (varint (drop_bit 7 v)))"
      using Suc p by (intro Suc.hyps(1)) auto
    moreover have "(val OR push_bit (7 * p) (v AND 0x7f)) OR push_bit (7 * Suc p) (drop_bit 7 v)
       = val OR push_bit (7 * p) v"
      using push_bit_split7 [of "7 * p" v] by (simp only: or.assoc mult_Suc_right add.commute [of 7])
    ultimately show ?thesis
      using Suc.prems p more_byte [of v]
      by (simp add: v ConsumeVarInt_loop.simps [of _ p] nth_append Let_def)
  qed
qed

lemma ConsumeVarInt_varint [simp]: "ConsumeVarInt (varint v @ rest) = Ok (v, length (varint v))"
proof -
  have "drop_bit 32 v = 0" by (simp add: drop_bit_eq_0_iff bit_imp_le_length)
  then show ?thesis
    using ConsumeVarInt_loop_varint [of 0 v "[]" rest 0] by (simp add: ConsumeVarInt_def)
qed

lemma ConsumeVarInt_varint_only [simp]: "ConsumeVarInt (varint v) = Ok (v, length (varint v))"
  using ConsumeVarInt_varint [of v "[]"] by simp

lemma ConsumeVarInt_loop_no_panic: "ConsumeVarInt_loop data p val \<noteq> Panic"
proof (induction data p val rule: ConsumeVarInt_loop.induct)
  case (1 data p val)
  then show ?case by (auto simp: ConsumeVarInt_loop.simps [of data p val] Let_def)
qed

lemma ConsumeVarInt_no_panic [simp, no_panic]: "ConsumeVarInt data \<noteq> Panic"
  by (simp add: ConsumeVarInt_def ConsumeVarInt_loop_no_panic)

lemma ConsumeVarInt_loop_bound:
  "ConsumeVarInt_loop data p val = Ok (v, n) \<Longrightarrow> p < n \<and> n \<le> length data \<and> n \<le> MaxVarIntBytes"
proof (induction data p val rule: ConsumeVarInt_loop.induct)
  case (1 data p val)
  show ?case
    using "1.prems" "1.IH" by (fastforce simp: ConsumeVarInt_loop.simps [of data p val] Let_def split: if_splits)
qed

lemma ConsumeVarInt_bound:
  "ConsumeVarInt data = Ok (v, n) \<Longrightarrow> 0 < n \<and> n \<le> length data \<and> n \<le> MaxVarIntBytes"
  unfolding ConsumeVarInt_def by (rule ConsumeVarInt_loop_bound)

lemma varint_length: "0 < length (varint v)" "length (varint v) \<le> MaxVarIntBytes"
  using ConsumeVarInt_bound [OF ConsumeVarInt_varint_only [of v]] by simp_all

lemma varint_neq_Nil [simp]: "varint v \<noteq> []"
  using varint_length(1) [of v] by simp

lemma ConsumeVarInt_Fail_cases:
  "ConsumeVarInt data = Fail e \<Longrightarrow> e \<in> {ErrVarIntPartial, ErrVarIntOverflow, ErrVarIntTooLong}"
proof -
  have "ConsumeVarInt_loop data p val = Fail e \<Longrightarrow> e \<in> {ErrVarIntPartial, ErrVarIntOverflow, ErrVarIntTooLong}"
    for p val
  proof (induction data p val rule: ConsumeVarInt_loop.induct)
    case (1 data p val)
    then show ?case
      by (fastforce simp: ConsumeVarInt_loop.simps [of data p val] Let_def split: if_splits)
  qed
  then show "ConsumeVarInt data = Fail e \<Longrightarrow> ?thesis" by (simp add: ConsumeVarInt_def)
qed

section \<open>The encoder is minimal\<close>

text \<open>A value whose bits fit in \<open>n\<close> groups of seven is encoded in at most \<open>n\<close> bytes.\<close>

lemma length_varint_le: "drop_bit (7 * Suc n) v = 0 \<Longrightarrow> length (varint v) \<le> Suc n"
proof (induction n arbitrary: v)
  case 0
  then show ?case by (simp add: varint_last)
next
  case (Suc n)
  show ?case
  proof (cases "drop_bit 7 v = 0")
    case True
    then show ?thesis by (simp add: varint_last)
  next
    case False
    have "drop_bit (7 * Suc n) (drop_bit 7 v) = 0"
      using Suc.prems by (simp add: drop_bit_drop_bit add.commute)
    then show ?thesis using Suc.IH False by (simp add: varint_more)
  qed
qed

lemma drop_bit_group:
  fixes val :: uint32 and b :: byte
  assumes "drop_bit (7 * p) val = 0"
  shows "drop_bit (7 * Suc p) (val OR push_bit (7 * p) (ucast (b AND 0x7f))) = 0"
proof -
  have "bit val m \<Longrightarrow> m < 7 * p" for m
    using assms by (simp add: drop_bit_eq_0_iff)
  then show ?thesis
    unfolding mask_literals drop_bit_eq_0_iff by (fastforce simp: bit_simps)
qed

lemma ConsumeVarInt_loop_groups:
  "ConsumeVarInt_loop data p val = Ok (v, n) \<Longrightarrow> drop_bit (7 * p) val = 0 \<Longrightarrow> drop_bit (7 * n) v = 0"
proof (induction data p val rule: ConsumeVarInt_loop.induct)
  case (1 data p val)
  show ?case
    using "1.prems" "1.IH" drop_bit_group [OF "1.prems"(2), of "data ! p"]
    by (auto simp: ConsumeVarInt_loop.simps [of data p val] Let_def split: if_splits)
qed

lemma varint_minimal:
  assumes "ConsumeVarInt data = Ok (v, n)"
  shows "length (varint v) \<le> n"
proof -
  obtain m where m: "n = Suc m"
    using ConsumeVarInt_bound [OF assms] by (cases n) auto
  have "drop_bit (7 * n) v = 0"
    using assms unfolding ConsumeVarInt_def by (rule ConsumeVarInt_loop_groups) simp
  then show ?thesis using m length_varint_le by simp
qed

section \<open>The streaming decoder\<close>

lemma ReadVarInt_loop_eq:
  assumes "p \<le> length data" "p \<le> MaxVarIntBytes"
  shows "ReadVarInt_loop p val (r\<lparr>pending := drop p data\<rparr>) =
    (case ConsumeVarInt_loop data p val of
       Ok (v, n) \<Rightarrow> (Ok v, r\<lparr>pending := drop n data\<rparr>)
     | Fail e \<Rightarrow> (if e = ErrVarIntPartial then
           (if errors_Is (ends_with r) EOF \<and> data \<noteq> [] then Fail ErrVarIntPartial else Fail (ends_with r))
         else Fail e, r\<lparr>pending := drop MaxVarIntBytes data\<rparr>)
     | Panic \<Rightarrow> (Panic, r))"
  using assms
proof (induction data p val rule: ConsumeVarInt_loop.induct)
  case (1 data p val)
  note step = ReadVarInt_loop.simps [of p val] ConsumeVarInt_loop.simps [of data p val]
  show ?case
  proof (cases "p < MaxVarIntBytes \<and> p < length data")
    case True
    then have "drop p data = data ! p # drop (Suc p) data"
      by (simp add: Cons_nth_drop_Suc)
    then show ?thesis
      unfolding step using True "1.IH" by (auto simp: Let_def MaxVarIntBytes_def)
  next
    case False
    then show ?thesis
      unfolding step using "1.prems" by (cases "p = MaxVarIntBytes") (auto simp: MaxVarIntBytes_def)
  qed
qed

lemma ReadVarInt_eq:
  "ReadVarInt r =
    (case ConsumeVarInt (pending r) of
       Ok (v, n) \<Rightarrow> (Ok v, r\<lparr>pending := drop n (pending r)\<rparr>)
     | Fail e \<Rightarrow> (if e = ErrVarIntPartial then
           (if errors_Is (ends_with r) EOF \<and> pending r \<noteq> [] then Fail ErrVarIntPartial
            else Fail (ends_with r))
         else Fail e, r\<lparr>pending := drop MaxVarIntBytes (pending r)\<rparr>)
     | Panic \<Rightarrow> (Panic, r))"
  using ReadVarInt_loop_eq [of 0 "pending r" 0 r] by (simp add: ReadVarInt_def ConsumeVarInt_def)

section \<open>Self-delimiting codecs\<close>

text \<open>
  The contract the packet parsers rely on: what \<open>enc\<close> writes, \<open>dec\<close> reads back from
  the front of any continuation together with its length; \<open>dec\<close> never claims more bytes
  than there are, and never panics. \<open>dom\<close> holds the values \<open>enc\<close> may be used on.
\<close>

locale prefix_codec =
  fixes enc :: "'a \<Rightarrow> bytes"
    and dec :: "bytes \<Rightarrow> ('a \<times> nat) res"
    and dom :: "'a \<Rightarrow> bool"
  assumes dec_enc: "dom x \<Longrightarrow> dec (enc x @ rest) = Ok (x, length (enc x))"
    and dec_bound: "dec data = Ok (x, n) \<Longrightarrow> 0 < n \<and> n \<le> length data"
    and dec_no_panic: "dec data \<noteq> Panic"
begin

lemma unambiguous:
  assumes "dom x" "dom y" "enc x @ r = enc y @ s"
  shows "x = y \<and> r = s"
proof -
  have "Ok (x, length (enc x)) = Ok (y, length (enc y))"
    using dec_enc [OF assms(1), of r] dec_enc [OF assms(2), of s] assms(3) by simp
  then show ?thesis using assms(3) by simp
qed

lemma enc_neq_Nil: "dom x \<Longrightarrow> enc x \<noteq> []"
  using dec_bound dec_enc [of x "[]"] by fastforce

lemma take_dec:
  assumes "dec data = Ok (x, n)"
  shows "slice_from data n = Ok (drop n data)" "length (drop n data) < length data"
  using dec_bound [OF assms] by auto

end

interpretation vi: prefix_codec varint ConsumeVarInt "\<lambda>_. True"
  by unfold_locales (auto dest: ConsumeVarInt_bound)

section \<open>Properties\<close>

text \<open>
  C20: the VarInt codec. A decoder reads an encoded value back from the front of any continuation. Encoding
  adds one to five bytes, and no other encoding of a value is shorter. Decoding uses one to five of the given bytes or reports
  a truncated, an overlong or an overflowing number. The decoder that reads from a stream
  agrees with the one that reads from a slice, on the value, on the bytes it uses, and on the
  error, except that it reports the error of the stream where the slice ends.
\<close>

theorem varint_codec:
  "ConsumeVarInt (AppendVarInt [] v @ rest) = Ok (v, length (AppendVarInt [] v)) \<and>
   length dst < length (AppendVarInt dst v) \<and> length (AppendVarInt dst v) \<le> length dst + 5 \<and>
   (case ConsumeVarInt data of
      Ok (w, n) \<Rightarrow> 0 < n \<and> n \<le> 5 \<and> n \<le> length data \<and> length (AppendVarInt [] w) \<le> n
    | Fail e \<Rightarrow> e \<in> {ErrVarIntPartial, ErrVarIntTooLong, ErrVarIntOverflow}
    | Panic \<Rightarrow> False) \<and>
   ReadVarInt r =
    (case ConsumeVarInt (pending r) of
       Ok (w, n) \<Rightarrow> (Ok w, r\<lparr>pending := drop n (pending r)\<rparr>)
     | Fail e \<Rightarrow> (if e = ErrVarIntPartial then
           (if errors_Is (ends_with r) EOF \<and> pending r \<noteq> [] then Fail ErrVarIntPartial
            else Fail (ends_with r))
         else Fail e, r\<lparr>pending := drop 5 (pending r)\<rparr>)
     | Panic \<Rightarrow> (Panic, r))"
proof (intro conjI)
  show "case ConsumeVarInt data of
      Ok (w, n) \<Rightarrow> 0 < n \<and> n \<le> 5 \<and> n \<le> length data \<and> length (AppendVarInt [] w) \<le> n
    | Fail e \<Rightarrow> e \<in> {ErrVarIntPartial, ErrVarIntTooLong, ErrVarIntOverflow}
    | Panic \<Rightarrow> False"
  proof (cases "ConsumeVarInt data")
    case (Ok r)
    then show ?thesis
      using ConsumeVarInt_bound [of data] varint_minimal [of data] by (cases r) (auto simp: MaxVarIntBytes_def)
  next
    case (Fail e)
    then show ?thesis using ConsumeVarInt_Fail_cases [OF Fail] by auto
  qed simp
qed (use varint_length [of v] in \<open>simp_all only: AppendVarInt_eq ConsumeVarInt_varint MaxVarIntBytes_def append_Nil length_append
    length_greater_0_conv ReadVarInt_eq [unfolded MaxVarIntBytes_def]\<close>, simp_all)

end
