(* ===== verification/Strings.thy ===== *)
theory Strings
  imports Varint
begin

text \<open>
  Strings: Go's strings as byte sequences, the UTF-8 functions of the standard library that
  the codecs call, and the string codec of \<open>internal/protocol/codec/string.go\<close>.
\<close>

section \<open>Strings and bytes\<close>

text \<open>A Go string is a sequence of bytes; a character of the model is one byte.\<close>

definition byte_of_char :: "char \<Rightarrow> byte" where
  "byte_of_char c = of_nat (of_char c)"

definition char_of_byte :: "byte \<Rightarrow> char" where
  "char_of_byte b = char_of (unat b)"

definition bytes_of :: "string \<Rightarrow> bytes" where
  "bytes_of s = map byte_of_char s"

definition string_of :: "bytes \<Rightarrow> string" where
  "string_of bs = map char_of_byte bs"

lemma char_of_byte_of_char [simp]: "char_of_byte (byte_of_char c) = c"
  by (simp add: char_of_byte_def byte_of_char_def unat_of_nat)

lemma byte_of_char_of_byte [simp]: "byte_of_char (char_of_byte b) = b"
proof -
  have "unat b < 256" using unsigned_less [of b, where ?'a = nat] by simp
  then show ?thesis by (simp add: char_of_byte_def byte_of_char_def)
qed

lemma string_of_bytes_of [simp]: "string_of (bytes_of s) = s"
  by (induction s) (simp_all add: string_of_def bytes_of_def)

lemma bytes_of_string_of [simp]: "bytes_of (string_of bs) = bs"
  by (induction bs) (simp_all add: string_of_def bytes_of_def)

lemma length_bytes_of [simp]: "length (bytes_of s) = length s"
  by (simp add: bytes_of_def)

lemma length_string_of [simp]: "length (string_of bs) = length bs"
  by (simp add: string_of_def)

lemma bytes_of_eq_iff [simp]: "bytes_of s = bytes_of t \<longleftrightarrow> s = t"
  by (metis string_of_bytes_of)

text \<open>Decimal numerals, as the verb \<open>%d\<close> prints them.\<close>

fun show_nat :: "nat \<Rightarrow> string" where
  "show_nat n = (if n < 10 then [char_of (48 + n)] else show_nat (n div 10) @ [char_of (48 + n mod 10)])"

declare show_nat.simps [simp del]

definition show_int :: "int \<Rightarrow> string" where
  "show_int i = (if i < 0 then ''-'' @ show_nat (nat (- i)) else show_nat (nat i))"

section \<open>UTF-8 in the standard library\<close>

text \<open>
  The size of the encoded code point at the front of \<open>p\<close>, if there is a well-formed one:
  no overlong forms, no surrogates, nothing above U+10FFFF.
\<close>

definition cont_byte :: "byte \<Rightarrow> bool" where
  "cont_byte b \<longleftrightarrow> 0x80 \<le> b \<and> b \<le> 0xBF"

definition second_byte_ok :: "byte \<Rightarrow> byte \<Rightarrow> bool" where
  "second_byte_ok b0 b1 \<longleftrightarrow>
     (if b0 = 0xE0 then 0xA0 else if b0 = 0xF0 then 0x90 else 0x80) \<le> b1 \<and>
     b1 \<le> (if b0 = 0xED then 0x9F else if b0 = 0xF4 then 0x8F else 0xBF)"

fun rune_size :: "bytes \<Rightarrow> nat option" where
  "rune_size [] = None"
| "rune_size (b0 # q) =
    (if b0 < 0x80 then Some 1
     else if 0xC2 \<le> b0 \<and> b0 \<le> 0xDF then
       (case q of b1 # _ \<Rightarrow> if second_byte_ok b0 b1 then Some 2 else None | _ \<Rightarrow> None)
     else if 0xE0 \<le> b0 \<and> b0 \<le> 0xEF then
       (case q of b1 # b2 # _ \<Rightarrow> if second_byte_ok b0 b1 \<and> cont_byte b2 then Some 3 else None
        | _ \<Rightarrow> None)
     else if 0xF0 \<le> b0 \<and> b0 \<le> 0xF4 then
       (case q of b1 # b2 # b3 # _ \<Rightarrow>
          if second_byte_ok b0 b1 \<and> cont_byte b2 \<and> cont_byte b3 then Some 4 else None
        | _ \<Rightarrow> None)
     else None)"

lemma rune_size_bounds: "rune_size p = Some n \<Longrightarrow> 0 < n \<and> n \<le> length p \<and> n \<le> 4"
  by (cases p) (auto split: if_splits list.splits)

lemma rune_size_Cons: "\<exists>b q. p = b # q" if "rune_size p = Some n"
  using that by (cases p) auto

declare rune_size.simps(2) [simp del]

function utf8_Valid :: "bytes \<Rightarrow> bool" where
  "utf8_Valid p = (if p = [] then True
     else case rune_size p of None \<Rightarrow> False | Some n \<Rightarrow> utf8_Valid (drop n p))"
  by pat_completeness auto
termination
  by (relation "measure length") (auto dest: rune_size_bounds)

text \<open>\<open>utf8.RuneCount\<close> counts a malformed byte as one rune.\<close>

function utf8_RuneCount :: "bytes \<Rightarrow> nat" where
  "utf8_RuneCount p = (if p = [] then 0
     else case rune_size p of
         None \<Rightarrow> Suc (utf8_RuneCount (drop 1 p))
       | Some n \<Rightarrow> Suc (utf8_RuneCount (drop n p)))"
  by pat_completeness auto
termination
  by (relation "measure length") (auto dest: rune_size_bounds)

text \<open>
  \<open>bytes.ToValidUTF8\<close>: each maximal run of malformed bytes becomes one copy of the
  replacement; the flag tells whether such a run is under way.
\<close>

function ToValidUTF8_loop :: "bytes \<Rightarrow> bytes \<Rightarrow> bool \<Rightarrow> bytes" where
  "ToValidUTF8_loop p replacement invalid = (if p = [] then []
     else case rune_size p of
         None \<Rightarrow> (if invalid then [] else replacement) @ ToValidUTF8_loop (drop 1 p) replacement True
       | Some n \<Rightarrow> take n p @ ToValidUTF8_loop (drop n p) replacement False)"
  by pat_completeness auto
termination
  by (relation "measure (\<lambda>(p, _, _). length p)") (auto dest: rune_size_bounds)

definition ToValidUTF8 :: "bytes \<Rightarrow> bytes \<Rightarrow> bytes" where
  "ToValidUTF8 p replacement = ToValidUTF8_loop p replacement False"

declare utf8_Valid.simps [simp del] utf8_RuneCount.simps [simp del] ToValidUTF8_loop.simps [simp del]

section \<open>The string codec\<close>

definition utf8Valid :: "bytes \<Rightarrow> bool" where
  "utf8Valid data \<longleftrightarrow> data = ToValidUTF8 data []"

text \<open>The byte loop of \<open>ReadString\<close>.\<close>

fun ReadString_loop :: "nat \<Rightarrow> reader \<Rightarrow> bytes res \<times> reader" where
  "ReadString_loop 0 r = (Ok [], r)"
| "ReadString_loop (Suc n) r =
     (case ReadByte r of
        (Ok b, r') \<Rightarrow>
          (case ReadString_loop n r' of
             (Ok bs, r'') \<Rightarrow> (Ok (b # bs), r'')
           | (Fail e, r'') \<Rightarrow> (Fail e, r'')
           | (Panic, r'') \<Rightarrow> (Panic, r''))
      | (Fail e, r') \<Rightarrow> (Fail e, r')
      | (Panic, r') \<Rightarrow> (Panic, r'))"

definition ReadString :: "reader \<Rightarrow> int \<Rightarrow> string res \<times> reader" where
  "ReadString r maxBytes =
     (case ReadVarInt r of
        (Ok len, r1) \<Rightarrow>
          if sint len < 0 \<or> sint len > maxBytes then (Fail ErrStringTooLong, r1)
          else
            (case ReadString_loop (nat (sint len)) r1 of
               (Ok data, r2) \<Rightarrow>
                 if \<not> utf8Valid data then (Fail (ErrText ''invalid UTF-8 string''), r2)
                 else (Ok (string_of data), r2)
             | (Fail e, r2) \<Rightarrow> (Fail e, r2)
             | (Panic, r2) \<Rightarrow> (Panic, r2))
      | (Fail e, r1) \<Rightarrow> (Fail e, r1)
      | (Panic, r1) \<Rightarrow> (Panic, r1))"

definition AppendString :: "bytes \<Rightarrow> string \<Rightarrow> bytes" where
  "AppendString dst value = AppendVarInt dst (of_nat (length value)) @ bytes_of value"

definition ConsumeString :: "bytes \<Rightarrow> int \<Rightarrow> (string \<times> nat) res" where
  "ConsumeString data maxChars =
     rbind (or_fail (ConsumeVarInt data) ErrStringTooLong) (\<lambda>(len, prefix).
       if sint len < 0 \<or> sint len > maxChars * 3 then Fail ErrStringTooLong
       else
         let end = prefix + nat (sint len) in
         if end > length data then Fail ErrUnexpectedEOF
         else
           rbind (subslice data prefix end) (\<lambda>value.
             if \<not> utf8_Valid value \<or> int (utf8_RuneCount value) > maxChars then Fail ErrStringTooLong
             else Ok (string_of value, end)))"

section \<open>UTF-8 facts\<close>

lemma utf8_Nil [simp]: "utf8_Valid []" "utf8_RuneCount [] = 0"
  by (simp_all add: utf8_Valid.simps [of "[]"] utf8_RuneCount.simps [of "[]"])

lemma rune_size_ascii [simp]: "b < 0x80 \<Longrightarrow> rune_size (b # q) = Some 1"
  by (simp add: rune_size.simps)

text \<open>ASCII text is well-formed and has one rune per byte.\<close>

lemma utf8_ascii:
  assumes "\<forall>b \<in> set p. b < 0x80"
  shows "utf8_Valid p" "utf8_RuneCount p = length p"
proof -
  have "utf8_Valid p \<and> utf8_RuneCount p = length p"
    using assms
    by (induction p) (simp_all add: utf8_Valid.simps [of "_ # _"] utf8_RuneCount.simps [of "_ # _"])
  then show "utf8_Valid p" "utf8_RuneCount p = length p" by simp_all
qed

lemma utf8_RuneCount_le: "utf8_RuneCount p \<le> length p"
proof (induction p rule: utf8_RuneCount.induct)
  case (1 p)
  show ?case
  proof (cases "rune_size p")
    case None
    then show ?thesis
      using 1 unfolding utf8_RuneCount.simps [of p] by (cases p) auto
  next
    case (Some n)
    then show ?thesis
      using 1 rune_size_bounds [OF Some] by (auto simp: utf8_RuneCount.simps [of p])
  qed
qed

lemma ToValidUTF8_loop_valid: "utf8_Valid p \<Longrightarrow> ToValidUTF8_loop p r i = p"
proof (induction p arbitrary: i rule: utf8_Valid.induct)
  case (1 p)
  then show ?case
    by (auto simp: utf8_Valid.simps [of p] ToValidUTF8_loop.simps [of p] split: if_splits option.splits)
qed

lemma ToValidUTF8_loop_shrinks:
  "length (ToValidUTF8_loop p [] i) \<le> length p \<and>
   (\<not> utf8_Valid p \<longrightarrow> length (ToValidUTF8_loop p [] i) < length p)"
proof (induction p arbitrary: i rule: utf8_RuneCount.induct)
  case (1 p)
  show ?case
  proof (cases "rune_size p")
    case None
    then show ?thesis
      using 1(1) [OF _ None, of True]
      unfolding utf8_Valid.simps [of p] ToValidUTF8_loop.simps [of p] by (cases p) (auto simp: less_Suc_eq_le)
  next
    case (Some n)
    then have "p \<noteq> []" "n \<le> length p" using rune_size_bounds [OF Some] by auto
    then show ?thesis
      using Some 1(2) [OF _ Some, of False] by (auto simp: utf8_Valid.simps [of p] ToValidUTF8_loop.simps [of p])
  qed
qed

text \<open>The check by repair of \<open>utf8Valid\<close> is the check of \<open>utf8.Valid\<close>.\<close>

lemma utf8Valid_eq: "utf8Valid data \<longleftrightarrow> utf8_Valid data"
proof
  assume "utf8Valid data"
  then have "length (ToValidUTF8_loop data [] False) = length data"
    by (simp add: utf8Valid_def ToValidUTF8_def)
  then show "utf8_Valid data" using ToValidUTF8_loop_shrinks [of data False] by auto
next
  assume "utf8_Valid data"
  then show "utf8Valid data" by (simp add: utf8Valid_def ToValidUTF8_def ToValidUTF8_loop_valid)
qed

section \<open>String codec facts\<close>

definition mcstring :: "string \<Rightarrow> bytes" where
  "mcstring s = varint (of_nat (length s)) @ bytes_of s"

lemma AppendString_eq [simp]: "AppendString dst s = dst @ mcstring s"
  by (simp add: AppendString_def mcstring_def)

lemma sint_of_nat [simp]: "n < 2 ^ 31 \<Longrightarrow> sint (of_nat n :: int32) = int n"
  by (simp add: signed_of_nat signed_take_bit_int_eq_self)

text \<open>The strings that survive \<open>ConsumeString\<close> with a given limit on characters.\<close>

definition string_fits :: "int \<Rightarrow> string \<Rightarrow> bool" where
  "string_fits maxChars s \<longleftrightarrow> utf8_Valid (bytes_of s) \<and> int (utf8_RuneCount (bytes_of s)) \<le> maxChars \<and>
     int (length s) \<le> maxChars * 3 \<and> length s < 2 ^ 31"

lemma ConsumeString_mcstring [simp]:
  "string_fits m s \<Longrightarrow> ConsumeString (mcstring s @ rest) m = Ok (s, length (mcstring s))"
  by (simp add: ConsumeString_def mcstring_def string_fits_def Let_def)

lemma ConsumeString_no_panic [simp, no_panic]: "ConsumeString data m \<noteq> Panic"
  by (auto simp: ConsumeString_def res_iff Let_def subslice_def split: if_splits)

lemma ConsumeString_Ok:
  assumes "ConsumeString data m = Ok (s, n)"
  shows "0 < n" "n \<le> length data" "utf8_Valid (bytes_of s)" "int (utf8_RuneCount (bytes_of s)) \<le> m"
  using assms by (auto simp: ConsumeString_def res_iff Let_def split: if_splits dest: ConsumeVarInt_bound)

interpretation st: prefix_codec mcstring "\<lambda>data. ConsumeString data m" "string_fits m" for m
  by unfold_locales (auto dest: ConsumeString_Ok)

lemma ReadString_loop_append [simp]:
  "ReadString_loop (length xs) (r\<lparr>pending := xs @ rest\<rparr>) = (Ok xs, r\<lparr>pending := rest\<rparr>)"
proof (induction xs arbitrary: r)
  case Nil
  then show ?case by simp
next
  case (Cons x xs)
  then show ?case using Cons.IH [of "r\<lparr>pending := xs @ rest\<rparr>"] by simp
qed

lemma ReadString_mcstring:
  assumes "utf8_Valid (bytes_of s)" "int (length s) \<le> maxBytes" "length s < 2 ^ 31"
  shows "ReadString (r\<lparr>pending := mcstring s @ rest\<rparr>) maxBytes = (Ok s, r\<lparr>pending := rest\<rparr>)"
  using assms ReadString_loop_append [of "bytes_of s" rest r]
  by (simp add: ReadString_def ReadVarInt_eq mcstring_def utf8Valid_eq)

end
