(* ===== verification/Frame.thy ===== *)
theory Frame
  imports Strings
begin

text \<open>
  Packet framing of \<open>internal/protocol/codec/frame.go\<close>: the length-prefixed frame, its
  reader and writer with their limits, and the packet identifier. The interface of a
  framing (what a reader gets back from what a writer put on the wire) is a locale that
  the plain and the compressed framing both implement.
\<close>

section \<open>Definitions\<close>

definition DefaultMaxPacketSize :: int where
  "DefaultMaxPacketSize = 2 * 2 ^ 20"

record Framer =
  framer_maxPacketSize :: int

definition NewFramer :: "int \<Rightarrow> Framer" where
  "NewFramer maxPacketSize =
     \<lparr>framer_maxPacketSize = (if maxPacketSize \<le> 0 then DefaultMaxPacketSize else maxPacketSize)\<rparr>"

text \<open>
  The destination buffer of \<open>Framer.ReadFrame\<close> only decides where the payload is stored; the
  model returns its contents.
\<close>

definition ReadFrame :: "Framer \<Rightarrow> reader \<Rightarrow> bytes res \<times> reader" where
  "ReadFrame f r =
     (case ReadVarInt r of
        (Panic, r1) \<Rightarrow> (Panic, r1)
      | (Fail e, r1) \<Rightarrow> (Fail e, r1)
      | (Ok len, r1) \<Rightarrow>
          if sint len < 0 then (Fail ErrNegativeLength, r1)
          else if len = 0 then (Fail ErrEmptyPacket, r1)
          else if sint len > framer_maxPacketSize f
          then (Fail (PacketTooLargeError (sint len) (framer_maxPacketSize f)), r1)
          else ReadFull r1 (nat (sint len)))"

function writeAll :: "('w \<Rightarrow> bytes \<Rightarrow> (nat \<times> err option) \<times> 'w) \<Rightarrow> 'w \<Rightarrow> bytes \<Rightarrow> unit res \<times> 'w" where
  "writeAll put w data =
     (if data = [] then (Ok (), w)
      else
        (case put w data of
           ((n, Some e), w') \<Rightarrow> (Fail e, w')
         | ((n, None), w') \<Rightarrow>
             if n = 0 then (Fail ErrShortWrite, w')
             else if n > length data then (Panic, w')
             else writeAll put w' (drop n data)))"
  by pat_completeness auto
termination
  by (relation "measure (\<lambda>(put, w, data). length data)") auto

declare writeAll.simps [simp del]

definition WriteFrame ::
  "Framer \<Rightarrow> ('w \<Rightarrow> bytes \<Rightarrow> (nat \<times> err option) \<times> 'w) \<Rightarrow> 'w \<Rightarrow> bytes \<Rightarrow> unit res \<times> 'w" where
  "WriteFrame f put w payload =
     (if length payload = 0 then (Fail ErrEmptyPacket, w)
      else if int (length payload) > framer_maxPacketSize f
      then (Fail (PacketTooLargeError (int (length payload)) (framer_maxPacketSize f)), w)
      else
        (case writeAll put w (AppendVarInt [] (of_nat (length payload))) of
           (Ok _, w1) \<Rightarrow> writeAll put w1 payload
         | (Fail e, w1) \<Rightarrow> (Fail e, w1)
         | (Panic, w1) \<Rightarrow> (Panic, w1)))"

definition PacketID :: "bytes \<Rightarrow> (int32 \<times> bytes) res" where
  "PacketID payload =
     rbind (ConsumeVarInt payload) (\<lambda>(id, size).
     rbind (slice_from payload size) (\<lambda>body. Ok (id, body)))"

section \<open>Packet identifiers\<close>

lemma PacketID_varint [simp]: "PacketID (varint v @ body) = Ok (v, body)"
  by (simp add: PacketID_def)

lemma PacketID_varint_only [simp]: "PacketID (varint v) = Ok (v, [])"
  using PacketID_varint [of v "[]"] by simp

lemma PacketID_no_panic [simp, no_panic]: "PacketID payload \<noteq> Panic"
  by (auto simp: PacketID_def res_iff dest: ConsumeVarInt_bound)

lemma PacketID_Ok:
  assumes "PacketID payload = Ok (i, body)"
  shows "length body < length payload"
  using assms by (auto simp: PacketID_def res_iff dest: ConsumeVarInt_bound)

lemma PacketID_Nil: "PacketID [] = Fail ErrVarIntPartial"
  by (simp add: PacketID_def ConsumeVarInt_def ConsumeVarInt_loop.simps [of "[]"] MaxVarIntBytes_def)

section \<open>Frames on the wire\<close>

definition frame :: "bytes \<Rightarrow> bytes" where
  "frame payload = varint (of_nat (length payload)) @ payload"

definition frame_fits :: "Framer \<Rightarrow> bytes \<Rightarrow> bool" where
  "frame_fits f payload \<longleftrightarrow> payload \<noteq> [] \<and> int (length payload) \<le> framer_maxPacketSize f \<and>
     length payload < 2 ^ 31"

lemma of_nat_eq_0_int32: "n < 2 ^ 32 \<Longrightarrow> (of_nat n :: int32) = 0 \<longleftrightarrow> n = 0"
  by (simp add: word_of_nat_eq_0_iff nat_dvd_not_less) (metis gr0I nat_dvd_not_less dvd_0_right)

lemma ReadFrame_frame [simp]:
  "frame_fits f p \<Longrightarrow> ReadFrame f (r\<lparr>pending := frame p @ rest\<rparr>) = (Ok p, r\<lparr>pending := rest\<rparr>)"
  by (simp add: ReadFrame_def ReadVarInt_eq frame_def frame_fits_def of_nat_eq_0_int32)

lemma ReadFrame_Ok:
  assumes "ReadFrame f r = (Ok payload, r')"
  shows "payload \<noteq> []" "int (length payload) \<le> framer_maxPacketSize f"
    "\<exists>hd. length hd \<le> MaxVarIntBytes \<and> pending r = hd @ payload @ pending r'"
proof -
  from assms obtain len n where v: "ConsumeVarInt (pending r) = Ok (len, n)"
    and g: "\<not> sint len < 0" "len \<noteq> 0" "\<not> sint len > framer_maxPacketSize f"
    and full: "ReadFull (r\<lparr>pending := drop n (pending r)\<rparr>) (nat (sint len)) = (Ok payload, r')"
    by (auto simp: ReadFrame_def ReadVarInt_eq split: res.splits prod.splits if_splits)
  note f = ReadFull_Ok [OF full]
  have "sint len \<noteq> 0" using g(2) by (metis signed_0 signed_word_eqI)
  then show "payload \<noteq> []" "int (length payload) \<le> framer_maxPacketSize f"
    using f g by auto
  have "pending r = take n (pending r) @ payload @ pending r'"
    using f by (metis append_take_drop_id reader.select_convs(1) reader.surjective reader.update_convs(1))
  then show "\<exists>hd. length hd \<le> MaxVarIntBytes \<and> pending r = hd @ payload @ pending r'"
    using ConsumeVarInt_bound [OF v] by (intro exI [of _ "take n (pending r)"]) auto
qed

section \<open>Writing through any writer\<close>

context io_writer
begin

lemma writeAll_spec:
  "usable w \<Longrightarrow> writeAll put w data = (res, w') \<Longrightarrow>
   res \<noteq> Panic \<and> (\<exists>k \<le> length data. sent w' = sent w @ take k data) \<and>
   (res = Ok () \<longrightarrow> usable w' \<and> sent w' = sent w @ data)"
proof (induction "length data" arbitrary: w data rule: less_induct)
  case less
  show ?case
  proof (cases "data = []")
    case True
    then show ?thesis using less.prems by (auto simp: writeAll.simps [of put w "[]"])
  next
    case False
    obtain n e w1 where p: "put w data = ((n, e), w1)" by (metis surj_pair)
    have n: "n \<le> length data" and s: "sent w1 = sent w @ take n data"
      using put_count put_sent less.prems(1) p by blast+
    show ?thesis
    proof (cases "e = None \<and> n \<noteq> 0")
      case True
      then have "usable w1" using put_usable less.prems(1) p by blast
      moreover have "writeAll put w1 (drop n data) = (res, w')"
        using less.prems(2) True False n by (simp add: writeAll.simps [of put w data] p)
      ultimately have IH: "res \<noteq> Panic \<and> (\<exists>k \<le> length data - n. sent w' = sent w1 @ take k (drop n data)) \<and>
          (res = Ok () \<longrightarrow> usable w' \<and> sent w' = sent w1 @ drop n data)"
        using less.hyps [of "drop n data" w1] True False n by simp
      then obtain k where "k \<le> length data - n" "sent w' = sent w1 @ take k (drop n data)" by blast
      then have "n + k \<le> length data" "sent w' = sent w @ take (n + k) data"
        using n by (simp_all add: s take_add)
      with IH s show ?thesis by (metis append.assoc append_take_drop_id)
    next
      case F: False
      then have "res \<noteq> Panic \<and> res \<noteq> Ok () \<and> w' = w1"
        using less.prems(2) False by (auto simp: writeAll.simps [of put w data] p split: option.splits if_splits)
      then show ?thesis using s n by blast
    qed
  qed
qed

lemma WriteFrame_Ok:
  assumes "usable w" "WriteFrame f put w payload = (Ok (), w')"
  shows "usable w'" "sent w' = sent w @ frame payload"
    "payload \<noteq> []" "int (length payload) \<le> framer_maxPacketSize f"
proof -
  from assms(2) obtain w1 where 1: "writeAll put w (varint (of_nat (length payload))) = (Ok (), w1)"
    and 2: "writeAll put w1 payload = (Ok (), w')"
    and "payload \<noteq> []" "int (length payload) \<le> framer_maxPacketSize f"
    by (auto simp: WriteFrame_def split: res.splits prod.splits if_splits)
  then show "payload \<noteq> []" "int (length payload) \<le> framer_maxPacketSize f" by simp_all
  show "usable w'" "sent w' = sent w @ frame payload"
    using writeAll_spec [OF assms(1) 1] writeAll_spec [OF _ 2] by (simp_all add: frame_def)
qed

lemma WriteFrame_no_panic:
  assumes "usable w"
  shows "fst (WriteFrame f put w payload) \<noteq> Panic"
proof -
  obtain r1 w1 where 1: "writeAll put w (varint (of_nat (length payload))) = (r1, w1)" by (metis surj_pair)
  obtain r2 w2 where 2: "writeAll put w1 payload = (r2, w2)" by (metis surj_pair)
  show ?thesis
    using writeAll_spec [OF assms 1] writeAll_spec [OF _ 2] 1 2
    by (cases r1) (auto simp: WriteFrame_def)
qed

end

section \<open>Framings\<close>

text \<open>
  What a transport needs of a framing: a payload within limits, put on the wire by \<open>wire\<close>,
  is the next payload \<open>get\<close> returns, and nothing behind it is touched.
\<close>

locale framing =
  fixes wire :: "bytes \<Rightarrow> bytes"
    and get :: "reader \<Rightarrow> bytes res \<times> reader"
    and fits :: "bytes \<Rightarrow> bool"
  assumes get_wire: "fits p \<Longrightarrow> get (r\<lparr>pending := wire p @ rest\<rparr>) = (Ok p, r\<lparr>pending := rest\<rparr>)"

text \<open>Reading \<open>n\<close> frames one after the other, stopping at the first error.\<close>

fun get_many :: "(reader \<Rightarrow> bytes res \<times> reader) \<Rightarrow> nat \<Rightarrow> reader \<Rightarrow> bytes list res \<times> reader" where
  "get_many get 0 r = (Ok [], r)"
| "get_many get (Suc n) r =
     (case get r of
        (Ok p, r1) \<Rightarrow>
          (case get_many get n r1 of
             (Ok ps, r2) \<Rightarrow> (Ok (p # ps), r2)
           | (Fail e, r2) \<Rightarrow> (Fail e, r2)
           | (Panic, r2) \<Rightarrow> (Panic, r2))
      | (Fail e, r1) \<Rightarrow> (Fail e, r1)
      | (Panic, r1) \<Rightarrow> (Panic, r1))"

context framing
begin

lemma get_many_wire:
  "list_all fits ps \<Longrightarrow>
   get_many get (length ps) (r\<lparr>pending := concat (map wire ps) @ rest\<rparr>) = (Ok ps, r\<lparr>pending := rest\<rparr>)"
  by (induction ps) (simp_all add: get_wire)

lemma wire_inj_list:
  assumes "list_all fits ps" "list_all fits qs" "length ps = length qs"
    "concat (map wire ps) = concat (map wire qs)"
  shows "ps = qs"
proof -
  fix r :: reader
  have "get_many get (length ps) (r\<lparr>pending := concat (map wire ps) @ []\<rparr>) = (Ok ps, r\<lparr>pending := []\<rparr>)"
    by (rule get_many_wire [OF assms(1)])
  moreover have "get_many get (length qs) (r\<lparr>pending := concat (map wire qs) @ []\<rparr>) = (Ok qs, r\<lparr>pending := []\<rparr>)"
    by (rule get_many_wire [OF assms(2)])
  ultimately show ?thesis using assms(3,4) by simp
qed

end

interpretation plain: framing frame "ReadFrame f" "frame_fits f" for f
  by unfold_locales simp

end
