(* ===== verification/Cipher.thy ===== *)
theory Cipher
  imports Prelude
begin

text \<open>
  The AES-CFB8 stream of \<open>internal/protocol/codec/cipher.go\<close>. The block cipher is a
  parameter (\<open>crypto/aes\<close>); everything about the stream mode holds for any block function.
\<close>

section \<open>Definitions\<close>

definition aes_BlockSize :: nat where
  "aes_BlockSize = 16"

record CipherState =
  cs_block :: "bytes \<Rightarrow> bytes"
  encryptIV :: bytes
  decryptIV :: bytes

definition NewCipherState :: "(bytes \<Rightarrow> (bytes \<Rightarrow> bytes) res) \<Rightarrow> bytes \<Rightarrow> bytes \<Rightarrow> CipherState res" where
  "NewCipherState aes_NewCipher key iv =
     (if length key \<noteq> aes_BlockSize \<or> length iv \<noteq> aes_BlockSize then Fail ErrInvalidCipherParameters
      else rbind (aes_NewCipher key) (\<lambda>block. Ok \<lparr>cs_block = block, encryptIV = iv, decryptIV = iv\<rparr>))"

text \<open>The byte loop of \<open>cfb8\<close>: the output and the shift register it leaves.\<close>

fun cfb8_loop :: "(bytes \<Rightarrow> bytes) \<Rightarrow> bytes \<Rightarrow> bytes \<Rightarrow> bool \<Rightarrow> bytes \<times> bytes" where
  "cfb8_loop block shift [] encrypt = ([], shift)"
| "cfb8_loop block shift (value # src) encrypt =
     (let encrypted = block shift;
          result = value XOR (encrypted ! 0);
          feedback = (if encrypt then result else value);
          (out, shift') = cfb8_loop block (drop 1 shift @ [feedback]) src encrypt
      in (result # out, shift'))"

definition cfb8 :: "(bytes \<Rightarrow> bytes) \<Rightarrow> bytes \<Rightarrow> bytes \<Rightarrow> bytes \<Rightarrow> bool \<Rightarrow> (bytes \<times> bytes) res" where
  "cfb8 block shift dst src encrypt =
     (if length dst < length src then Panic
      else let (out, shift') = cfb8_loop block shift src encrypt
           in Ok (out @ drop (length src) dst, shift'))"

definition Encrypt :: "CipherState \<Rightarrow> bytes \<Rightarrow> bytes \<Rightarrow> (bytes \<times> CipherState) res" where
  "Encrypt c dst src =
     rbind (cfb8 (cs_block c) (encryptIV c) dst src True) (\<lambda>(dst', iv). Ok (dst', c\<lparr>encryptIV := iv\<rparr>))"

definition Decrypt :: "CipherState \<Rightarrow> bytes \<Rightarrow> bytes \<Rightarrow> (bytes \<times> CipherState) res" where
  "Decrypt c dst src =
     rbind (cfb8 (cs_block c) (decryptIV c) dst src False) (\<lambda>(dst', iv). Ok (dst', c\<lparr>decryptIV := iv\<rparr>))"

section \<open>Stream ciphers\<close>

text \<open>
  The contract of a byte stream cipher: \<open>seal\<close> and \<open>open\<close> keep a register, work through
  their input byte by byte, so that splitting the input never matters, and \<open>open\<close> undoes
  \<open>seal\<close> from equal registers, leaving equal registers.
\<close>

locale stream_cipher =
  fixes seal :: "'k \<Rightarrow> bytes \<Rightarrow> bytes \<times> 'k"
    and unseal :: "'k \<Rightarrow> bytes \<Rightarrow> bytes \<times> 'k"
  assumes seal_Nil: "seal k [] = ([], k)"
    and seal_append: "seal k (xs @ ys) =
          (let (a, k1) = seal k xs; (b, k2) = seal k1 ys in (a @ b, k2))"
    and unseal_append: "unseal k (xs @ ys) =
          (let (a, k1) = unseal k xs; (b, k2) = unseal k1 ys in (a @ b, k2))"
    and unseal_seal: "seal k xs = (a, k1) \<Longrightarrow> unseal k a = (xs, k1)"
    and length_seal: "seal k xs = (a, k1) \<Longrightarrow> length a = length xs"

text \<open>Working through a list of chunks, one call per chunk.\<close>

fun run_chunks :: "('k \<Rightarrow> bytes \<Rightarrow> bytes \<times> 'k) \<Rightarrow> 'k \<Rightarrow> bytes list \<Rightarrow> bytes \<times> 'k" where
  "run_chunks f k [] = ([], k)"
| "run_chunks f k (c # cs) = (let (a, k1) = f k c; (b, k2) = run_chunks f k1 cs in (a @ b, k2))"

context stream_cipher
begin

lemma unseal_Nil: "unseal k [] = ([], k)"
  using unseal_seal [OF seal_Nil] .

lemma run_chunks_seal: "run_chunks seal k cs = seal k (concat cs)"
  by (induction cs arbitrary: k) (simp_all add: seal_Nil seal_append)

lemma run_chunks_unseal: "run_chunks unseal k cs = unseal k (concat cs)"
  by (induction cs arbitrary: k) (simp_all add: unseal_Nil unseal_append)

lemma chunks_roundtrip:
  assumes "run_chunks seal k cs = (a, k1)" "concat ds = a"
  shows "run_chunks unseal k ds = (concat cs, k1)"
  using assms unseal_seal by (simp add: run_chunks_seal run_chunks_unseal)

end

section \<open>CFB8\<close>

lemma cfb8_loop_append:
  "cfb8_loop block s (xs @ ys) e =
     (let (a, s1) = cfb8_loop block s xs e; (b, s2) = cfb8_loop block s1 ys e in (a @ b, s2))"
  by (induction block s xs e rule: cfb8_loop.induct) (auto simp: Let_def split: prod.splits)

lemma cfb8_loop_length: "length (fst (cfb8_loop block s xs e)) = length xs"
  by (induction block s xs e rule: cfb8_loop.induct) (auto simp: Let_def split: prod.splits)

lemma cfb8_loop_register:
  "length s = n \<Longrightarrow> 0 < n \<Longrightarrow> length (snd (cfb8_loop block s xs e)) = n"
  by (induction block s xs e rule: cfb8_loop.induct) (auto simp: Let_def split: prod.splits)

lemma cfb8_loop_inverse:
  "cfb8_loop block s xs True = (a, s1) \<Longrightarrow> cfb8_loop block s a False = (xs, s1)"
  by (induction block s xs "True" arbitrary: a rule: cfb8_loop.induct)
     (auto simp: Let_def xor.assoc split: prod.splits)

interpretation cfb: stream_cipher
  "\<lambda>s xs. cfb8_loop block s xs True" "\<lambda>s xs. cfb8_loop block s xs False" for block
proof unfold_locales
  fix k xs a k1
  assume "cfb8_loop block k xs True = (a, k1)"
  then show "length a = length xs" using cfb8_loop_length [of block k xs True] by simp
qed (simp_all add: cfb8_loop_append cfb8_loop_inverse)

lemma Encrypt_Ok:
  "length dst = length src \<Longrightarrow> cfb8_loop (cs_block c) (encryptIV c) src True = (out, iv) \<Longrightarrow>
   Encrypt c dst src = Ok (out, c\<lparr>encryptIV := iv\<rparr>)"
  by (simp add: Encrypt_def cfb8_def)

lemma Decrypt_Ok:
  "length dst = length src \<Longrightarrow> cfb8_loop (cs_block c) (decryptIV c) src False = (out, iv) \<Longrightarrow>
   Decrypt c dst src = Ok (out, c\<lparr>decryptIV := iv\<rparr>)"
  by (simp add: Decrypt_def cfb8_def)

end
