(* ===== verification/Compression.thy ===== *)
theory Compression
  imports Frame
begin

text \<open>
  Compressed framing of \<open>internal/protocol/codec/compression.go\<close>. The zlib writer and reader
  are parameters: \<open>deflate\<close> is what the writer leaves in the buffer, \<open>inflate\<close> opens a
  reader on compressed data (or reports a bad header). The pools of writers and readers
  only reuse their memory.
\<close>

section \<open>Definitions\<close>

record CompressionState =
  threshold :: int
  cmp_maxPacketSize :: int
  wireFramer :: Framer

text \<open>Go's integer division truncates; the operands here are positive.\<close>

definition NewCompressionState :: "int \<Rightarrow> int \<Rightarrow> CompressionState res" where
  "NewCompressionState thr maxPacketSize =
     (if thr < 0 then Fail ErrInvalidCompressionThreshold
      else
        let maxPacketSize = (if maxPacketSize \<le> 0 then DefaultMaxPacketSize else maxPacketSize);
            wireLimit = maxPacketSize + maxPacketSize div 1000 + 64 + int MaxVarIntBytes
        in Ok \<lparr>threshold = thr, cmp_maxPacketSize = maxPacketSize, wireFramer = NewFramer wireLimit\<rparr>)"

definition compressed_ReadFrame ::
  "(bytes \<Rightarrow> reader res) \<Rightarrow> CompressionState \<Rightarrow> reader \<Rightarrow> bytes res \<times> reader" where
  "compressed_ReadFrame inflate c r =
     (case ReadFrame (wireFramer c) r of
        (Fail e, r1) \<Rightarrow> (Fail e, r1)
      | (Panic, r1) \<Rightarrow> (Panic, r1)
      | (Ok wire, r1) \<Rightarrow>
         (rbind (or_fail (ConsumeVarInt wire) ErrInvalidCompressedPacket) (\<lambda>(dataLength, used).
            if sint dataLength < 0 then Fail ErrInvalidCompressedPacket
            else
              rbind (slice_from wire used) (\<lambda>data.
                if dataLength = 0 then
                  (if length data = 0 \<or> int (length data) \<ge> threshold c then Fail ErrInvalidCompressedPacket
                   else Ok data)
                else if sint dataLength > cmp_maxPacketSize c
                then Fail (PacketTooLargeError (sint dataLength) (cmp_maxPacketSize c))
                else if sint dataLength < threshold c \<or> length data = 0 then Fail ErrInvalidCompressedPacket
                else
                  (case inflate data of
                     Panic \<Rightarrow> Panic
                   | Fail e \<Rightarrow> Fail (ErrWrap ''zlib'' ErrInvalidCompressedPacket)
                   | Ok zr \<Rightarrow>
                       (case ReadFull zr (nat (sint dataLength)) of
                          (Ok payload, zr') \<Rightarrow>
                            if pending zr' \<noteq> [] \<or> \<not> errors_Is (ends_with zr') EOF
                            then Fail ErrInvalidCompressedPacket
                            else Ok payload
                        | (Fail e, zr') \<Rightarrow> Fail (ErrWrap ''zlib'' ErrInvalidCompressedPacket)
                        | (Panic, zr') \<Rightarrow> Panic)))), r1))"

definition compressed_WriteFrame ::
  "(bytes \<Rightarrow> bytes res) \<Rightarrow> CompressionState \<Rightarrow> ('w \<Rightarrow> bytes \<Rightarrow> (nat \<times> err option) \<times> 'w) \<Rightarrow> 'w \<Rightarrow>
   bytes \<Rightarrow> unit res \<times> 'w" where
  "compressed_WriteFrame deflate c put w payload =
     (if length payload = 0 then (Fail ErrEmptyPacket, w)
      else if int (length payload) > cmp_maxPacketSize c
      then (Fail (PacketTooLargeError (int (length payload)) (cmp_maxPacketSize c)), w)
      else if int (length payload) < threshold c
      then WriteFrame (wireFramer c) put w (AppendVarInt [] 0 @ payload)
      else
        (case deflate payload of
           Ok compressed \<Rightarrow>
             WriteFrame (wireFramer c) put w (AppendVarInt [] (of_nat (length payload)) @ compressed)
         | Fail e \<Rightarrow> (Fail e, w)
         | Panic \<Rightarrow> (Panic, w)))"

section \<open>The frame that is written is the frame that is read\<close>

text \<open>The wire image of a payload, once \<open>deflate\<close> has succeeded on it where it is used.\<close>

definition compressed_body :: "(bytes \<Rightarrow> bytes res) \<Rightarrow> CompressionState \<Rightarrow> bytes \<Rightarrow> bytes" where
  "compressed_body deflate c payload =
     (if int (length payload) < threshold c then varint 0 @ payload
      else case deflate payload of
          Ok compressed \<Rightarrow> varint (of_nat (length payload)) @ compressed
        | _ \<Rightarrow> [])"

text \<open>
  \<open>zlib_ok\<close> is what the code relies on from \<open>compress/zlib\<close> for one payload: the writer
  succeeds with a non-empty stream, and a reader on that stream yields the payload and
  then the end of the stream.
\<close>

definition zlib_ok :: "(bytes \<Rightarrow> bytes res) \<Rightarrow> (bytes \<Rightarrow> reader res) \<Rightarrow> bytes \<Rightarrow> bool" where
  "zlib_ok deflate inflate payload \<longleftrightarrow>
     (\<exists>z. deflate payload = Ok z \<and> z \<noteq> [] \<and> inflate z = Ok \<lparr>pending = payload, ends_with = EOF\<rparr>)"

definition compressed_fits ::
  "(bytes \<Rightarrow> bytes res) \<Rightarrow> (bytes \<Rightarrow> reader res) \<Rightarrow> CompressionState \<Rightarrow> bytes \<Rightarrow> bool" where
  "compressed_fits deflate inflate c payload \<longleftrightarrow>
     payload \<noteq> [] \<and> int (length payload) \<le> cmp_maxPacketSize c \<and> length payload < 2 ^ 31 \<and>
     frame_fits (wireFramer c) (compressed_body deflate c payload) \<and>
     (threshold c \<le> int (length payload) \<longrightarrow> zlib_ok deflate inflate payload)"

lemma compressed_ReadFrame_wire:
  assumes "compressed_fits deflate inflate c p"
  shows "compressed_ReadFrame inflate c (r\<lparr>pending := frame (compressed_body deflate c p) @ rest\<rparr>)
         = (Ok p, r\<lparr>pending := rest\<rparr>)"
proof (cases "int (length p) < threshold c")
  case True
  then show ?thesis
    using assms by (simp add: compressed_ReadFrame_def compressed_fits_def compressed_body_def)
next
  case False
  then obtain z where z: "deflate p = Ok z" "z \<noteq> []" "inflate z = Ok \<lparr>pending = p, ends_with = EOF\<rparr>"
    using assms by (auto simp: compressed_fits_def zlib_ok_def)
  have "(of_nat (length p) :: int32) \<noteq> 0"
    using assms of_nat_eq_0_int32 [of "length p"] by (simp add: compressed_fits_def)
  then show ?thesis
    using assms False z
    by (simp add: compressed_ReadFrame_def compressed_fits_def compressed_body_def ReadFull_def)
qed

interpretation zip: framing "\<lambda>p. frame (compressed_body deflate c p)" "compressed_ReadFrame inflate c"
  "compressed_fits deflate inflate c" for deflate inflate c
  by unfold_locales (rule compressed_ReadFrame_wire)

context io_writer
begin

lemma compressed_WriteFrame_Ok:
  assumes "usable w" "compressed_WriteFrame deflate c put w payload = (Ok (), w')"
  shows "usable w'" "sent w' = sent w @ frame (compressed_body deflate c payload)"
    "payload \<noteq> []" "int (length payload) \<le> cmp_maxPacketSize c"
  using assms
  by (auto simp: compressed_WriteFrame_def compressed_body_def dest: WriteFrame_Ok split: if_splits res.splits)

end

text \<open>
  What a compressed frame can make the gateway hold: a payload is never empty, and never
  longer than the packet limit, except that an uncompressed body is only kept below the
  compression threshold.
\<close>

lemma compressed_ReadFrame_Ok:
  assumes "compressed_ReadFrame inflate c r = (Ok payload, r')"
  shows "payload \<noteq> []"
    "int (length payload) \<le> cmp_maxPacketSize c \<and> threshold c \<le> int (length payload) \<or>
     int (length payload) < threshold c \<and> int (length payload) < framer_maxPacketSize (wireFramer c)"
proof -
  from assms obtain wire dataLength used where
    wire: "ReadFrame (wireFramer c) r = (Ok wire, r')"
    and v: "ConsumeVarInt wire = Ok (dataLength, used)"
    and len: "dataLength = 0 \<and> payload = drop used wire \<and> payload \<noteq> [] \<and> int (length payload) < threshold c \<or>
      dataLength \<noteq> 0 \<and> 0 \<le> sint dataLength \<and> sint dataLength \<le> cmp_maxPacketSize c \<and>
      threshold c \<le> sint dataLength \<and> int (length payload) = sint dataLength"
    by (auto simp: compressed_ReadFrame_def res_iff ReadFull_def
        split: res.splits prod.splits if_splits)
  have "0 < used" "used \<le> length wire" "int (length wire) \<le> framer_maxPacketSize (wireFramer c)"
    using ConsumeVarInt_bound [OF v] ReadFrame_Ok [OF wire] by auto
  then show "int (length payload) \<le> cmp_maxPacketSize c \<and> threshold c \<le> int (length payload) \<or>
     int (length payload) < threshold c \<and> int (length payload) < framer_maxPacketSize (wireFramer c)"
    using len by auto
  have "dataLength \<noteq> 0 \<Longrightarrow> sint dataLength \<noteq> 0" by (metis signed_0 signed_word_eqI)
  then show "payload \<noteq> []" using len by auto
qed

end
