(* ===== verification/Handshake.thy ===== *)
theory Handshake
  imports Frame
begin

text \<open>The handshake packet of \<open>internal/protocol/handshake/handshake.go\<close>.\<close>

section \<open>Definitions\<close>

definition ProtocolVersion :: int32 where
  "ProtocolVersion = 765"

type_synonym NextState = uint32

definition NextStatus :: NextState where
  "NextStatus = 1"

definition NextLogin :: NextState where
  "NextLogin = 2"

record HandshakePacket =
  hs_ProtocolVersion :: int32
  hs_ServerAddress :: string
  hs_ServerPort :: uint16
  hs_NextState :: NextState

definition handshake_Payload :: "HandshakePacket \<Rightarrow> bytes" where
  "handshake_Payload packet =
     (let payload = AppendVarInt [] 0x00;
          payload = AppendVarInt payload (hs_ProtocolVersion packet);
          payload = AppendString payload (hs_ServerAddress packet);
          payload = payload @ [ucast (drop_bit 8 (hs_ServerPort packet)), ucast (hs_ServerPort packet)]
      in AppendVarInt payload (hs_NextState packet))"

definition handshake_readString :: "bytes \<Rightarrow> int \<Rightarrow> (string \<times> nat) res" where
  "handshake_readString data maxChars =
     rbind (or_fail (ConsumeVarInt data) ErrHandshakeMalformed) (\<lambda>(len, used).
       if sint len < 0 \<or> sint len > maxChars * 3 then Fail ErrHandshakeMalformed
       else
         let start = used; end = start + nat (sint len) in
         if end > length data then Fail ErrHandshakeMalformed
         else
           rbind (subslice data start end) (\<lambda>value.
             if \<not> utf8_Valid value \<or> int (utf8_RuneCount value) > maxChars then Fail ErrHandshakeMalformed
             else Ok (string_of value, end)))"

definition handshake_Parse :: "bytes \<Rightarrow> HandshakePacket res" where
  "handshake_Parse payload =
     rbind (or_fail (PacketID payload) ErrHandshakeMalformed) (\<lambda>(id, body).
     if id \<noteq> 0x00 then Fail ErrHandshakeMalformed
     else
     rbind (or_fail (ConsumeVarInt body) ErrHandshakeMalformed) (\<lambda>(version, used).
     rbind (slice_from body used) (\<lambda>body.
     rbind (or_fail (handshake_readString body 255) ErrHandshakeMalformed) (\<lambda>(address, used).
     rbind (slice_from body used) (\<lambda>body.
     if length body < 2 then Fail ErrHandshakeMalformed
     else
     rbind (Uint16 body) (\<lambda>port.
     rbind (slice_from body 2) (\<lambda>body.
     rbind (or_fail (ConsumeVarInt body) ErrHandshakeMalformed) (\<lambda>(next, used).
     rbind (slice_from body used) (\<lambda>tail.
     if length tail \<noteq> 0 \<or> (next \<noteq> NextStatus \<and> next \<noteq> NextLogin) then Fail ErrHandshakeMalformed
     else Ok \<lparr>hs_ProtocolVersion = version, hs_ServerAddress = address, hs_ServerPort = port,
              hs_NextState = next\<rparr>)))))))))"

definition ValidateVersion :: "int32 \<Rightarrow> unit res" where
  "ValidateVersion version =
     (if version \<noteq> ProtocolVersion
      then Fail (ErrText (''unsupported Minecraft protocol version '' @ show_int (sint version)))
      else Ok ())"

section \<open>Facts\<close>

lemma handshake_readString_eq:
  "handshake_readString data m = or_fail (ConsumeString data m) ErrHandshakeMalformed"
  unfolding handshake_readString_def ConsumeString_def
  by (cases "ConsumeVarInt data") (auto simp: Let_def subslice_def)

lemma port_bytes: "[ucast (drop_bit 8 p), ucast p] = PutUint16 p"
  by (simp add: PutUint16_def numeral_eq_Suc)

lemma handshake_Payload_eq:
  "handshake_Payload p = varint 0 @ varint (hs_ProtocolVersion p) @ mcstring (hs_ServerAddress p) @
     PutUint16 (hs_ServerPort p) @ varint (hs_NextState p)"
  by (simp add: handshake_Payload_def Let_def port_bytes [symmetric])

lemma handshake_roundtrip:
  assumes "string_fits 255 (hs_ServerAddress p)" "hs_NextState p \<in> {NextStatus, NextLogin}"
  shows "handshake_Parse (handshake_Payload p) = Ok p"
  using assms by (auto simp: handshake_Parse_def handshake_Payload_eq handshake_readString_eq)

lemma handshake_Parse_no_panic [simp, no_panic]: "handshake_Parse payload \<noteq> Panic"
  by (auto simp: handshake_Parse_def handshake_readString_eq res_iff slice_from_def
      split: if_splits dest: ConsumeVarInt_bound ConsumeString_Ok(2))

lemma handshake_Parse_Fail: "handshake_Parse payload = Fail e \<Longrightarrow> e = ErrHandshakeMalformed"
  by (auto simp: handshake_Parse_def res_iff split: if_splits prod.splits)

lemma handshake_Parse_Ok:
  assumes "handshake_Parse payload = Ok p"
  shows "hs_NextState p \<in> {NextStatus, NextLogin}"
    "utf8_Valid (bytes_of (hs_ServerAddress p))"
    "utf8_RuneCount (bytes_of (hs_ServerAddress p)) \<le> 255"
  using assms
  by (auto simp: handshake_Parse_def handshake_readString_eq res_iff split: if_splits
      dest: ConsumeString_Ok(3,4))

end
