(* ===== verification/Login.thy ===== *)
theory Login
  imports Frame
begin

text \<open>
  The login packets of \<open>internal/protocol/login/login.go\<close>. MD5 and the JSON decoder are
  parameters of the two functions that call them.
\<close>

section \<open>Definitions\<close>

definition ServerboundLoginStartID :: int32 where "ServerboundLoginStartID = 0x00"
definition ServerboundEncryptionResponseID :: int32 where "ServerboundEncryptionResponseID = 0x01"
definition ServerboundPluginResponseID :: int32 where "ServerboundPluginResponseID = 0x02"
definition ServerboundLoginAckID :: int32 where "ServerboundLoginAckID = 0x03"
definition ClientboundEncryptionRequestID :: int32 where "ClientboundEncryptionRequestID = 0x01"
definition ClientboundLoginSuccessID :: int32 where "ClientboundLoginSuccessID = 0x02"
definition ClientboundPluginRequestID :: int32 where "ClientboundPluginRequestID = 0x04"

lemmas login_ids = ServerboundLoginStartID_def ServerboundEncryptionResponseID_def
  ServerboundPluginResponseID_def ServerboundLoginAckID_def ClientboundEncryptionRequestID_def
  ClientboundLoginSuccessID_def ClientboundPluginRequestID_def

definition maxEncryptionFieldSize :: int where
  "maxEncryptionFieldSize = 1024"

record LoginStart =
  ls_Username :: string
  ls_UUID :: bytes

record PluginRequest =
  pr_MessageID :: int32
  pr_Channel :: string
  pr_Data :: bytes

record EncryptionRequest =
  er_ServerID :: string
  er_PublicKey :: bytes
  er_VerifyToken :: bytes
  er_ShouldAuthenticate :: bool

record EncryptionResponse =
  ep_SharedSecret :: bytes
  ep_VerifyToken :: bytes

record LoginProperty =
  lp_Name :: string
  lp_Value :: string
  lp_Signature :: string

subsection \<open>Byte arrays and strings\<close>

definition appendByteArray :: "bytes \<Rightarrow> bytes \<Rightarrow> bytes" where
  "appendByteArray dst value = AppendVarInt dst (of_nat (length value)) @ value"

definition consumeByteArray :: "bytes \<Rightarrow> int \<Rightarrow> (bytes \<times> nat) res" where
  "consumeByteArray data limit =
     rbind (or_fail (ConsumeVarInt data) ErrLoginMalformed) (\<lambda>(len, used).
       if sint len < 0 \<or> sint len > limit then Fail ErrLoginMalformed
       else
         let end = used + nat (sint len) in
         if end > length data then Fail ErrLoginMalformed
         else rbind (subslice data used end) (\<lambda>value. Ok (value, end)))"

definition login_readString :: "bytes \<Rightarrow> int \<Rightarrow> (string \<times> nat) res" where
  "login_readString data maxChars =
     rbind (or_fail (ConsumeVarInt data) ErrLoginMalformed) (\<lambda>(len, used).
       if sint len < 0 \<or> sint len > maxChars * 3 then Fail ErrLoginMalformed
       else
         let start = used; end = start + nat (sint len) in
         if end > length data then Fail ErrLoginMalformed
         else
           rbind (subslice data start end) (\<lambda>value.
             if \<not> utf8_Valid value \<or> int (utf8_RuneCount value) > maxChars then Fail ErrLoginMalformed
             else Ok (string_of value, end)))"

subsection \<open>Encryption\<close>

definition EncryptionRequestPayload :: "string \<Rightarrow> bytes \<Rightarrow> bytes \<Rightarrow> bool \<Rightarrow> bytes" where
  "EncryptionRequestPayload serverID publicKey verifyToken shouldAuthenticate =
     (let payload = AppendVarInt [] ClientboundEncryptionRequestID;
          payload = AppendString payload serverID;
          payload = appendByteArray payload publicKey;
          payload = appendByteArray payload verifyToken
      in if shouldAuthenticate then payload @ [1] else payload @ [0])"

definition ParseEncryptionRequest :: "bytes \<Rightarrow> EncryptionRequest res" where
  "ParseEncryptionRequest payload =
     rbind (or_fail (PacketID payload) ErrLoginMalformed) (\<lambda>(id, body).
     if id \<noteq> ClientboundEncryptionRequestID then Fail ErrLoginMalformed
     else
     rbind (or_fail (login_readString body 20) ErrLoginMalformed) (\<lambda>(serverID, used).
     rbind (slice_from body used) (\<lambda>body.
     rbind (consumeByteArray body maxEncryptionFieldSize) (\<lambda>(publicKey, used).
     rbind (slice_from body used) (\<lambda>body.
     rbind (consumeByteArray body maxEncryptionFieldSize) (\<lambda>(verifyToken, used).
     rbind (slice_from body used) (\<lambda>body.
     if length body \<noteq> 1 then Fail ErrLoginMalformed
     else
     rbind (index body 0) (\<lambda>flag.
     if flag > 1 then Fail ErrLoginMalformed
     else Ok \<lparr>er_ServerID = serverID, er_PublicKey = publicKey, er_VerifyToken = verifyToken,
              er_ShouldAuthenticate = (flag = 1)\<rparr>))))))))"

definition EncryptionResponsePayload :: "bytes \<Rightarrow> bytes \<Rightarrow> bytes" where
  "EncryptionResponsePayload sharedSecret verifyToken =
     (let payload = AppendVarInt [] ServerboundEncryptionResponseID;
          payload = appendByteArray payload sharedSecret
      in appendByteArray payload verifyToken)"

definition ParseEncryptionResponse :: "bytes \<Rightarrow> EncryptionResponse res" where
  "ParseEncryptionResponse payload =
     rbind (or_fail (PacketID payload) ErrLoginMalformed) (\<lambda>(id, body).
     if id \<noteq> ServerboundEncryptionResponseID then Fail ErrLoginMalformed
     else
     rbind (consumeByteArray body maxEncryptionFieldSize) (\<lambda>(sharedSecret, used).
     rbind (slice_from body used) (\<lambda>body.
     rbind (or_fail (consumeByteArray body maxEncryptionFieldSize) ErrLoginMalformed) (\<lambda>(verifyToken, used).
     if used \<noteq> length body then Fail ErrLoginMalformed
     else Ok \<lparr>ep_SharedSecret = sharedSecret, ep_VerifyToken = verifyToken\<rparr>))))"

subsection \<open>Plugin messages\<close>

definition ParsePluginRequest :: "bytes \<Rightarrow> PluginRequest res" where
  "ParsePluginRequest payload =
     rbind (or_fail (PacketID payload) ErrLoginMalformed) (\<lambda>(id, body).
     if id \<noteq> ClientboundPluginRequestID then Fail ErrLoginMalformed
     else
     rbind (or_fail (ConsumeVarInt body) ErrLoginMalformed) (\<lambda>(messageID, used).
     if sint messageID < 0 then Fail ErrLoginMalformed
     else
     rbind (slice_from body used) (\<lambda>body.
     rbind (or_fail (ConsumeString body 32767) ErrLoginMalformed) (\<lambda>(channel, used).
     rbind (slice_from body used) (\<lambda>data.
     Ok \<lparr>pr_MessageID = messageID, pr_Channel = channel, pr_Data = data\<rparr>)))))"

text \<open>A nil slice and an empty one differ here.\<close>

definition PluginResponsePayload :: "int32 \<Rightarrow> bytes option \<Rightarrow> bytes" where
  "PluginResponsePayload messageID data =
     (let payload = AppendVarInt [] ServerboundPluginResponseID;
          payload = AppendVarInt payload messageID
      in case data of
           None \<Rightarrow> payload @ [0]
         | Some d \<Rightarrow> payload @ [1] @ d)"

subsection \<open>Login start, acknowledgement, disconnect\<close>

definition StartPayload :: "string \<Rightarrow> bytes \<Rightarrow> bytes" where
  "StartPayload username uid =
     (let payload = AppendVarInt [] ServerboundLoginStartID;
          payload = AppendString payload username
      in payload @ uid)"

definition username_byte :: "byte \<Rightarrow> bool" where
  "username_byte char \<longleftrightarrow>
     \<not> ((char < 65 \<or> char > 90) \<and> (char < 97 \<or> char > 122) \<and> (char < 48 \<or> char > 57) \<and> char \<noteq> 95)"

definition validUsername :: "string \<Rightarrow> bool" where
  "validUsername username =
     (if length username = 0 \<or> length username > 16 then False
      else list_all username_byte (bytes_of username))"

definition ParseStart :: "bytes \<Rightarrow> LoginStart res" where
  "ParseStart payload =
     rbind (or_fail (PacketID payload) ErrLoginMalformed) (\<lambda>(id, body).
     if id \<noteq> ServerboundLoginStartID then Fail ErrLoginMalformed
     else
     rbind (or_fail (login_readString body 16) ErrLoginMalformed) (\<lambda>(username, used).
     if length body \<noteq> used + 16 then Fail ErrLoginMalformed
     else if \<not> validUsername username then Fail ErrLoginMalformed
     else
     rbind (slice_from body used) (\<lambda>uid.
     Ok \<lparr>ls_Username = username, ls_UUID = uid\<rparr>)))"

definition ParseAcknowledged :: "bytes \<Rightarrow> unit res" where
  "ParseAcknowledged payload =
     rbind (or_fail (PacketID payload) ErrLoginMalformed) (\<lambda>(id, body).
     if id \<noteq> ServerboundLoginAckID \<or> length body \<noteq> 0 then Fail ErrLoginMalformed else Ok ())"

text \<open>
  \<open>json_text message\<close> is the \<open>text\<close> field \<open>json.Unmarshal\<close> finds, \<open>None\<close> when it reports an error.
\<close>

definition ParseDisconnectReason :: "(string \<Rightarrow> string option) \<Rightarrow> bytes \<Rightarrow> string res" where
  "ParseDisconnectReason json_text payload =
     (case PacketID payload of
        Panic \<Rightarrow> Panic
      | Fail _ \<Rightarrow> Ok ''''
      | Ok (packet_id, body) \<Rightarrow>
          if packet_id \<noteq> 0x00 then Ok ''''
          else
            (case ConsumeString body 32767 of
               Panic \<Rightarrow> Panic
             | Fail _ \<Rightarrow> Ok ''''
             | Ok (message, used) \<Rightarrow>
                 if used \<noteq> length body then Ok ''''
                 else
                   (case json_text message of
                      Some text \<Rightarrow> if text \<noteq> '''' then Ok text else Ok message
                    | None \<Rightarrow> Ok message)))"

subsection \<open>Login success\<close>

fun appendProperties :: "bytes \<Rightarrow> LoginProperty list \<Rightarrow> bytes" where
  "appendProperties payload [] = payload"
| "appendProperties payload (property # properties) =
     (let payload = AppendString payload (lp_Name property);
          payload = AppendString payload (lp_Value property)
      in if lp_Signature property = '''' then appendProperties (payload @ [0]) properties
         else appendProperties (AppendString (payload @ [1]) (lp_Signature property)) properties)"

definition SuccessProfilePayload :: "bytes \<Rightarrow> string \<Rightarrow> LoginProperty list \<Rightarrow> bytes" where
  "SuccessProfilePayload uid username properties =
     (let payload = AppendVarInt [] ClientboundLoginSuccessID;
          payload = payload @ uid;
          payload = AppendString payload username;
          payload = AppendVarInt payload (of_nat (length properties))
      in appendProperties payload properties)"

definition OfflineUUID :: "(bytes \<Rightarrow> bytes) \<Rightarrow> string \<Rightarrow> bytes" where
  "OfflineUUID md5_Sum username =
     (let digest = md5_Sum (bytes_of (''OfflinePlayer:'' @ username));
          digest = digest[6 := (digest ! 6 AND 0x0f) OR 0x30]
      in digest[8 := (digest ! 8 AND 0x3f) OR 0x80])"

definition SuccessPayload :: "(bytes \<Rightarrow> bytes) \<Rightarrow> string \<Rightarrow> bytes" where
  "SuccessPayload md5_Sum username = SuccessProfilePayload (OfflineUUID md5_Sum username) username []"

definition ReadUUID :: "bytes \<Rightarrow> (bytes \<times> string) res" where
  "ReadUUID payload =
     rbind (or_fail (PacketID payload) ErrLoginMalformed) (\<lambda>(id, body).
     if id \<noteq> ClientboundLoginSuccessID \<or> length body < 16 then Fail ErrLoginMalformed
     else
     rbind (subslice body 0 16) (\<lambda>uid.
     rbind (slice_from body 16) (\<lambda>rest.
     rbind (or_fail (login_readString rest 16) ErrLoginMalformed) (\<lambda>(username, used).
     rbind (slice_from body (16 + used)) (\<lambda>tail.
     if length tail = 0 then Fail ErrLoginMalformed
     else
     rbind (or_fail (ConsumeVarInt tail) ErrLoginMalformed) (\<lambda>(properties, usedProperties).
     if properties \<noteq> 0 \<or> usedProperties \<noteq> length tail then Fail ErrLoginMalformed
     else Ok (uid, username)))))))"

definition ReadPort :: "bytes \<Rightarrow> uint16 res" where
  "ReadPort data = Uint16 data"

section \<open>Facts\<close>

definition bytearray :: "bytes \<Rightarrow> bytes" where
  "bytearray value = varint (of_nat (length value)) @ value"

definition bytearray_fits :: "int \<Rightarrow> bytes \<Rightarrow> bool" where
  "bytearray_fits limit value \<longleftrightarrow> int (length value) \<le> limit \<and> length value < 2 ^ 31"

lemma appendByteArray_eq [simp]: "appendByteArray dst value = dst @ bytearray value"
  by (simp add: appendByteArray_def bytearray_def)

lemma consumeByteArray_bytearray [simp]:
  "bytearray_fits limit v \<Longrightarrow> consumeByteArray (bytearray v @ rest) limit = Ok (v, length (bytearray v))"
  by (simp add: consumeByteArray_def bytearray_def bytearray_fits_def Let_def)

lemma consumeByteArray_bytearray_only [simp]:
  "bytearray_fits limit v \<Longrightarrow> consumeByteArray (bytearray v) limit = Ok (v, length (bytearray v))"
  using consumeByteArray_bytearray [of limit v "[]"] by simp

lemma consumeByteArray_no_panic [simp, no_panic]: "consumeByteArray data limit \<noteq> Panic"
  by (auto simp: consumeByteArray_def res_iff Let_def subslice_def split: if_splits)

lemma consumeByteArray_Ok:
  assumes "consumeByteArray data limit = Ok (v, n)"
  shows "0 < n" "n \<le> length data" "int (length v) \<le> limit"
  using assms
  by (auto simp: consumeByteArray_def res_iff Let_def split: if_splits dest: ConsumeVarInt_bound)

interpretation ba: prefix_codec bytearray "\<lambda>data. consumeByteArray data limit" "bytearray_fits limit" for limit
  by unfold_locales (auto dest: consumeByteArray_Ok)

lemma login_readString_eq:
  "login_readString data m = or_fail (ConsumeString data m) ErrLoginMalformed"
  unfolding login_readString_def ConsumeString_def
  by (cases "ConsumeVarInt data") (auto simp: Let_def subslice_def)

lemma username_byte_ascii: "username_byte b \<Longrightarrow> b < 0x80"
  by (auto simp: username_byte_def word_less_nat_alt word_le_nat_alt)

lemma validUsername_fits:
  assumes "validUsername u"
  shows "string_fits 16 u"
proof -
  have "\<forall>b \<in> set (bytes_of u). b < 0x80"
    using assms by (auto simp: validUsername_def list_all_iff intro: username_byte_ascii split: if_splits)
  then show ?thesis
    using assms utf8_ascii [of "bytes_of u"] by (simp add: string_fits_def validUsername_def split: if_splits)
qed

lemma ParseStart_roundtrip:
  "validUsername u \<Longrightarrow> length uid = 16 \<Longrightarrow>
   ParseStart (StartPayload u uid) = Ok \<lparr>ls_Username = u, ls_UUID = uid\<rparr>"
  by (simp add: ParseStart_def StartPayload_def login_readString_eq validUsername_fits)

lemma ParseStart_Ok:
  "ParseStart payload = Ok s \<Longrightarrow> validUsername (ls_Username s) \<and> length (ls_UUID s) = 16"
  by (auto simp: ParseStart_def res_iff split: if_splits)

lemma ParseEncryptionRequest_roundtrip:
  assumes "string_fits 20 sid" "bytearray_fits maxEncryptionFieldSize key" "bytearray_fits maxEncryptionFieldSize token"
  shows "ParseEncryptionRequest (EncryptionRequestPayload sid key token flag) =
    Ok \<lparr>er_ServerID = sid, er_PublicKey = key, er_VerifyToken = token, er_ShouldAuthenticate = flag\<rparr>"
  using assms
  by (cases flag) (simp_all add: ParseEncryptionRequest_def EncryptionRequestPayload_def login_readString_eq Let_def)

lemma ParseEncryptionResponse_roundtrip:
  assumes "bytearray_fits maxEncryptionFieldSize secret" "bytearray_fits maxEncryptionFieldSize token"
  shows "ParseEncryptionResponse (EncryptionResponsePayload secret token) =
    Ok \<lparr>ep_SharedSecret = secret, ep_VerifyToken = token\<rparr>"
  using assms by (simp add: ParseEncryptionResponse_def EncryptionResponsePayload_def)

lemma ParseEncryptionResponse_Ok:
  assumes "ParseEncryptionResponse payload = Ok r"
  shows "length (ep_SharedSecret r) \<le> 1024" "length (ep_VerifyToken r) \<le> 1024"
  using assms
  by (auto simp: ParseEncryptionResponse_def res_iff maxEncryptionFieldSize_def split: if_splits
      dest: consumeByteArray_Ok(3))

lemma login_no_panic [simp, no_panic]:
  "ParseEncryptionRequest payload \<noteq> Panic"
  "ParseEncryptionResponse payload \<noteq> Panic"
  "ParsePluginRequest payload \<noteq> Panic"
  "ParseStart payload \<noteq> Panic"
  "ParseAcknowledged payload \<noteq> Panic"
  "ParseDisconnectReason json_text payload \<noteq> Panic"
  "ReadUUID payload \<noteq> Panic"
  by (auto simp: ParseEncryptionRequest_def ParseEncryptionResponse_def ParsePluginRequest_def
      ParseStart_def ParseAcknowledged_def ParseDisconnectReason_def ReadUUID_def
      login_readString_eq res_iff slice_from_def subslice_def index_def
      split: if_splits res.splits option.splits
      dest: ConsumeVarInt_bound ConsumeString_Ok(2) consumeByteArray_Ok(2))

fun property_bytes :: "LoginProperty list \<Rightarrow> bytes" where
  "property_bytes [] = []"
| "property_bytes (p # ps) = mcstring (lp_Name p) @ mcstring (lp_Value p) @
     (if lp_Signature p = '''' then [0] else [1] @ mcstring (lp_Signature p)) @ property_bytes ps"

lemma appendProperties_eq [simp]: "appendProperties payload ps = payload @ property_bytes ps"
  by (induction ps arbitrary: payload) (simp_all add: Let_def)

lemma SuccessProfilePayload_eq:
  "SuccessProfilePayload uid username ps =
     varint ClientboundLoginSuccessID @ uid @ mcstring username @ varint (of_nat (length ps)) @ property_bytes ps"
  by (simp add: SuccessProfilePayload_def)

lemma ReadUUID_SuccessProfilePayload:
  assumes "length uid = 16" "string_fits 16 username" "length ps < 2 ^ 31"
  shows "ReadUUID (SuccessProfilePayload uid username ps) =
    (if ps = [] then Ok (uid, username) else Fail ErrLoginMalformed)"
proof -
  have z: "(of_nat (length ps) :: int32) = 0 \<longleftrightarrow> ps = []"
    using assms(3) of_nat_eq_0_int32 [of "length ps"] by simp
  have s: "slice_from (uid @ mcstring username @ t) (16 + length (mcstring username)) = Ok t" for t
    using assms(1) slice_from_append [of _ "uid @ mcstring username" t] by simp
  show ?thesis
    using assms z
    by (auto simp: ReadUUID_def SuccessProfilePayload_eq login_readString_eq s simp del: slice_from_Ok)
qed

lemma OfflineUUID_version:
  assumes "length (md5_Sum (bytes_of (''OfflinePlayer:'' @ username))) = 16"
  shows "length (OfflineUUID md5_Sum username) = 16"
    "drop_bit 4 (OfflineUUID md5_Sum username ! 6) = 3"
    "drop_bit 6 (OfflineUUID md5_Sum username ! 8) = 2"
  using assms by (simp_all add: OfflineUUID_def Let_def drop_bit_or drop_bit_and)

end
