(* ===== verification/Status.thy ===== *)
theory Status
  imports Frame
begin

text \<open>
  The server list packets of \<open>internal/protocol/status/status.go\<close>. The JSON encoder is a
  parameter.
\<close>

section \<open>Definitions\<close>

record StatusVersion =
  sv_Name :: string
  sv_Protocol :: int

record StatusPlayers =
  sp_Max :: int
  sp_Online :: int

record StatusDescription =
  sd_Text :: string

record StatusResponse =
  sr_Version :: StatusVersion
  sr_Players :: StatusPlayers
  sr_Description :: StatusDescription

definition ParseRequest :: "bytes \<Rightarrow> unit res" where
  "ParseRequest payload =
     rbind (or_fail (PacketID payload) ErrStatusMalformed) (\<lambda>(id, body).
     if id \<noteq> 0x00 \<or> length body \<noteq> 0 then Fail ErrStatusMalformed else Ok ())"

definition ParsePing :: "bytes \<Rightarrow> int64 res" where
  "ParsePing payload =
     rbind (or_fail (PacketID payload) ErrStatusMalformed) (\<lambda>(id, body).
     if id \<noteq> 0x01 \<or> length body \<noteq> 8 then Fail ErrStatusMalformed else Uint64 body)"

definition ResponsePayload :: "(StatusResponse \<Rightarrow> string res) \<Rightarrow> StatusResponse \<Rightarrow> bytes res" where
  "ResponsePayload json_Marshal response =
     rbind (json_Marshal response) (\<lambda>data.
     let payload = AppendVarInt [] 0x00 in Ok (AppendString payload data))"

definition PongPayload :: "int64 \<Rightarrow> bytes" where
  "PongPayload value = (let payload = AppendVarInt [] 0x01 in payload @ PutUint64 value)"

section \<open>Facts\<close>

lemma ParsePing_PongPayload: "ParsePing (PongPayload v) = Ok v"
  by (simp add: ParsePing_def PongPayload_def)

text \<open>The pong carries exactly the bytes of the ping.\<close>

lemma pong_echoes_ping:
  assumes "ParsePing payload = Ok v"
  shows "\<exists>body. PacketID payload = Ok (1, body) \<and> PongPayload v = varint 1 @ body"
  using assms by (auto simp: ParsePing_def PongPayload_def res_iff PutUint64_be_word split: if_splits)

lemma status_no_panic [simp, no_panic]: "ParseRequest payload \<noteq> Panic" "ParsePing payload \<noteq> Panic"
  by (auto simp: ParseRequest_def ParsePing_def res_iff split: if_splits)

end
