(* ===== verification/Configuration.thy ===== *)
theory Configuration
  imports Frame
begin

text \<open>The client's configuration packets, \<open>internal/protocol/configuration/configuration.go\<close>.\<close>

section \<open>Definitions\<close>

definition cfg_ClientboundPluginMessageID :: int32 where "cfg_ClientboundPluginMessageID = 0x00"
definition cfg_ClientboundDisconnectID :: int32 where "cfg_ClientboundDisconnectID = 0x01"
definition ClientboundFinishConfigurationID :: int32 where "ClientboundFinishConfigurationID = 0x02"
definition ServerboundClientInformationID :: int32 where "ServerboundClientInformationID = 0x00"
definition ServerboundPluginMessageID :: int32 where "ServerboundPluginMessageID = 0x01"
definition ServerboundFinishConfigurationID :: int32 where "ServerboundFinishConfigurationID = 0x02"
definition cfg_ClientboundKeepAliveID :: int32 where "cfg_ClientboundKeepAliveID = 0x03"
definition cfg_ServerboundKeepAliveID :: int32 where "cfg_ServerboundKeepAliveID = 0x03"
definition ClientboundPingID :: int32 where "ClientboundPingID = 0x04"
definition ServerboundPongID :: int32 where "ServerboundPongID = 0x04"

lemmas configuration_ids = cfg_ClientboundPluginMessageID_def cfg_ClientboundDisconnectID_def
  ClientboundFinishConfigurationID_def ServerboundClientInformationID_def
  ServerboundPluginMessageID_def ServerboundFinishConfigurationID_def
  cfg_ClientboundKeepAliveID_def cfg_ServerboundKeepAliveID_def ClientboundPingID_def ServerboundPongID_def

record ClientInformation =
  ci_Locale :: string
  ci_ViewDistance :: "8 word"
  ci_ChatMode :: int32
  ci_ChatColors :: bool
  ci_DisplayedSkinParts :: byte
  ci_MainHand :: int32
  ci_TextFiltering :: bool
  ci_AllowServerListings :: bool

record PluginMessage =
  pm_Channel :: string
  pm_Data :: bytes

definition FinishPayload :: bytes where
  "FinishPayload = AppendVarInt [] ClientboundFinishConfigurationID"

definition FinishAcknowledgedPayload :: bytes where
  "FinishAcknowledgedPayload = AppendVarInt [] ServerboundFinishConfigurationID"

definition ParseFinishAcknowledged :: "bytes \<Rightarrow> unit res" where
  "ParseFinishAcknowledged payload =
     rbind (or_fail (PacketID payload) ErrConfigurationMalformed) (\<lambda>(id, body).
     if id \<noteq> ServerboundFinishConfigurationID \<or> length body \<noteq> 0 then Fail ErrConfigurationMalformed
     else Ok ())"

definition parseBool :: "byte \<Rightarrow> bool res" where
  "parseBool value = (if value = 0 then Ok False else if value = 1 then Ok True
     else Fail ErrConfigurationMalformed)"

definition ParseClientInformation :: "bytes \<Rightarrow> ClientInformation res" where
  "ParseClientInformation payload =
     rbind (or_fail (PacketID payload) ErrConfigurationMalformed) (\<lambda>(id, body).
     if id \<noteq> ServerboundClientInformationID then Fail ErrConfigurationMalformed
     else
     rbind (or_fail (ConsumeString body 16) ErrConfigurationMalformed) (\<lambda>(locale, used).
     if used \<ge> length body then Fail ErrConfigurationMalformed
     else
     rbind (slice_from body used) (\<lambda>body.
     rbind (index body 0) (\<lambda>viewDistance.
     rbind (slice_from body 1) (\<lambda>body.
     rbind (or_fail (ConsumeVarInt body) ErrConfigurationMalformed) (\<lambda>(chatMode, used).
     if sint chatMode < 0 \<or> sint chatMode > 2 then Fail ErrConfigurationMalformed
     else
     rbind (slice_from body used) (\<lambda>body.
     if length body < 2 then Fail ErrConfigurationMalformed
     else
     rbind (index body 0) (\<lambda>b0.
     rbind (parseBool b0) (\<lambda>chatColors.
     rbind (index body 1) (\<lambda>skinParts.
     rbind (slice_from body 2) (\<lambda>body.
     rbind (or_fail (ConsumeVarInt body) ErrConfigurationMalformed) (\<lambda>(mainHand, used).
     if sint mainHand < 0 \<or> sint mainHand > 1 then Fail ErrConfigurationMalformed
     else
     rbind (slice_from body used) (\<lambda>body.
     if length body \<noteq> 2 then Fail ErrConfigurationMalformed
     else
     rbind (index body 0) (\<lambda>b1.
     rbind (parseBool b1) (\<lambda>textFiltering.
     rbind (index body 1) (\<lambda>b2.
     rbind (parseBool b2) (\<lambda>allowServerListings.
     Ok \<lparr>ci_Locale = locale, ci_ViewDistance = viewDistance, ci_ChatMode = chatMode,
        ci_ChatColors = chatColors, ci_DisplayedSkinParts = skinParts, ci_MainHand = mainHand,
        ci_TextFiltering = textFiltering, ci_AllowServerListings = allowServerListings\<rparr>)))))))))))))))))"

definition ParsePluginMessage :: "bytes \<Rightarrow> PluginMessage res" where
  "ParsePluginMessage payload =
     rbind (or_fail (PacketID payload) ErrConfigurationMalformed) (\<lambda>(id, body).
     if id \<noteq> ServerboundPluginMessageID then Fail ErrConfigurationMalformed
     else
     rbind (or_fail (ConsumeString body 32767) ErrConfigurationMalformed) (\<lambda>(channel, used).
     if channel = '''' then Fail ErrConfigurationMalformed
     else
     rbind (slice_from body used) (\<lambda>data.
     Ok \<lparr>pm_Channel = channel, pm_Data = data\<rparr>)))"

definition ParseClientSetup :: "bytes \<Rightarrow> unit res" where
  "ParseClientSetup payload =
     rbind (or_fail (PacketID payload) ErrConfigurationMalformed) (\<lambda>(id, _).
     if id = ServerboundClientInformationID then rbind (ParseClientInformation payload) (\<lambda>_. Ok ())
     else if id = ServerboundPluginMessageID then rbind (ParsePluginMessage payload) (\<lambda>_. Ok ())
     else Fail ErrConfigurationMalformed)"

section \<open>Facts\<close>

lemma parseBool_no_panic [simp, no_panic]: "parseBool b \<noteq> Panic"
  by (simp add: parseBool_def)

lemma parseBool_of_bool [simp]: "parseBool (of_bool b) = Ok b"
  by (simp add: parseBool_def)

lemma finish_roundtrip: "ParseFinishAcknowledged FinishAcknowledgedPayload = Ok ()"
  by (simp add: ParseFinishAcknowledged_def FinishAcknowledgedPayload_def)

text \<open>The layout of the packet, as a client sends it.\<close>

definition client_information_packet :: "ClientInformation \<Rightarrow> bytes" where
  "client_information_packet ci =
     varint ServerboundClientInformationID @ mcstring (ci_Locale ci) @ [ci_ViewDistance ci] @
     varint (ci_ChatMode ci) @ [of_bool (ci_ChatColors ci), ci_DisplayedSkinParts ci] @
     varint (ci_MainHand ci) @ [of_bool (ci_TextFiltering ci), of_bool (ci_AllowServerListings ci)]"

lemma ParseClientInformation_complete:
  assumes "string_fits 16 (ci_Locale ci)" "0 \<le> sint (ci_ChatMode ci)" "sint (ci_ChatMode ci) \<le> 2"
    "0 \<le> sint (ci_MainHand ci)" "sint (ci_MainHand ci) \<le> 1"
  shows "ParseClientInformation (client_information_packet ci) = Ok ci"
  using assms by (simp add: ParseClientInformation_def client_information_packet_def)

lemma ParseClientInformation_Ok:
  assumes "ParseClientInformation payload = Ok ci"
  shows "0 \<le> sint (ci_ChatMode ci) \<and> sint (ci_ChatMode ci) \<le> 2"
    "0 \<le> sint (ci_MainHand ci) \<and> sint (ci_MainHand ci) \<le> 1"
    "utf8_RuneCount (bytes_of (ci_Locale ci)) \<le> 16"
  using assms
  by (auto simp: ParseClientInformation_def res_iff split: if_splits dest: ConsumeString_Ok(4))

lemma ParseClientInformation_no_panic [simp, no_panic]: "ParseClientInformation payload \<noteq> Panic"
  by (auto simp: ParseClientInformation_def res_iff slice_from_def index_def
      split: if_splits dest: ConsumeVarInt_bound)

lemma configuration_no_panic [simp, no_panic]:
  "ParseFinishAcknowledged payload \<noteq> Panic"
  "ParsePluginMessage payload \<noteq> Panic"
  "ParseClientSetup payload \<noteq> Panic"
proof -
  show p: "ParsePluginMessage payload \<noteq> Panic"
    by (auto simp: ParsePluginMessage_def res_iff slice_from_def split: if_splits dest: ConsumeString_Ok(2))
  show "ParseFinishAcknowledged payload \<noteq> Panic" "ParseClientSetup payload \<noteq> Panic"
    using p by (auto simp: ParseFinishAcknowledged_def ParseClientSetup_def res_iff split: if_splits)
qed

end
