(* ===== verification/Nbt.thy ===== *)
theory Nbt
  imports Frame
begin

text \<open>
  The NBT builder of \<open>internal/protocol/configuration/nbt.go\<close>, and, as its specification,
  the NBT documents themselves with a reference encoder and a reference decoder. A
  compound keeps its fields already encoded; the refinement relates it to the document it
  stands for. Floating-point values are their IEEE 754 bit patterns.
\<close>

type_synonym float32 = "32 word"
type_synonym float64 = "64 word"

section \<open>Definitions\<close>

definition nbtEnd :: byte where "nbtEnd = 0"
definition nbtByte :: byte where "nbtByte = 1"
definition nbtString :: byte where "nbtString = 8"
definition nbtList :: byte where "nbtList = 9"
definition nbtCompound :: byte where "nbtCompound = 10"
definition nbtInt :: byte where "nbtInt = 3"
definition nbtLong :: byte where "nbtLong = 4"
definition nbtFloat :: byte where "nbtFloat = 5"
definition nbtDouble :: byte where "nbtDouble = 6"

lemmas nbt_kinds = nbtEnd_def nbtByte_def nbtString_def nbtList_def nbtCompound_def nbtInt_def
  nbtLong_def nbtFloat_def nbtDouble_def

record nbtField =
  nf_name :: string
  nf_data :: bytes

record Compound =
  nbt_fields :: "nbtField list"

definition NewCompound :: Compound where
  "NewCompound = \<lparr>nbt_fields = []\<rparr>"

text \<open>The tag kind is stored in the first byte of the field's data.\<close>

definition nbt_add :: "Compound \<Rightarrow> byte \<Rightarrow> string \<Rightarrow> bytes \<Rightarrow> Compound" where
  "nbt_add c kind name data = c\<lparr>nbt_fields := nbt_fields c @ [\<lparr>nf_name = name, nf_data = [kind] @ data\<rparr>]\<rparr>"

definition appendStringPayload :: "string \<Rightarrow> bytes" where
  "appendStringPayload value = PutUint16 (of_nat (length value)) @ bytes_of value"

definition field_bytes :: "nbtField \<Rightarrow> bytes" where
  "field_bytes field =
     [nf_data field ! 0] @ appendStringPayload (nf_name field) @ drop 1 (nf_data field)"

definition encodePayload :: "Compound \<Rightarrow> bytes" where
  "encodePayload c = concat (map field_bytes (nbt_fields c)) @ [nbtEnd]"

definition nbt_Byte :: "Compound \<Rightarrow> string \<Rightarrow> byte \<Rightarrow> Compound" where
  "nbt_Byte c name value = nbt_add c nbtByte name [value]"

definition nbt_Int :: "Compound \<Rightarrow> string \<Rightarrow> int32 \<Rightarrow> Compound" where
  "nbt_Int c name value = nbt_add c nbtInt name (PutUint32 value)"

definition nbt_Long :: "Compound \<Rightarrow> string \<Rightarrow> int64 \<Rightarrow> Compound" where
  "nbt_Long c name value = nbt_add c nbtLong name (PutUint64 value)"

definition nbt_Float :: "Compound \<Rightarrow> string \<Rightarrow> float32 \<Rightarrow> Compound" where
  "nbt_Float c name value = nbt_add c nbtFloat name (PutUint32 value)"

definition nbt_Double :: "Compound \<Rightarrow> string \<Rightarrow> float64 \<Rightarrow> Compound" where
  "nbt_Double c name value = nbt_add c nbtDouble name (PutUint64 value)"

definition nbt_String :: "Compound \<Rightarrow> string \<Rightarrow> string \<Rightarrow> Compound" where
  "nbt_String c name value = nbt_add c nbtString name (appendStringPayload value)"

definition nbt_Compound :: "Compound \<Rightarrow> string \<Rightarrow> Compound \<Rightarrow> Compound" where
  "nbt_Compound c name value = nbt_add c nbtCompound name (encodePayload value)"

definition nbt_ListOfCompounds :: "Compound \<Rightarrow> string \<Rightarrow> Compound list \<Rightarrow> Compound" where
  "nbt_ListOfCompounds c name values =
     nbt_add c nbtList name
       ([nbtCompound] @ PutUint32 (of_nat (length values)) @ concat (map encodePayload values))"

definition nbt_ListOfStrings :: "Compound \<Rightarrow> string \<Rightarrow> string list \<Rightarrow> Compound" where
  "nbt_ListOfStrings c name values =
     nbt_add c nbtList name
       ([nbtString] @ PutUint32 (of_nat (length values)) @ concat (map appendStringPayload values))"

definition nbt_Encode :: "Compound \<Rightarrow> int \<Rightarrow> bytes res" where
  "nbt_Encode c maxSize =
     (let data = [nbtCompound] @ encodePayload c
      in if int (length data) > maxSize then Fail ErrNBTTooLarge else Ok data)"

definition RegistryDataPayload :: "Compound \<Rightarrow> bytes res" where
  "RegistryDataPayload registry =
     rbind (nbt_Encode registry (2 * 2 ^ 20)) (\<lambda>nbt.
     let payload = AppendVarInt [] 0x05 in Ok (payload @ nbt))"

section \<open>Documents\<close>

datatype nbt =
    TByte byte | TInt int32 | TLong int64 | TFloat float32 | TDouble float64 | TString string
  | TStrings "string list"
  | TCompounds "(string \<times> nbt) list list"
  | TCompound "(string \<times> nbt) list"

fun kind_of :: "nbt \<Rightarrow> byte" where
  "kind_of (TByte _) = 1"
| "kind_of (TInt _) = 3"
| "kind_of (TLong _) = 4"
| "kind_of (TFloat _) = 5"
| "kind_of (TDouble _) = 6"
| "kind_of (TString _) = 8"
| "kind_of (TStrings _) = 9"
| "kind_of (TCompounds _) = 9"
| "kind_of (TCompound _) = 10"

fun enc_value :: "nbt \<Rightarrow> bytes"
  and enc_doc :: "(string \<times> nbt) list \<Rightarrow> bytes"
  and enc_docs :: "(string \<times> nbt) list list \<Rightarrow> bytes" where
  "enc_value (TByte v) = [v]"
| "enc_value (TInt v) = PutUint32 v"
| "enc_value (TLong v) = PutUint64 v"
| "enc_value (TFloat v) = PutUint32 v"
| "enc_value (TDouble v) = PutUint64 v"
| "enc_value (TString s) = PutUint16 (of_nat (length s)) @ bytes_of s"
| "enc_value (TStrings ss) = 8 # PutUint32 (of_nat (length ss)) @
     concat (map (\<lambda>s. PutUint16 (of_nat (length s)) @ bytes_of s) ss)"
| "enc_value (TCompounds ds) = 10 # PutUint32 (of_nat (length ds)) @ enc_docs ds"
| "enc_value (TCompound d) = enc_doc d"
| "enc_doc [] = [0]"
| "enc_doc ((name, t) # d) =
     kind_of t # (PutUint16 (of_nat (length name)) @ bytes_of name) @ enc_value t @ enc_doc d"
| "enc_docs [] = []"
| "enc_docs (d # ds) = enc_doc d @ enc_docs ds"

text \<open>Strings below 64 KiB and lists below \<open>2 ^ 31\<close> entries.\<close>

fun wf_value :: "nbt \<Rightarrow> bool" where
  "wf_value (TString s) = (length s < 2 ^ 16)"
| "wf_value (TStrings ss) = (length ss < 2 ^ 31 \<and> list_all (\<lambda>s. length s < 2 ^ 16) ss)"
| "wf_value (TCompounds ds) =
     (length ds < 2 ^ 31 \<and> list_all (list_all (\<lambda>(n, t). length n < 2 ^ 16 \<and> wf_value t)) ds)"
| "wf_value (TCompound d) = list_all (\<lambda>(n, t). length n < 2 ^ 16 \<and> wf_value t) d"
| "wf_value _ = True"

definition wf_doc :: "(string \<times> nbt) list \<Rightarrow> bool" where
  "wf_doc d \<longleftrightarrow> list_all (\<lambda>(n, t). length n < 2 ^ 16 \<and> wf_value t) d"

section \<open>The reference decoder\<close>

text \<open>Every tag consumes at least one byte, so the length of the input is fuel enough.\<close>

fun dec_many :: "(bytes \<Rightarrow> ('a \<times> bytes) option) \<Rightarrow> nat \<Rightarrow> bytes \<Rightarrow> ('a list \<times> bytes) option" where
  "dec_many dec 0 bs = Some ([], bs)"
| "dec_many dec (Suc n) bs =
     (case dec bs of None \<Rightarrow> None
      | Some (x, r) \<Rightarrow> (case dec_many dec n r of None \<Rightarrow> None | Some (xs, r') \<Rightarrow> Some (x # xs, r')))"

definition dec_uint :: "nat \<Rightarrow> bytes \<Rightarrow> ('a::len word \<times> bytes) option" where
  "dec_uint k bs = (if length bs < k then None else Some (be_word (take k bs), drop k bs))"

definition dec_string :: "bytes \<Rightarrow> (string \<times> bytes) option" where
  "dec_string bs = (case dec_uint 2 bs of None \<Rightarrow> None
     | Some (n :: uint16, r) \<Rightarrow>
         if length r < unat n then None else Some (string_of (take (unat n) r), drop (unat n) r))"

function dec_value :: "nat \<Rightarrow> byte \<Rightarrow> bytes \<Rightarrow> (nbt \<times> bytes) option"
  and dec_doc :: "nat \<Rightarrow> bytes \<Rightarrow> ((string \<times> nbt) list \<times> bytes) option" where
  "dec_value fuel kind bs =
     (if kind = 1 then map_option (apfst TByte) (dec_uint 1 bs)
      else if kind = 3 then map_option (apfst TInt) (dec_uint 4 bs)
      else if kind = 4 then map_option (apfst TLong) (dec_uint 8 bs)
      else if kind = 5 then map_option (apfst TFloat) (dec_uint 4 bs)
      else if kind = 6 then map_option (apfst TDouble) (dec_uint 8 bs)
      else if kind = 8 then map_option (apfst TString) (dec_string bs)
      else if kind = 9 then
        (case bs of [] \<Rightarrow> None
         | element # r \<Rightarrow>
           (case dec_uint 4 r of None \<Rightarrow> None
            | Some (n :: uint32, r') \<Rightarrow>
                if element = 8 then map_option (apfst TStrings) (dec_many dec_string (unat n) r')
                else if element = 10 then map_option (apfst TCompounds) (dec_many (dec_doc fuel) (unat n) r')
                else None))
      else if kind = 10 then map_option (apfst TCompound) (dec_doc fuel bs)
      else None)"
| "dec_doc 0 bs = None"
| "dec_doc (Suc fuel) bs =
     (case bs of [] \<Rightarrow> None
      | kind # r \<Rightarrow>
          if kind = 0 then Some ([], r)
          else
            (case dec_string r of None \<Rightarrow> None
             | Some (name, r1) \<Rightarrow>
               (case dec_value fuel kind r1 of None \<Rightarrow> None
                | Some (t, r2) \<Rightarrow>
                  (case dec_doc fuel r2 of None \<Rightarrow> None
                   | Some (d, r3) \<Rightarrow> Some ((name, t) # d, r3)))))"
  by pat_completeness auto
termination
  by (relation "measure (case_sum (\<lambda>(fuel, _, _). 2 * fuel + 1) (\<lambda>(fuel, _). 2 * fuel))") auto

declare dec_value.simps [simp del] dec_doc.simps [simp del]

section \<open>Decoding inverts the reference encoding\<close>

lemma dec_many_append:
  assumes "\<And>x rest. x \<in> set xs \<Longrightarrow> dec (enc x @ rest) = Some (x, rest)"
  shows "dec_many dec (length xs) (concat (map enc xs) @ rest) = Some (xs, rest)"
  using assms by (induction xs) auto

lemma dec_uint_append:
  "dec_uint 4 (PutUint32 v @ rest) = Some (v, rest)"
  "dec_uint 8 (PutUint64 w @ rest) = Some (w, rest)"
  "dec_uint 2 (PutUint16 u @ rest) = Some (u, rest)"
  by (simp_all add: dec_uint_def PutUint16_def PutUint32_def PutUint64_def be_word_be_bytes
      take_bit_full [where 'a = 32, simplified] take_bit_full [where 'a = 64, simplified]
      take_bit_full [where 'a = 16, simplified])

lemma dec_uint_byte: "dec_uint (Suc 0) (b # rest) = Some (b :: byte, rest)"
  by (simp add: dec_uint_def be_word_def)

lemma unat_of_nat_16: "n < 2 ^ 16 \<Longrightarrow> unat (of_nat n :: uint16) = n"
  by (simp add: unat_of_nat take_bit_nat_eq_self)

lemma unat_of_nat_32: "n < 2 ^ 31 \<Longrightarrow> unat (of_nat n :: uint32) = n"
  by (simp add: unat_of_nat take_bit_nat_eq_self)

lemma dec_string_append:
  "length s < 2 ^ 16 \<Longrightarrow>
     dec_string (PutUint16 (of_nat (length s)) @ bytes_of s @ rest) = Some (s, rest)"
  by (simp add: dec_string_def dec_uint_append unat_of_nat_16)

lemma enc_docs_concat: "enc_docs ds = concat (map enc_doc ds)"
  by (induction ds) auto

lemma kind_of_neq_0: "kind_of t \<noteq> 0"
  by (cases t) auto

lemma length_concat_member: "d \<in> set ds \<Longrightarrow> length (enc_doc d) \<le> length (enc_docs ds)"
  by (induction ds) auto

lemma dec_enc_nbt:
  "wf_value t \<Longrightarrow> length (enc_value t) \<le> fuel \<Longrightarrow>
     dec_value fuel (kind_of t) (enc_value t @ rest) = Some (t, rest)"
  "wf_doc d \<Longrightarrow> length (enc_doc d) \<le> fuel \<Longrightarrow> dec_doc fuel (enc_doc d @ rest) = Some (d, rest)"
  "list_all wf_doc ds \<Longrightarrow> length (enc_docs ds) \<le> fuel \<Longrightarrow>
     dec_many (dec_doc fuel) (length ds) (enc_docs ds @ rest) = Some (ds, rest)"
proof (induction t and d and ds arbitrary: fuel rest and fuel rest and fuel rest
    rule: enc_value_enc_doc_enc_docs.induct)
  case (7 ss)
  then show ?case
    using dec_many_append [of ss dec_string "\<lambda>s. PutUint16 (of_nat (length s)) @ bytes_of s"]
    by (auto simp: dec_value.simps dec_uint_append unat_of_nat_32 dec_string_append list_all_iff)
next
  case (8 ds)
  then show ?case
    by (simp add: dec_value.simps dec_uint_append unat_of_nat_32 wf_doc_def [abs_def])
next
  case (10)
  then show ?case by (cases fuel) (auto simp: dec_doc.simps)
next
  case (11 name t d)
  then obtain f where "fuel = Suc f" by (cases fuel) auto
  with 11 show ?case
    by (simp add: dec_doc.simps kind_of_neq_0 dec_string_append wf_doc_def)
qed (auto simp: dec_value.simps dec_uint_append dec_uint_byte dec_string_append wf_doc_def)

lemma dec_doc_enc_doc:
  "wf_doc d \<Longrightarrow> dec_doc (length (enc_doc d)) (enc_doc d @ rest) = Some (d, rest)"
  by (rule dec_enc_nbt) auto

section \<open>The builder implements the documents\<close>

text \<open>
  A compound represents a document when its fields are, in order, the encodings of the
  document's entries; every field then carries its kind byte, so reading byte 0 of a
  field's data is always in range.
\<close>

definition represents :: "Compound \<Rightarrow> (string \<times> nbt) list \<Rightarrow> bool" where
  "represents c d \<longleftrightarrow>
     nbt_fields c = map (\<lambda>(n, t). \<lparr>nf_name = n, nf_data = kind_of t # enc_value t\<rparr>) d"

lemma represents_encodePayload: "represents c d \<Longrightarrow> encodePayload c = enc_doc d"
proof -
  have "concat (map field_bytes (map (\<lambda>(n, t). \<lparr>nf_name = n, nf_data = kind_of t # enc_value t\<rparr>) d))
        @ [0] = enc_doc d"
    by (induction d) (auto simp: field_bytes_def appendStringPayload_def)
  then show "represents c d \<Longrightarrow> encodePayload c = enc_doc d"
    by (simp add: represents_def encodePayload_def nbtEnd_def)
qed

lemma represents_fields_not_empty:
  "represents c d \<Longrightarrow> f \<in> set (nbt_fields c) \<Longrightarrow> nf_data f \<noteq> []"
  by (auto simp: represents_def)

lemma represents_add:
  "represents c d \<Longrightarrow> kind = kind_of t \<Longrightarrow> data = enc_value t \<Longrightarrow>
     represents (nbt_add c kind name data) (d @ [(name, t)])"
  by (simp add: represents_def nbt_add_def)

lemma represents_list:
  "list_all2 represents cs ds \<Longrightarrow> concat (map encodePayload cs) = enc_docs ds"
  by (induction rule: list_all2_induct) (auto simp: represents_encodePayload)

lemma represents_ops:
  "represents NewCompound []"
  "represents c d \<Longrightarrow> represents (nbt_Byte c n b) (d @ [(n, TByte b)])"
  "represents c d \<Longrightarrow> represents (nbt_Int c n i) (d @ [(n, TInt i)])"
  "represents c d \<Longrightarrow> represents (nbt_Long c n l) (d @ [(n, TLong l)])"
  "represents c d \<Longrightarrow> represents (nbt_Float c n f) (d @ [(n, TFloat f)])"
  "represents c d \<Longrightarrow> represents (nbt_Double c n g) (d @ [(n, TDouble g)])"
  "represents c d \<Longrightarrow> represents (nbt_String c n s) (d @ [(n, TString s)])"
  "represents c d \<Longrightarrow> represents (nbt_ListOfStrings c n ss) (d @ [(n, TStrings ss)])"
  "represents c d \<Longrightarrow> represents e d' \<Longrightarrow> represents (nbt_Compound c n e) (d @ [(n, TCompound d')])"
  "represents c d \<Longrightarrow> list_all2 represents cs ds \<Longrightarrow>
     represents (nbt_ListOfCompounds c n cs) (d @ [(n, TCompounds ds)])"
  by (simp_all add: nbt_Byte_def nbt_Int_def nbt_Long_def nbt_Float_def nbt_Double_def nbt_String_def
      nbt_ListOfStrings_def nbt_Compound_def nbt_ListOfCompounds_def represents_add nbt_kinds
      appendStringPayload_def [abs_def] represents_encodePayload represents_list
      list_all2_lengthD)
    (simp_all add: represents_def NewCompound_def)

section \<open>The encoder\<close>

lemma nbt_Encode_cases:
  "nbt_Encode c maxSize =
     (if maxSize < 1 + int (length (encodePayload c)) then Fail ErrNBTTooLarge
      else Ok (10 # encodePayload c))"
  by (simp add: nbt_Encode_def Let_def nbtCompound_def)

end
