(* ===== verification/Registry.thy ===== *)
theory Registry
  imports Nbt
begin

text \<open>
  The registries of \<open>internal/protocol/configuration/registry.go\<close>: the dimension, biome, chat
  and damage types the Limbo world sends in the Configuration state. The floating-point
  constants are their IEEE 754 bit patterns (\<open>0.8\<close>, \<open>0.4\<close> and \<open>0.1\<close> as \<open>float32\<close>, \<open>1\<close> as
  \<open>float64\<close>). The theorem shows that the packet is below the 2 MiB limit, so that the server can always send it, and
  that a client reads from it the document \<open>registry_document\<close>, written out independently of the builder.
\<close>

section \<open>Definitions\<close>

record damageType =
  dt_name :: string
  messageID :: string
  scaling :: string
  dt_effects :: string
  deathMessageType :: string
  exhaustion :: float32

definition damage_type :: "string \<Rightarrow> string \<Rightarrow> string \<Rightarrow> string \<Rightarrow> string \<Rightarrow> float32 \<Rightarrow> damageType" where
  "damage_type n m s e d x =
     \<lparr>dt_name = n, messageID = m, scaling = s, dt_effects = e, deathMessageType = d, exhaustion = x\<rparr>"

definition damage_types :: "damageType list" where
  "damage_types =
    [
     damage_type ''minecraft:arrow'' ''arrow''
       ''when_caused_by_living_non_player'' '''' '''' 0x3DCCCCCD,
     damage_type ''minecraft:bad_respawn_point'' ''badRespawnPoint''
       ''always'' '''' ''intentional_game_design'' 0x3DCCCCCD,
     damage_type ''minecraft:cactus'' ''cactus''
       ''when_caused_by_living_non_player'' '''' '''' 0x3DCCCCCD,
     damage_type ''minecraft:cramming'' ''cramming''
       ''when_caused_by_living_non_player'' '''' '''' 0,
     damage_type ''minecraft:dragon_breath'' ''dragonBreath''
       ''when_caused_by_living_non_player'' '''' '''' 0,
     damage_type ''minecraft:drown'' ''drown''
       ''when_caused_by_living_non_player'' ''drowning'' '''' 0,
     damage_type ''minecraft:dry_out'' ''dryout''
       ''when_caused_by_living_non_player'' '''' '''' 0x3DCCCCCD,
     damage_type ''minecraft:explosion'' ''explosion''
       ''always'' '''' '''' 0x3DCCCCCD,
     damage_type ''minecraft:fall'' ''fall''
       ''when_caused_by_living_non_player'' '''' ''fall_variants'' 0,
     damage_type ''minecraft:falling_anvil'' ''anvil''
       ''when_caused_by_living_non_player'' '''' '''' 0x3DCCCCCD,
     damage_type ''minecraft:falling_block'' ''fallingBlock''
       ''when_caused_by_living_non_player'' '''' '''' 0x3DCCCCCD,
     damage_type ''minecraft:falling_stalactite'' ''fallingStalactite''
       ''when_caused_by_living_non_player'' '''' '''' 0x3DCCCCCD,
     damage_type ''minecraft:fireball'' ''fireball''
       ''when_caused_by_living_non_player'' ''burning'' '''' 0x3DCCCCCD,
     damage_type ''minecraft:fireworks'' ''fireworks''
       ''when_caused_by_living_non_player'' '''' '''' 0x3DCCCCCD,
     damage_type ''minecraft:fly_into_wall'' ''flyIntoWall''
       ''when_caused_by_living_non_player'' '''' '''' 0,
     damage_type ''minecraft:freeze'' ''freeze''
       ''when_caused_by_living_non_player'' ''freezing'' '''' 0,
     damage_type ''minecraft:generic'' ''generic''
       ''when_caused_by_living_non_player'' '''' '''' 0,
     damage_type ''minecraft:generic_kill'' ''genericKill''
       ''when_caused_by_living_non_player'' '''' '''' 0,
     damage_type ''minecraft:hot_floor'' ''hotFloor''
       ''when_caused_by_living_non_player'' ''burning'' '''' 0x3DCCCCCD,
     damage_type ''minecraft:in_fire'' ''inFire''
       ''when_caused_by_living_non_player'' ''burning'' '''' 0x3DCCCCCD,
     damage_type ''minecraft:in_wall'' ''inWall''
       ''when_caused_by_living_non_player'' '''' '''' 0,
     damage_type ''minecraft:indirect_magic'' ''indirectMagic''
       ''when_caused_by_living_non_player'' '''' '''' 0,
     damage_type ''minecraft:lava'' ''lava''
       ''when_caused_by_living_non_player'' ''burning'' '''' 0x3DCCCCCD,
     damage_type ''minecraft:lightning_bolt'' ''lightningBolt''
       ''when_caused_by_living_non_player'' '''' '''' 0x3DCCCCCD,
     damage_type ''minecraft:magic'' ''magic''
       ''when_caused_by_living_non_player'' '''' '''' 0,
     damage_type ''minecraft:mob_attack'' ''mob''
       ''when_caused_by_living_non_player'' '''' '''' 0x3DCCCCCD,
     damage_type ''minecraft:mob_attack_no_aggro'' ''mob''
       ''when_caused_by_living_non_player'' '''' '''' 0x3DCCCCCD,
     damage_type ''minecraft:mob_projectile'' ''mob''
       ''when_caused_by_living_non_player'' '''' '''' 0x3DCCCCCD,
     damage_type ''minecraft:on_fire'' ''onFire''
       ''when_caused_by_living_non_player'' ''burning'' '''' 0,
     damage_type ''minecraft:out_of_world'' ''outOfWorld''
       ''when_caused_by_living_non_player'' '''' '''' 0,
     damage_type ''minecraft:outside_border'' ''outsideBorder''
       ''when_caused_by_living_non_player'' '''' '''' 0,
     damage_type ''minecraft:player_attack'' ''player''
       ''when_caused_by_living_non_player'' '''' '''' 0x3DCCCCCD,
     damage_type ''minecraft:player_explosion'' ''explosion.player''
       ''always'' '''' '''' 0x3DCCCCCD,
     damage_type ''minecraft:sonic_boom'' ''sonic_boom''
       ''always'' '''' '''' 0,
     damage_type ''minecraft:stalagmite'' ''stalagmite''
       ''when_caused_by_living_non_player'' '''' '''' 0,
     damage_type ''minecraft:starve'' ''starve''
       ''when_caused_by_living_non_player'' '''' '''' 0,
     damage_type ''minecraft:sting'' ''sting''
       ''when_caused_by_living_non_player'' '''' '''' 0x3DCCCCCD,
     damage_type ''minecraft:sweet_berry_bush'' ''sweetBerryBush''
       ''when_caused_by_living_non_player'' ''poking'' '''' 0x3DCCCCCD,
     damage_type ''minecraft:thorns'' ''thorns''
       ''when_caused_by_living_non_player'' ''thorns'' '''' 0x3DCCCCCD,
     damage_type ''minecraft:thrown'' ''thrown''
       ''when_caused_by_living_non_player'' '''' '''' 0x3DCCCCCD,
     damage_type ''minecraft:trident'' ''trident''
       ''when_caused_by_living_non_player'' '''' '''' 0x3DCCCCCD,
     damage_type ''minecraft:unattributed_fireball'' ''onFire''
       ''when_caused_by_living_non_player'' ''burning'' '''' 0x3DCCCCCD,
     damage_type ''minecraft:wither'' ''wither''
       ''when_caused_by_living_non_player'' '''' '''' 0,
     damage_type ''minecraft:wither_skull'' ''witherSkull''
       ''when_caused_by_living_non_player'' '''' '''' 0x3DCCCCCD
    ]"

definition damage_element :: "damageType \<Rightarrow> Compound" where
  "damage_element typ =
     (let element = nbt_Float (nbt_String (nbt_String NewCompound ''message_id'' (messageID typ))
                      ''scaling'' (scaling typ)) ''exhaustion'' (exhaustion typ);
          element = (if dt_effects typ \<noteq> [] then nbt_String element ''effects'' (dt_effects typ)
                     else element)
      in if deathMessageType typ \<noteq> []
         then nbt_String element ''death_message_type'' (deathMessageType typ) else element)"

definition damage_entry :: "nat \<times> damageType \<Rightarrow> Compound" where
  "damage_entry = (\<lambda>(i, typ).
     nbt_Compound (nbt_Int (nbt_String NewCompound ''name'' (dt_name typ)) ''id'' (of_nat i))
       ''element'' (damage_element typ))"

definition minimalDamageTypes :: "Compound list" where
  "minimalDamageTypes = map damage_entry (enumerate 0 damage_types)"

definition dimension :: Compound where
  "dimension = (let
     c = nbt_Byte NewCompound ''piglin_safe'' 0;
     c = nbt_Byte c ''natural'' 1;
     c = nbt_Float c ''ambient_light'' 0;
     c = nbt_String c ''infiniburn'' ''#minecraft:infiniburn_overworld'';
     c = nbt_Byte c ''respawn_anchor_works'' 0;
     c = nbt_Byte c ''has_skylight'' 1;
     c = nbt_Byte c ''bed_works'' 1;
     c = nbt_String c ''effects'' ''minecraft:overworld'';
     c = nbt_Byte c ''has_raids'' 1;
     c = nbt_Int c ''min_y'' (-64);
     c = nbt_Int c ''height'' 384;
     c = nbt_Int c ''logical_height'' 384;
     c = nbt_Double c ''coordinate_scale'' 0x3FF0000000000000;
     c = nbt_Byte c ''ultrawarm'' 0;
     c = nbt_Byte c ''has_ceiling'' 0;
     c = nbt_Int c ''monster_spawn_block_light_limit'' 0
     in nbt_Int c ''monster_spawn_light_level'' 0)"

definition dimensionEntry :: Compound where
  "dimensionEntry =
     nbt_Compound (nbt_Int (nbt_String NewCompound ''name'' ''minecraft:overworld'') ''id'' 0)
       ''element'' dimension"

definition biomeEntry :: Compound where
  "biomeEntry =
     nbt_Compound (nbt_Int (nbt_String NewCompound ''name'' ''minecraft:plains'') ''id'' 0) ''element''
       (nbt_Compound
          (nbt_Float (nbt_Float (nbt_Byte NewCompound ''has_precipitation'' 1)
             ''temperature'' 0x3F4CCCCD) ''downfall'' 0x3ECCCCCD)
          ''effects''
          (nbt_Int (nbt_Int (nbt_Int (nbt_Int NewCompound ''sky_color'' 7907327)
             ''water_fog_color'' 329011) ''fog_color'' 12638463) ''water_color'' 4159204))"

definition chatEntry :: Compound where
  "chatEntry =
     nbt_Compound (nbt_Int (nbt_String NewCompound ''name'' ''minecraft:chat'') ''id'' 0) ''element''
       (nbt_Compound
          (nbt_Compound NewCompound ''chat''
             (nbt_ListOfStrings (nbt_String NewCompound ''translation_key'' ''chat.type.text'')
                ''parameters'' [''sender'', ''content'']))
          ''narration''
          (nbt_ListOfStrings (nbt_String NewCompound ''translation_key'' ''chat.type.text.narrate'')
             ''parameters'' [''sender'', ''content'']))"

definition MinimalRegistryData :: Compound where
  "MinimalRegistryData = (let
     c = nbt_Compound NewCompound ''minecraft:dimension_type''
           (nbt_ListOfCompounds (nbt_String NewCompound ''type'' ''minecraft:dimension_type'')
              ''value'' [dimensionEntry]);
     c = nbt_Compound c ''minecraft:worldgen/biome''
           (nbt_ListOfCompounds (nbt_String NewCompound ''type'' ''minecraft:worldgen/biome'')
              ''value'' [biomeEntry]);
     c = nbt_Compound c ''minecraft:chat_type''
           (nbt_ListOfCompounds (nbt_String NewCompound ''type'' ''minecraft:chat_type'')
              ''value'' [chatEntry])
     in nbt_Compound c ''minecraft:damage_type''
          (nbt_ListOfCompounds (nbt_String NewCompound ''type'' ''minecraft:damage_type'')
             ''value'' minimalDamageTypes))"

section \<open>The document the client should read\<close>

text \<open>
  The registries as documents, independent of the builder. A damage type is called by the lower camel case of its
  name, with a few exceptions; it scales with the difficulty when a mob causes it, except for explosions
  and the sonic boom; it exhausts the player by \<open>0.1\<close>, except for those listed.
\<close>

type_synonym document = "(string \<times> nbt) list"

definition upper_letter :: "char \<Rightarrow> char" where
  "upper_letter c =
     (case map_of (zip ''abcdefghijklmnopqrstuvwxyz'' ''ABCDEFGHIJKLMNOPQRSTUVWXYZ'') c of Some d \<Rightarrow> d | None \<Rightarrow> c)"

fun camel_case :: "string \<Rightarrow> string" where
  "camel_case [] = []"
| "camel_case [c] = [c]"
| "camel_case (c # d # s) = (if c = CHR ''_'' then upper_letter d # camel_case s else c # camel_case (d # s))"

definition damage_names :: "string list" where
  "damage_names =
     [''arrow'', ''bad_respawn_point'', ''cactus'', ''cramming'', ''dragon_breath'', ''drown'', ''dry_out'', ''explosion'',
      ''fall'', ''falling_anvil'', ''falling_block'', ''falling_stalactite'', ''fireball'', ''fireworks'', ''fly_into_wall'',
      ''freeze'', ''generic'', ''generic_kill'', ''hot_floor'', ''in_fire'', ''in_wall'', ''indirect_magic'', ''lava'',
      ''lightning_bolt'', ''magic'', ''mob_attack'', ''mob_attack_no_aggro'', ''mob_projectile'', ''on_fire'', ''out_of_world'',
      ''outside_border'', ''player_attack'', ''player_explosion'', ''sonic_boom'', ''stalagmite'', ''starve'', ''sting'',
      ''sweet_berry_bush'', ''thorns'', ''thrown'', ''trident'', ''unattributed_fireball'', ''wither'', ''wither_skull'']"

definition message_of :: "string \<Rightarrow> string" where
  "message_of n =
     (case map_of [(''dry_out'', ''dryout''), (''falling_anvil'', ''anvil''), (''mob_attack'', ''mob''),
        (''mob_attack_no_aggro'', ''mob''), (''mob_projectile'', ''mob''), (''player_attack'', ''player''),
        (''player_explosion'', ''explosion.player''), (''sonic_boom'', ''sonic_boom''), (''unattributed_fireball'', ''onFire'')] n of
        Some m \<Rightarrow> m | None \<Rightarrow> camel_case n)"

definition scaling_of :: "string \<Rightarrow> string" where
  "scaling_of n =
     (if n \<in> set [''bad_respawn_point'', ''explosion'', ''player_explosion'', ''sonic_boom''] then ''always''
      else ''when_caused_by_living_non_player'')"

definition effects_of :: "string \<Rightarrow> string option" where
  "effects_of = map_of
     [(''drown'', ''drowning''), (''fireball'', ''burning''), (''freeze'', ''freezing''), (''hot_floor'', ''burning''),
      (''in_fire'', ''burning''), (''lava'', ''burning''), (''on_fire'', ''burning''), (''sweet_berry_bush'', ''poking''),
      (''thorns'', ''thorns''), (''unattributed_fireball'', ''burning'')]"

definition death_of :: "string \<Rightarrow> string option" where
  "death_of = map_of [(''bad_respawn_point'', ''intentional_game_design''), (''fall'', ''fall_variants'')]"

definition exhaustion_of :: "string \<Rightarrow> float32" where
  "exhaustion_of n =
     (if n \<in> set [''cramming'', ''dragon_breath'', ''drown'', ''fall'', ''fly_into_wall'', ''freeze'', ''generic'', ''generic_kill'',
        ''in_wall'', ''indirect_magic'', ''magic'', ''on_fire'', ''out_of_world'', ''outside_border'', ''sonic_boom'', ''stalagmite'',
        ''starve'', ''wither''] then 0 else 0x3DCCCCCD)"

definition entry_document :: "string \<Rightarrow> nat \<Rightarrow> document \<Rightarrow> document" where
  "entry_document n i element = [(''name'', TString n), (''id'', TInt (of_nat i)), (''element'', TCompound element)]"

definition registry_of :: "string \<Rightarrow> document list \<Rightarrow> string \<times> nbt" where
  "registry_of n entries = (n, TCompound [(''type'', TString n), (''value'', TCompounds entries)])"

definition dimension_document :: document where
  "dimension_document =
     [(''piglin_safe'', TByte 0), (''natural'', TByte 1), (''ambient_light'', TFloat 0),
      (''infiniburn'', TString ''#minecraft:infiniburn_overworld''), (''respawn_anchor_works'', TByte 0),
      (''has_skylight'', TByte 1), (''bed_works'', TByte 1), (''effects'', TString ''minecraft:overworld''),
      (''has_raids'', TByte 1), (''min_y'', TInt (- 64)), (''height'', TInt 384), (''logical_height'', TInt 384),
      (''coordinate_scale'', TDouble 0x3FF0000000000000), (''ultrawarm'', TByte 0), (''has_ceiling'', TByte 0),
      (''monster_spawn_block_light_limit'', TInt 0), (''monster_spawn_light_level'', TInt 0)]"

definition biome_document :: document where
  "biome_document =
     [(''has_precipitation'', TByte 1), (''temperature'', TFloat 0x3F4CCCCD), (''downfall'', TFloat 0x3ECCCCCD),
      (''effects'', TCompound [(''sky_color'', TInt 0x78A7FF), (''water_fog_color'', TInt 0x050533),
         (''fog_color'', TInt 0xC0D8FF), (''water_color'', TInt 0x3F76E4)])]"

definition chat_document :: document where
  "chat_document =
     [(''chat'', TCompound [(''translation_key'', TString ''chat.type.text''), (''parameters'', TStrings [''sender'', ''content''])]),
      (''narration'', TCompound [(''translation_key'', TString ''chat.type.text.narrate''), (''parameters'', TStrings [''sender'', ''content''])])]"

definition damage_document :: "string \<Rightarrow> document" where
  "damage_document n =
     [(''message_id'', TString (message_of n)), (''scaling'', TString (scaling_of n)), (''exhaustion'', TFloat (exhaustion_of n))] @
     (case effects_of n of Some e \<Rightarrow> [(''effects'', TString e)] | None \<Rightarrow> []) @
     (case death_of n of Some d \<Rightarrow> [(''death_message_type'', TString d)] | None \<Rightarrow> [])"

definition registry_document :: document where
  "registry_document =
     [registry_of ''minecraft:dimension_type'' [entry_document ''minecraft:overworld'' 0 dimension_document],
      registry_of ''minecraft:worldgen/biome'' [entry_document ''minecraft:plains'' 0 biome_document],
      registry_of ''minecraft:chat_type'' [entry_document ''minecraft:chat'' 0 chat_document],
      registry_of ''minecraft:damage_type''
        (map (\<lambda>(i, n). entry_document (''minecraft:'' @ n) i (damage_document n)) (enumerate 0 damage_names))]"

section \<open>The builder builds it\<close>

definition damage_type_of :: "string \<Rightarrow> damageType" where
  "damage_type_of n =
     damage_type (''minecraft:'' @ n) (message_of n) (scaling_of n) (case effects_of n of Some e \<Rightarrow> e | None \<Rightarrow> [])
       (case death_of n of Some d \<Rightarrow> d | None \<Rightarrow> []) (exhaustion_of n)"

lemma damage_types_named: "damage_types = map damage_type_of damage_names"
  by code_simp

text \<open>One call of the builder appends one entry to the document.\<close>

lemma represents_last:
  "d \<noteq> [] \<Longrightarrow> last d = (n, TByte b) \<Longrightarrow> represents c (butlast d) \<Longrightarrow> represents (nbt_Byte c n b) d"
  "d \<noteq> [] \<Longrightarrow> last d = (n, TInt i) \<Longrightarrow> represents c (butlast d) \<Longrightarrow> represents (nbt_Int c n i) d"
  "d \<noteq> [] \<Longrightarrow> last d = (n, TFloat f) \<Longrightarrow> represents c (butlast d) \<Longrightarrow> represents (nbt_Float c n f) d"
  "d \<noteq> [] \<Longrightarrow> last d = (n, TDouble g) \<Longrightarrow> represents c (butlast d) \<Longrightarrow> represents (nbt_Double c n g) d"
  "d \<noteq> [] \<Longrightarrow> last d = (n, TString s) \<Longrightarrow> represents c (butlast d) \<Longrightarrow> represents (nbt_String c n s) d"
  "d \<noteq> [] \<Longrightarrow> last d = (n, TStrings ss) \<Longrightarrow> represents c (butlast d) \<Longrightarrow> represents (nbt_ListOfStrings c n ss) d"
  using represents_ops(2-8) [of c "butlast d"] append_butlast_last_id [of d] by metis+

lemma represents_last_compound:
  assumes "represents e d'" "represents c (butlast d)" "d \<noteq> []" "last d = (n, TCompound d')"
  shows "represents (nbt_Compound c n e) d"
  using represents_ops(9) [OF assms(2,1)] assms(3,4) append_butlast_last_id [of d] by metis

lemma represents_entry:
  assumes "represents e d"
  shows "represents (nbt_Compound (nbt_Int (nbt_String NewCompound ''name'' n) ''id'' (of_nat i)) ''element'' e) (entry_document n i d)"
  unfolding entry_document_def
  by (rule represents_last_compound [OF assms], intro represents_last) (simp_all add: represents_ops(1))

lemma represents_first_entry:
  assumes "represents e d"
  shows "represents (nbt_Compound (nbt_Int (nbt_String NewCompound ''name'' n) ''id'' 0) ''element'' e) (entry_document n 0 d)"
  using represents_entry [OF assms, of n 0] by simp

lemma represents_entries:
  "represents dimensionEntry (entry_document ''minecraft:overworld'' 0 dimension_document)"
  "represents biomeEntry (entry_document ''minecraft:plains'' 0 biome_document)"
  "represents chatEntry (entry_document ''minecraft:chat'' 0 chat_document)"
proof -
  have "represents dimension dimension_document"
    unfolding dimension_def Let_def by (intro represents_last) (simp_all add: dimension_document_def represents_ops(1))
  from represents_first_entry [OF this]
  show "represents dimensionEntry (entry_document ''minecraft:overworld'' 0 dimension_document)"
    by (simp add: dimensionEntry_def)
  have "represents (nbt_Int (nbt_Int (nbt_Int (nbt_Int NewCompound ''sky_color'' 7907327)
      ''water_fog_color'' 329011) ''fog_color'' 12638463) ''water_color'' 4159204)
      [(''sky_color'', TInt 0x78A7FF), (''water_fog_color'', TInt 0x050533), (''fog_color'', TInt 0xC0D8FF), (''water_color'', TInt 0x3F76E4)]"
    by (intro represents_last) (simp_all add: represents_ops(1))
  moreover have "represents (nbt_Float (nbt_Float (nbt_Byte NewCompound ''has_precipitation'' 1) ''temperature'' 0x3F4CCCCD)
      ''downfall'' 0x3ECCCCCD) (butlast biome_document)"
    by (intro represents_last) (simp_all add: biome_document_def represents_ops(1))
  ultimately have "represents (nbt_Compound (nbt_Float (nbt_Float (nbt_Byte NewCompound ''has_precipitation'' 1)
      ''temperature'' 0x3F4CCCCD) ''downfall'' 0x3ECCCCCD) ''effects''
      (nbt_Int (nbt_Int (nbt_Int (nbt_Int NewCompound ''sky_color'' 7907327)
      ''water_fog_color'' 329011) ''fog_color'' 12638463) ''water_color'' 4159204)) biome_document"
    by (rule represents_last_compound) (simp_all add: biome_document_def)
  from represents_first_entry [OF this]
  show "represents biomeEntry (entry_document ''minecraft:plains'' 0 biome_document)" unfolding biomeEntry_def .
  have chat: "represents (nbt_ListOfStrings (nbt_String NewCompound ''translation_key'' k) ''parameters'' [''sender'', ''content''])
      [(''translation_key'', TString k), (''parameters'', TStrings [''sender'', ''content''])]" for k
    by (intro represents_last) (simp_all add: represents_ops(1))
  show "represents chatEntry (entry_document ''minecraft:chat'' 0 chat_document)"
    unfolding chatEntry_def chat_document_def
    by (rule represents_first_entry, rule represents_last_compound [OF chat], rule represents_last_compound [OF chat])
      (simp_all add: represents_ops(1))
qed

text \<open>A damage type whose effect or kind of death is empty leaves the field out, so none may be the empty string.\<close>

lemma named_not_empty: "effects_of n \<noteq> Some []" "death_of n \<noteq> Some []"
  by (auto simp: effects_of_def death_of_def)

lemma represents_damage:
  "represents (damage_entry (i, damage_type_of n)) (entry_document (''minecraft:'' @ n) i (damage_document n))"
proof -
  let ?base = "nbt_Float (nbt_String (nbt_String NewCompound ''message_id'' (message_of n)) ''scaling'' (scaling_of n))
    ''exhaustion'' (exhaustion_of n)"
  let ?d = "[(''message_id'', TString (message_of n)), (''scaling'', TString (scaling_of n)), (''exhaustion'', TFloat (exhaustion_of n))]"
  have base: "represents ?base ?d" by (intro represents_last) (simp_all add: represents_ops(1))
  note added = base represents_ops(7) [OF base] represents_ops(7) [OF represents_ops(7) [OF base]]
  have "represents (damage_element (damage_type_of n)) (damage_document n)"
    using named_not_empty [of n] added
    by (cases "effects_of n"; cases "death_of n")
      (simp_all add: damage_element_def damage_document_def damage_type_of_def damage_type_def Let_def)
  from represents_entry [OF this] show ?thesis
    by (simp add: damage_entry_def damage_type_of_def damage_type_def)
qed

lemma represents_damage_types:
  "list_all2 represents minimalDamageTypes
     (map (\<lambda>(i, n). entry_document (''minecraft:'' @ n) i (damage_document n)) (enumerate 0 damage_names))"
proof -
  have "enumerate 0 damage_types = map (\<lambda>(i, n). (i, damage_type_of n)) (enumerate 0 damage_names)"
    unfolding damage_types_named by (simp add: enumerate_eq_zip zip_map2)
  then show ?thesis
    by (auto simp: minimalDamageTypes_def list_all2_map1 list_all2_map2 comp_def split_beta represents_damage
        simp del: append.simps intro!: list_all2_refl)
qed

lemma represents_registry:
  assumes "list_all2 represents cs ds" "represents c d"
  shows "represents (nbt_Compound c n (nbt_ListOfCompounds (nbt_String NewCompound ''type'' n) ''value'' cs)) (d @ [registry_of n ds])"
proof -
  have "represents (nbt_ListOfCompounds (nbt_String NewCompound ''type'' n) ''value'' cs)
      (([] @ [(''type'', TString n)]) @ [(''value'', TCompounds ds)])"
    by (rule represents_ops(10) [OF represents_ops(7) [OF represents_ops(1)] assms(1)])
  from represents_ops(9) [OF assms(2) this, of n] show ?thesis by (simp add: registry_of_def)
qed

lemma MinimalRegistryData_document: "represents MinimalRegistryData registry_document"
  using represents_registry [OF represents_damage_types represents_registry [OF _ represents_registry [OF _
      represents_registry [OF _ represents_ops(1), of "[dimensionEntry]"], of "[biomeEntry]"], of "[chatEntry]"]]
  by (simp add: MinimalRegistryData_def registry_document_def represents_entries Let_def)

section \<open>The registry is well formed\<close>

definition small_damage_type :: "damageType \<Rightarrow> bool" where
  "small_damage_type typ \<longleftrightarrow> length (dt_name typ) \<le> 64 \<and> length (messageID typ) \<le> 64 \<and>
     length (scaling typ) \<le> 64 \<and> length (dt_effects typ) \<le> 64 \<and> length (deathMessageType typ) \<le> 64"

lemma damage_types_small: "list_all small_damage_type damage_types"
  by (simp add: damage_types_def small_damage_type_def damage_type_def)

lemma length_damage_types: "length damage_types = 44"
  by (simp add: damage_types_def)

lemma length_minimal: "length minimalDamageTypes = 44"
  by (simp add: minimalDamageTypes_def length_damage_types)

lemma wf_entry_document: "wf_doc d \<Longrightarrow> length n < 2 ^ 16 \<Longrightarrow> wf_doc (entry_document n i d)"
  by (simp add: entry_document_def wf_doc_def)

lemma wf_damage_document:
  assumes "n \<in> set damage_names" shows "wf_doc (entry_document (''minecraft:'' @ n) i (damage_document n))"
proof -
  have "small_damage_type (damage_type_of n)"
    using damage_types_small assms unfolding damage_types_named by (auto simp: list_all_iff)
  then have "wf_doc (damage_document n)" "length (''minecraft:'' @ n) < 2 ^ 16"
    by (auto simp: small_damage_type_def damage_type_of_def damage_type_def damage_document_def wf_doc_def split: option.splits)
  then show ?thesis by (rule wf_entry_document)
qed

lemma wf_registry_of: "list_all wf_doc ds \<Longrightarrow> length ds < 2 ^ 31 \<Longrightarrow> length n < 2 ^ 16 \<Longrightarrow> wf_doc [registry_of n ds]"
  by (simp add: registry_of_def wf_doc_def [abs_def])

lemma wf_registry_document: "wf_doc registry_document"
proof -
  have "wf_doc dimension_document" "wf_doc biome_document" "wf_doc chat_document"
    by (simp_all add: wf_doc_def dimension_document_def biome_document_def chat_document_def)
  moreover have "list_all wf_doc (map (\<lambda>(i, n). entry_document (''minecraft:'' @ n) i (damage_document n)) (enumerate 0 damage_names))"
    using wf_damage_document by (auto simp: list_all_iff in_set_enumerate_eq simp del: append.simps)
  moreover have "length damage_names = 44" by (simp add: damage_names_def)
  ultimately have "list_all (\<lambda>r. wf_doc [r]) registry_document"
    unfolding registry_document_def by (simp add: wf_registry_of wf_entry_document)
  then show ?thesis by (simp add: wf_doc_def list_all_iff)
qed

section \<open>Its size\<close>

lemma length_encodePayload_add:
  "length (encodePayload (nbt_add c kind name data)) =
     length (encodePayload c) + 3 + length name + length data"
  by (simp add: encodePayload_def nbt_add_def field_bytes_def appendStringPayload_def)

lemma length_encodePayload:
  "length (encodePayload NewCompound) = 1"
  "length (encodePayload (nbt_Byte c n b)) = length (encodePayload c) + length n + 4"
  "length (encodePayload (nbt_Int c n i)) = length (encodePayload c) + length n + 7"
  "length (encodePayload (nbt_Float c n f)) = length (encodePayload c) + length n + 7"
  "length (encodePayload (nbt_Double c n g)) = length (encodePayload c) + length n + 11"
  "length (encodePayload (nbt_String c n s)) = length (encodePayload c) + length n + length s + 5"
  "length (encodePayload (nbt_Compound c n e)) =
     length (encodePayload c) + length n + length (encodePayload e) + 3"
  "length (encodePayload (nbt_ListOfCompounds c n cs)) =
     length (encodePayload c) + length n + sum_list (map (length \<circ> encodePayload) cs) + 8"
  "length (encodePayload (nbt_ListOfStrings c n ss)) =
     length (encodePayload c) + length n + sum_list (map (\<lambda>s. length s + 2) ss) + 8"
  by (simp_all add: nbt_Byte_def nbt_Int_def nbt_Float_def nbt_Double_def nbt_String_def
      nbt_Compound_def nbt_ListOfCompounds_def nbt_ListOfStrings_def length_encodePayload_add
      length_concat comp_def appendStringPayload_def)
    (simp add: encodePayload_def NewCompound_def)

lemma length_damage_entry:
  "small_damage_type typ \<Longrightarrow> length (encodePayload (damage_entry (i, typ))) \<le> 512"
  by (auto simp: damage_entry_def damage_element_def Let_def small_damage_type_def length_encodePayload)

lemma sum_list_bound: "(\<And>x. x \<in> set xs \<Longrightarrow> f x \<le> (k :: nat)) \<Longrightarrow> sum_list (map f xs) \<le> length xs * k"
  by (induction xs) (auto simp: add_le_mono)

lemma length_minimalDamageTypes:
  "sum_list (map (length \<circ> encodePayload) minimalDamageTypes) \<le> 44 * 512"
proof -
  have "length (encodePayload x) \<le> 512" if "x \<in> set minimalDamageTypes" for x
    using damage_types_small that
    by (auto simp: minimalDamageTypes_def list_all_iff in_set_enumerate_eq intro!: length_damage_entry)
  then have "sum_list (map (length \<circ> encodePayload) minimalDamageTypes) \<le> length minimalDamageTypes * 512"
    by (intro sum_list_bound) simp
  then show ?thesis by (simp add: length_minimal)
qed

lemma length_MinimalRegistryData: "length (encodePayload MinimalRegistryData) \<le> 32768"
  using length_minimalDamageTypes
  by (simp add: MinimalRegistryData_def dimensionEntry_def dimension_def biomeEntry_def chatEntry_def
      Let_def length_encodePayload)

lemma RegistryDataPayload_Minimal:
  "RegistryDataPayload MinimalRegistryData = Ok (5 # 10 # encodePayload MinimalRegistryData)"
  using length_MinimalRegistryData
  by (simp add: RegistryDataPayload_def nbt_Encode_cases varint_last)

section \<open>Properties\<close>

text \<open>
  C21: the client reads the registries it needs. The packet fits the size limit; after its identifier it
  is one anonymous compound, which an NBT reader decodes to the end, giving exactly \<open>registry_document\<close>: the
  overworld, the plains, the chat format and the 44 damage types of the game, each with its
  position as identifier and with its message, scaling, exhaustion, effect and kind of death.
\<close>

theorem registry_readable:
  "\<exists>data. RegistryDataPayload MinimalRegistryData = Ok (5 # 10 # data) \<and> length data \<le> 32768 \<and>
     dec_doc (length data) data = Some (registry_document, []) \<and>
     length damage_types = 44 \<and> distinct (map dt_name damage_types)"
proof -
  have data: "encodePayload MinimalRegistryData = enc_doc registry_document"
    by (rule represents_encodePayload [OF MinimalRegistryData_document])
  have "distinct (map dt_name damage_types)"
    by (simp add: damage_types_def damage_type_def)
  then show ?thesis
    using RegistryDataPayload_Minimal length_MinimalRegistryData length_damage_types
      dec_doc_enc_doc [OF wf_registry_document, of "[]"] unfolding data
    by (intro exI [of _ "enc_doc registry_document"]) simp
qed

end
