(* ===== verification/Play.thy ===== *)
theory Play
  imports Nbt
begin

text \<open>
  The Play packets of \<open>internal/protocol/play/play.go\<close>: the payloads the Limbo world sends,
  the serverbound packets it parses, and the serverbound packets it replays to a backend.
  Floating-point values are their IEEE 754 bit patterns; a value is finite when its
  exponent field is not all ones. The theorems show that the position word of a spawn
  packet unpacks to the coordinates, that every serverbound payload the proxy builds is
  read back by its parser, that no parser panics, and that what the parsers accept is
  within the documented ranges.
\<close>

section \<open>Definitions\<close>

definition ClientboundChunkBatchFinishedID :: int32 where "ClientboundChunkBatchFinishedID = 0x0C"
definition ClientboundChunkBatchStartID :: int32 where "ClientboundChunkBatchStartID = 0x0D"
definition ClientboundJoinGameID :: int32 where "ClientboundJoinGameID = 0x29"
definition ClientboundKeepAliveID :: int32 where "ClientboundKeepAliveID = 0x24"
definition ClientboundMapChunkID :: int32 where "ClientboundMapChunkID = 0x25"
definition ClientboundPositionLookID :: int32 where "ClientboundPositionLookID = 0x3E"
definition ClientboundSpawnPositionID :: int32 where "ClientboundSpawnPositionID = 0x54"
definition ClientboundStartConfigurationID :: int32 where "ClientboundStartConfigurationID = 0x67"
definition ClientboundActionBarID :: int32 where "ClientboundActionBarID = 0x4A"
definition ServerboundConfigurationAcknowledgedID :: int32 where "ServerboundConfigurationAcknowledgedID = 0x0B"
definition ServerboundTeleportConfirmID :: int32 where "ServerboundTeleportConfirmID = 0x00"
definition ServerboundKeepAliveID :: int32 where "ServerboundKeepAliveID = 0x15"
definition ServerboundPositionID :: int32 where "ServerboundPositionID = 0x17"
definition ServerboundPositionLookID :: int32 where "ServerboundPositionLookID = 0x18"
definition ServerboundPlayerCommandID :: int32 where "ServerboundPlayerCommandID = 0x22"

lemmas play_ids = ClientboundChunkBatchFinishedID_def ClientboundChunkBatchStartID_def
  ClientboundJoinGameID_def ClientboundKeepAliveID_def ClientboundMapChunkID_def
  ClientboundPositionLookID_def ClientboundSpawnPositionID_def ClientboundStartConfigurationID_def
  ClientboundActionBarID_def ServerboundConfigurationAcknowledgedID_def
  ServerboundTeleportConfirmID_def ServerboundKeepAliveID_def ServerboundPositionID_def
  ServerboundPositionLookID_def ServerboundPlayerCommandID_def

definition overworldSectionCount :: nat where
  "overworldSectionCount = 24"

definition overworldLightSectionMask :: uint64 where
  "overworldLightSectionMask = push_bit (overworldSectionCount + 2) 1 - 1"

record JoinGameConfig =
  jg_EntityID :: int32
  jg_Hardcore :: bool
  jg_WorldName :: string
  jg_MaxPlayers :: int32
  jg_ViewDistance :: int32
  jg_SimulationDistance :: int32
  jg_DimensionType :: string
  jg_DimensionName :: string
  jg_HashedSeed :: int64
  jg_GameMode :: byte
  jg_PreviousGameMode :: byte
  jg_ReducedDebugInfo :: bool
  jg_RespawnScreen :: bool
  jg_LimitedCrafting :: bool
  jg_Debug :: bool
  jg_Flat :: bool
  jg_PortalCooldown :: int32

record Movement =
  mv_X :: float64
  mv_Y :: float64
  mv_Z :: float64
  mv_Yaw :: float32
  mv_Pitch :: float32
  mv_OnGround :: bool
  mv_HasLook :: bool

record PlayerCommand =
  EntityID :: int32
  ActionID :: int32
  CommandData :: int32

definition appendBool :: "bytes \<Rightarrow> bool \<Rightarrow> bytes" where
  "appendBool dst value = (if value then dst @ [1] else dst @ [0])"

definition appendInt32 :: "bytes \<Rightarrow> int32 \<Rightarrow> bytes" where
  "appendInt32 dst value = dst @ PutUint32 value"

definition appendLightMask :: "bytes \<Rightarrow> uint64 \<Rightarrow> bytes" where
  "appendLightMask dst sections = (let dst = AppendVarInt dst 1 in dst @ PutUint64 sections)"

definition appendFloat32 :: "bytes \<Rightarrow> float32 \<Rightarrow> bytes" where
  "appendFloat32 dst value = appendInt32 dst value"

definition appendFloat64 :: "bytes \<Rightarrow> float64 \<Rightarrow> bytes" where
  "appendFloat64 dst value = dst @ PutUint64 value"

definition JoinGamePayload :: "JoinGameConfig \<Rightarrow> bytes" where
  "JoinGamePayload config = (let
     payload = AppendVarInt [] ClientboundJoinGameID;
     payload = payload @ PutUint32 (jg_EntityID config);
     payload = (if jg_Hardcore config then payload @ [1] else payload @ [0]);
     payload = AppendVarInt payload 1;
     payload = AppendString payload (jg_WorldName config);
     payload = AppendVarInt payload (jg_MaxPlayers config);
     payload = AppendVarInt payload (jg_ViewDistance config);
     payload = AppendVarInt payload (jg_SimulationDistance config);
     payload = appendBool payload (jg_ReducedDebugInfo config);
     payload = appendBool payload (jg_RespawnScreen config);
     payload = appendBool payload (jg_LimitedCrafting config);
     payload = AppendString payload (jg_DimensionType config);
     payload = AppendString payload (jg_DimensionName config);
     payload = payload @ PutUint64 (jg_HashedSeed config);
     payload = payload @ [jg_GameMode config, jg_PreviousGameMode config];
     payload = appendBool payload (jg_Debug config);
     payload = appendBool payload (jg_Flat config);
     payload = appendBool payload False
     in AppendVarInt payload (jg_PortalCooldown config))"

definition KeepAlivePayload :: "int64 \<Rightarrow> bytes" where
  "KeepAlivePayload i = (let payload = AppendVarInt [] ClientboundKeepAliveID in payload @ PutUint64 i)"

definition ChunkBatchStartPayload :: bytes where
  "ChunkBatchStartPayload = AppendVarInt [] ClientboundChunkBatchStartID"

definition ChunkBatchFinishedPayload :: "int32 \<Rightarrow> bytes" where
  "ChunkBatchFinishedPayload n =
     (let payload = AppendVarInt [] ClientboundChunkBatchFinishedID in AppendVarInt payload n)"

definition VoidChunkPayload :: "int32 \<Rightarrow> int32 \<Rightarrow> bytes" where
  "VoidChunkPayload x z = (let
     payload = AppendVarInt [] ClientboundMapChunkID;
     payload = appendInt32 payload x;
     payload = appendInt32 payload z;
     payload = payload @ [10, 0];
     chunkData = concat (replicate overworldSectionCount ([0, 0] @ [0, 0, 0] @ [0, 0, 0]));
     payload = AppendVarInt payload (of_nat (length chunkData));
     payload = payload @ chunkData;
     payload = AppendVarInt payload 0;
     payload = AppendVarInt payload 0;
     payload = AppendVarInt payload 0;
     payload = appendLightMask payload overworldLightSectionMask;
     payload = appendLightMask payload overworldLightSectionMask;
     payload = AppendVarInt payload 0
     in AppendVarInt payload 0)"

definition packed_position :: "int32 \<Rightarrow> int32 \<Rightarrow> int32 \<Rightarrow> uint64" where
  "packed_position x y z =
     push_bit 38 (ucast (x AND 0x3ffffff)) OR push_bit 12 (ucast (z AND 0x3ffffff)) OR ucast (y AND 0xfff)"

definition SpawnPositionPayload :: "int32 \<Rightarrow> int32 \<Rightarrow> int32 \<Rightarrow> float32 \<Rightarrow> bytes" where
  "SpawnPositionPayload x y z angle = (let
     payload = AppendVarInt [] ClientboundSpawnPositionID;
     payload = payload @ PutUint64 (packed_position x y z)
     in appendFloat32 payload angle)"

definition PositionLookPayload ::
    "float64 \<Rightarrow> float64 \<Rightarrow> float64 \<Rightarrow> float32 \<Rightarrow> float32 \<Rightarrow> int32 \<Rightarrow> bytes" where
  "PositionLookPayload x y z yaw pitch teleportID = (let
     payload = AppendVarInt [] ClientboundPositionLookID;
     payload = appendFloat64 payload x;
     payload = appendFloat64 payload y;
     payload = appendFloat64 payload z;
     payload = appendFloat32 payload yaw;
     payload = appendFloat32 payload pitch;
     payload = payload @ [0]
     in AppendVarInt payload teleportID)"

definition StartConfigurationPayload :: bytes where
  "StartConfigurationPayload = AppendVarInt [] ClientboundStartConfigurationID"

definition ActionBarPayload :: "string \<Rightarrow> bytes res" where
  "ActionBarPayload text =
     rbind (nbt_Encode (nbt_String NewCompound ''text'' text) (64 * 2 ^ 10)) (\<lambda>component.
     let payload = AppendVarInt [] ClientboundActionBarID in Ok (payload @ component))"

definition ParseConfigurationAcknowledged :: "bytes \<Rightarrow> unit res" where
  "ParseConfigurationAcknowledged payload =
     rbind (or_fail (PacketID payload) ErrPlayMalformed) (\<lambda>(packet_id, body).
     guard (packet_id = ServerboundConfigurationAcknowledgedID \<and> length body = 0) ErrPlayMalformed)"

definition ServerboundPositionPayload :: "float64 \<Rightarrow> float64 \<Rightarrow> float64 \<Rightarrow> bool \<Rightarrow> bytes" where
  "ServerboundPositionPayload x y z onGround = (let
     payload = AppendVarInt [] ServerboundPositionID;
     payload = appendFloat64 payload x;
     payload = appendFloat64 payload y;
     payload = appendFloat64 payload z
     in appendBool payload onGround)"

definition ServerboundPositionLookPayload ::
    "float64 \<Rightarrow> float64 \<Rightarrow> float64 \<Rightarrow> float32 \<Rightarrow> float32 \<Rightarrow> bool \<Rightarrow> bytes" where
  "ServerboundPositionLookPayload x y z yaw pitch onGround = (let
     payload = AppendVarInt [] ServerboundPositionLookID;
     payload = appendFloat64 payload x;
     payload = appendFloat64 payload y;
     payload = appendFloat64 payload z;
     payload = appendFloat32 payload yaw;
     payload = appendFloat32 payload pitch
     in appendBool payload onGround)"

definition PlayerCommandPayload :: "int32 \<Rightarrow> int32 \<Rightarrow> int32 \<Rightarrow> bytes" where
  "PlayerCommandPayload entityID actionID data = (let
     payload = AppendVarInt [] ServerboundPlayerCommandID;
     payload = AppendVarInt payload entityID;
     payload = AppendVarInt payload actionID
     in AppendVarInt payload data)"

text \<open>The loop of \<open>ParsePlayerCommand\<close> over its three values.\<close>

fun consume_values :: "nat \<Rightarrow> bytes \<Rightarrow> (int32 list \<times> bytes) res" where
  "consume_values 0 body = Ok ([], body)"
| "consume_values (Suc n) body =
     rbind (or_fail (ConsumeVarInt body) ErrPlayMalformed) (\<lambda>(value, used).
     rbind (slice_from body used) (\<lambda>body.
     rbind (consume_values n body) (\<lambda>(values, body). Ok (value # values, body))))"

definition ParsePlayerCommand :: "bytes \<Rightarrow> PlayerCommand res" where
  "ParsePlayerCommand payload =
     rbind (or_fail (PacketID payload) ErrPlayMalformed) (\<lambda>(packet_id, body).
     rbind (guard (packet_id = ServerboundPlayerCommandID) ErrPlayMalformed) (\<lambda>_.
     rbind (consume_values 3 body) (\<lambda>(values, body).
     if length body \<noteq> 0 \<or> sint (values ! 0) < 0 \<or> sint (values ! 1) < 0 \<or> sint (values ! 1) > 8
        \<or> sint (values ! 2) < 0
     then Fail ErrPlayMalformed
     else Ok \<lparr>EntityID = values ! 0, ActionID = values ! 1, CommandData = values ! 2\<rparr>)))"

definition ParseTeleportConfirm :: "bytes \<Rightarrow> int32 res" where
  "ParseTeleportConfirm payload =
     rbind (or_fail (PacketID payload) ErrPlayMalformed) (\<lambda>(packet_id, body).
     rbind (guard (packet_id = ServerboundTeleportConfirmID) ErrPlayMalformed) (\<lambda>_.
     rbind (or_fail (ConsumeVarInt body) ErrPlayMalformed) (\<lambda>(teleportID, used).
     rbind (guard (used = length body) ErrPlayMalformed) (\<lambda>_. Ok teleportID))))"

definition ParseKeepAlive :: "bytes \<Rightarrow> int64 res" where
  "ParseKeepAlive payload =
     rbind (or_fail (PacketID payload) ErrPlayMalformed) (\<lambda>(packet_id, body).
     rbind (guard (packet_id = ServerboundKeepAliveID \<and> length body = 8) ErrPlayMalformed) (\<lambda>_.
     Uint64 body))"

definition finite64 :: "float64 \<Rightarrow> bool" where
  "finite64 value \<longleftrightarrow> drop_bit 52 value AND 0x7ff \<noteq> 0x7ff"

definition finite32 :: "float32 \<Rightarrow> bool" where
  "finite32 value \<longleftrightarrow> drop_bit 23 value AND 0xff \<noteq> 0xff"

text \<open>\<open>math.Float64frombits(binary.BigEndian.Uint64(body[i:i+8]))\<close> and its 32-bit form.\<close>

definition float64_at :: "bytes \<Rightarrow> nat \<Rightarrow> float64 res" where
  "float64_at body i = rbind (subslice body i (i + 8)) Uint64"

definition float32_at :: "bytes \<Rightarrow> nat \<Rightarrow> float32 res" where
  "float32_at body i = rbind (subslice body i (i + 4)) Uint32"

definition DecodeMovement :: "bytes \<Rightarrow> Movement res" where
  "DecodeMovement payload =
     rbind (or_fail (PacketID payload) ErrPlayMalformed) (\<lambda>(packet_id, body).
     rbind (guard (packet_id = ServerboundPositionID \<or> packet_id = ServerboundPositionLookID)
       ErrPlayMalformed) (\<lambda>_.
     rbind (guard (\<not> (packet_id = ServerboundPositionID \<and> length body \<noteq> 25)) ErrPlayMalformed) (\<lambda>_.
     rbind (guard (\<not> (packet_id = ServerboundPositionLookID \<and> length body \<noteq> 33)) ErrPlayMalformed) (\<lambda>_.
     rbind (float64_at body 0) (\<lambda>x.
     rbind (float64_at body 8) (\<lambda>y.
     rbind (float64_at body 16) (\<lambda>z.
     let hasLook = (packet_id = ServerboundPositionLookID) in
     rbind (if hasLook
            then rbind (float32_at body 24) (\<lambda>yaw. rbind (float32_at body 28) (\<lambda>pitch.
                 Ok (yaw, pitch, 32)))
            else Ok (0, 0, 24)) (\<lambda>(yaw, pitch, onGroundOffset).
     rbind (index body onGroundOffset) (\<lambda>ground.
     if ground > 1 \<or> \<not> finite64 x \<or> \<not> finite64 y \<or> \<not> finite64 z \<or> \<not> finite32 yaw \<or> \<not> finite32 pitch
     then Fail ErrPlayMalformed
     else Ok \<lparr>mv_X = x, mv_Y = y, mv_Z = z, mv_Yaw = yaw, mv_Pitch = pitch,
              mv_OnGround = (ground = 1), mv_HasLook = hasLook\<rparr>)))))))))"

definition ParseMovement :: "bytes \<Rightarrow> unit res" where
  "ParseMovement payload = rbind (DecodeMovement payload) (\<lambda>_. Ok ())"

section \<open>Round trips\<close>

lemma appendBool_eq: "appendBool dst b = dst @ [of_bool b]"
  by (simp add: appendBool_def)

lemmas play_appends = appendBool_eq appendInt32_def appendFloat32_def appendFloat64_def

lemma float_at_append:
  "i = length xs \<Longrightarrow> float64_at (xs @ PutUint64 v @ ys) i = Ok v"
  "i = length xs \<Longrightarrow> float32_at (xs @ PutUint32 w @ ys) i = Ok w"
  by (simp_all add: float64_at_def float32_at_def)

lemma DecodeMovement_position:
  assumes "finite64 x" "finite64 y" "finite64 z"
  shows "DecodeMovement (ServerboundPositionPayload x y z g) =
    Ok \<lparr>mv_X = x, mv_Y = y, mv_Z = z, mv_Yaw = 0, mv_Pitch = 0, mv_OnGround = g, mv_HasLook = False\<rparr>"
proof -
  let ?body = "PutUint64 x @ PutUint64 y @ PutUint64 z @ [of_bool g]"
  have "float64_at ?body 0 = Ok x" "float64_at ?body 8 = Ok y" "float64_at ?body 16 = Ok z"
    "index ?body 24 = Ok (of_bool g)"
    using float_at_append(1) [of 0 "[]" x "PutUint64 y @ PutUint64 z @ [of_bool g]"]
      float_at_append(1) [of 8 "PutUint64 x" y "PutUint64 z @ [of_bool g]"]
      float_at_append(1) [of 16 "PutUint64 x @ PutUint64 y" z "[of_bool g]"]
      index_append [of 24 "PutUint64 x @ PutUint64 y @ PutUint64 z" "of_bool g" "[]"]
    by simp_all
  then show ?thesis
    using assms
    by (simp add: DecodeMovement_def ServerboundPositionPayload_def play_appends play_ids finite32_def)
qed

lemma DecodeMovement_position_look:
  assumes "finite64 x" "finite64 y" "finite64 z" "finite32 yaw" "finite32 pitch"
  shows "DecodeMovement (ServerboundPositionLookPayload x y z yaw pitch g) =
    Ok \<lparr>mv_X = x, mv_Y = y, mv_Z = z, mv_Yaw = yaw, mv_Pitch = pitch, mv_OnGround = g, mv_HasLook = True\<rparr>"
proof -
  let ?body = "PutUint64 x @ PutUint64 y @ PutUint64 z @ PutUint32 yaw @ PutUint32 pitch @ [of_bool g]"
  have "float64_at ?body 0 = Ok x" "float64_at ?body 8 = Ok y" "float64_at ?body 16 = Ok z"
    "float32_at ?body 24 = Ok yaw" "float32_at ?body 28 = Ok pitch" "index ?body 32 = Ok (of_bool g)"
    using float_at_append(1) [of 0 "[]" x]
      float_at_append(1) [of 8 "PutUint64 x" y]
      float_at_append(1) [of 16 "PutUint64 x @ PutUint64 y" z]
      float_at_append(2) [of 24 "PutUint64 x @ PutUint64 y @ PutUint64 z" yaw]
      float_at_append(2) [of 28 "PutUint64 x @ PutUint64 y @ PutUint64 z @ PutUint32 yaw" pitch]
      index_append [of 32 "PutUint64 x @ PutUint64 y @ PutUint64 z @ PutUint32 yaw @ PutUint32 pitch"
        "of_bool g" "[]"]
    by simp_all
  then show ?thesis
    using assms
    by (simp add: DecodeMovement_def ServerboundPositionLookPayload_def play_appends play_ids)
qed

lemma consume_values_append:
  "consume_values (length vs) (concat (map varint vs) @ rest) = Ok (vs, rest)"
  by (induction vs) auto

lemma ParsePlayerCommand_roundtrip:
  assumes "0 \<le> sint e" "0 \<le> sint a" "sint a \<le> 8" "0 \<le> sint d"
  shows "ParsePlayerCommand (PlayerCommandPayload e a d) =
    Ok \<lparr>EntityID = e, ActionID = a, CommandData = d\<rparr>"
  using assms consume_values_append [of "[e, a, d]" "[]"]
  by (simp add: ParsePlayerCommand_def PlayerCommandPayload_def numeral_3_eq_3)

section \<open>Parsers never panic and accept only what the protocol allows\<close>

lemma consume_values_no_panic [simp, no_panic]: "consume_values n body \<noteq> Panic"
proof (induction n arbitrary: body)
  case (Suc n)
  then show ?case using ConsumeVarInt_bound by (fastforce simp: res_iff split: prod.splits)
qed simp

lemma length_consume_values: "consume_values n body = Ok (vs, rest) \<Longrightarrow> length vs = n"
  by (induction n arbitrary: body vs rest) (auto simp: res_iff split: prod.splits)

lemma float_at_Ok:
  "i + 8 \<le> length body \<Longrightarrow> \<exists>v. float64_at body i = Ok v"
  "i + 4 \<le> length body \<Longrightarrow> \<exists>w. float32_at body i = Ok w"
  by (auto simp: float64_at_def float32_at_def Uint64_def Uint32_def)

lemma DecodeMovement_no_panic [simp, no_panic]: "DecodeMovement payload \<noteq> Panic"
proof
  assume panic: "DecodeMovement payload = Panic"
  obtain packet_id body where p: "PacketID payload = Ok (packet_id, body)"
    using panic by (cases "PacketID payload") (auto simp: DecodeMovement_def)
  have ids: "packet_id = 0x17 \<and> length body = 25 \<or> packet_id = 0x18 \<and> length body = 33"
    using panic p by (auto simp: DecodeMovement_def play_ids guard_def split: if_splits)
  then obtain x y z where "float64_at body 0 = Ok x" "float64_at body 8 = Ok y" "float64_at body 16 = Ok z"
    using float_at_Ok(1) [of 0 body] float_at_Ok(1) [of 8 body] float_at_Ok(1) [of 16 body] by auto
  moreover have "packet_id = 0x18 \<Longrightarrow> \<exists>v w. float32_at body 24 = Ok v \<and> float32_at body 28 = Ok w"
    using ids float_at_Ok(2) [of 24 body] float_at_Ok(2) [of 28 body] by auto
  ultimately show False
    using panic p ids by (auto simp: DecodeMovement_def play_ids Let_def split: if_splits)
qed

lemma DecodeMovement_Ok:
  assumes "DecodeMovement payload = Ok m"
  shows "finite64 (mv_X m)" "finite64 (mv_Y m)" "finite64 (mv_Z m)" "finite32 (mv_Yaw m)"
    "finite32 (mv_Pitch m)" "\<not> mv_HasLook m \<Longrightarrow> mv_Yaw m = 0 \<and> mv_Pitch m = 0"
  using assms by (auto simp: DecodeMovement_def res_iff Let_def split: if_splits)

lemma DecodeMovement_Fail: "DecodeMovement payload = Fail e \<Longrightarrow> e = ErrPlayMalformed"
  by (auto simp: DecodeMovement_def res_iff Let_def float64_at_def float32_at_def split: if_splits)

lemma ParsePlayerCommand_Ok:
  assumes "ParsePlayerCommand payload = Ok c"
  shows "0 \<le> sint (EntityID c)" "0 \<le> sint (ActionID c)" "sint (ActionID c) \<le> 8" "0 \<le> sint (CommandData c)"
  using assms by (auto simp: ParsePlayerCommand_def res_iff split: if_splits)

lemma play_no_panic [simp, no_panic]:
  "ParsePlayerCommand payload \<noteq> Panic" "ParseTeleportConfirm payload \<noteq> Panic"
  "ParseKeepAlive payload \<noteq> Panic" "ParseMovement payload \<noteq> Panic"
  "ParseConfigurationAcknowledged payload \<noteq> Panic"
  by (auto simp: ParsePlayerCommand_def ParseTeleportConfirm_def ParseKeepAlive_def ParseMovement_def
      ParseConfigurationAcknowledged_def res_iff split: prod.splits if_splits)

section \<open>Packed positions\<close>

text \<open>
  How a client reads the position word: 26 bits of \<open>x\<close>, 26 bits of \<open>z\<close> and 12 bits of
  \<open>y\<close>, each in two's complement.
\<close>

definition unpack_position :: "uint64 \<Rightarrow> int \<times> int \<times> int" where
  "unpack_position p =
     (signed_take_bit 25 (uint (drop_bit 38 p)), signed_take_bit 11 (uint p),
      signed_take_bit 25 (uint (drop_bit 12 p)))"

lemma position_masks:
  "(0x3ffffff :: uint32) = mask 26" "(0xfff :: uint32) = mask 12"
  by (simp_all add: mask_eq_exp_minus_1)

lemma bit_packed_position:
  "bit (packed_position x y z) n \<longleftrightarrow> n < 64 \<and>
     (if n < 12 then bit y n else if n < 38 then bit z (n - 12) else bit x (n - 38))"
  unfolding packed_position_def position_masks
  by (auto simp: bit_simps dest: bit_imp_le_length)

lemma signed_take_bit_sint:
  fixes v :: "'a::len word" and w :: "'b::len word"
  assumes "\<And>m. m \<le> n \<Longrightarrow> bit w m \<longleftrightarrow> bit v m" "n < LENGTH('a)" "- (2 ^ n) \<le> sint v" "sint v < 2 ^ n"
  shows "signed_take_bit n (uint w) = sint v"
proof -
  have "signed_take_bit n (uint w) = signed_take_bit n (sint v)"
  proof (rule bit_eqI)
    fix m
    have "min m n < LENGTH('a)" "bit w (min m n) \<longleftrightarrow> bit v (min m n)"
      using assms(1,2) by (simp_all add: min_less_iff_disj)
    then show "bit (signed_take_bit n (uint w)) m \<longleftrightarrow> bit (signed_take_bit n (sint v)) m"
      by (auto simp: bit_signed_take_bit_iff bit_uint_iff bit_sint_iff min.commute [of m] dest: bit_imp_le_length)
  qed
  then show ?thesis using assms by (simp add: signed_take_bit_int_eq_self)
qed

lemma unpack_packed_position:
  assumes "- (2 ^ 25) \<le> sint x" "sint x < 2 ^ 25" "- (2 ^ 11) \<le> sint y" "sint y < 2 ^ 11"
    "- (2 ^ 25) \<le> sint z" "sint z < 2 ^ 25"
  shows "unpack_position (packed_position x y z) = (sint x, sint y, sint z)"
  unfolding unpack_position_def prod.inject
proof (intro conjI)
  show "signed_take_bit 25 (uint (drop_bit 38 (packed_position x y z))) = sint x"
    using assms(1,2) by (intro signed_take_bit_sint) (auto simp: bit_drop_bit_eq bit_packed_position)
  show "signed_take_bit 11 (uint (packed_position x y z)) = sint y"
    using assms(3,4) by (intro signed_take_bit_sint) (auto simp: bit_packed_position)
  show "signed_take_bit 25 (uint (drop_bit 12 (packed_position x y z))) = sint z"
    using assms(5,6) by (intro signed_take_bit_sint) (auto simp: bit_drop_bit_eq bit_packed_position)
qed

section \<open>Action bar and chunks\<close>

text \<open>
  The 64 KiB limit of the action bar keeps the text below the 16-bit length of an NBT
  string, so that length never wraps.
\<close>

lemma ActionBarPayload_cases:
  "ActionBarPayload text =
     (if length text \<le> 65525 then Ok (0x4A # 10 # encodePayload (nbt_String NewCompound ''text'' text))
      else Fail ErrNBTTooLarge)"
  by (auto simp: ActionBarPayload_def nbt_Encode_cases play_ids varint_last encodePayload_def
      nbt_String_def nbt_add_def NewCompound_def field_bytes_def appendStringPayload_def)

lemma ActionBarPayload_decodes:
  assumes "ActionBarPayload text = Ok payload"
  shows "dec_doc (length payload) (drop 2 payload) = Some ([(''text'', TString text)], [])"
proof -
  have short: "length text < 2 ^ 16" and p: "payload = 0x4A # 10 # enc_doc [(''text'', TString text)]"
    using assms represents_encodePayload [OF represents_ops(7) [OF represents_ops(1)]]
    by (auto simp: ActionBarPayload_cases split: if_splits)
  have "wf_doc [(''text'', TString text)]" using short by (simp add: wf_doc_def)
  from dec_enc_nbt(2) [OF this, of "length payload" "[]"] show ?thesis
    by (simp add: p)
qed

lemma length_VoidChunkPayload: "length (VoidChunkPayload x z) = 228"
  by (simp add: VoidChunkPayload_def overworldSectionCount_def play_ids play_appends appendLightMask_def
      varint_last varint_more length_concat sum_list_replicate)

end
