(* ===== verification/Forwarding.thy ===== *)
theory Forwarding
  imports Frame
begin

text \<open>
  Velocity modern forwarding, \<open>internal/forwarding/velocity.go\<close>. HMAC-SHA-256 is the
  parameter \<open>hmac_sha256\<close> (key, message). The contract is the receiver's side of the
  protocol: a backend that holds the same secret accepts the response and reads back
  exactly the identity that was signed.
\<close>

section \<open>Definitions\<close>

definition VelocityChannel :: string where
  "VelocityChannel = ''velocity:player_info''"

definition ModernVersion :: int32 where
  "ModernVersion = 1"

record fwd_Property =
  Name :: string
  Value :: string
  Signature :: string

record PlayerIdentity =
  Address :: string
  UUID :: bytes
  Username :: string
  Properties :: "fwd_Property list"

record ModernForwarding =
  secret :: bytes

definition NewModernForwarding :: "bytes \<Rightarrow> ModernForwarding res" where
  "NewModernForwarding key = (if length key = 0 then Fail ErrEmptySecret else Ok \<lparr>secret = key\<rparr>)"

fun append_identity_properties :: "bytes \<Rightarrow> fwd_Property list \<Rightarrow> bytes" where
  "append_identity_properties payload [] = payload"
| "append_identity_properties payload (property # properties) =
     (let payload = AppendString payload (Name property);
          payload = AppendString payload (Value property)
      in if Signature property = '''' then append_identity_properties (payload @ [0]) properties
         else append_identity_properties (AppendString (payload @ [1]) (Signature property)) properties)"

definition BuildResponse ::
    "(bytes \<Rightarrow> bytes \<Rightarrow> bytes) \<Rightarrow> ModernForwarding \<Rightarrow> PlayerIdentity \<Rightarrow> bytes res" where
  "BuildResponse hmac_sha256 f identity =
     (if Address identity = '''' \<or> Username identity = '''' then Fail ErrInvalidIdentity
      else
        (let payload = AppendVarInt [] ModernVersion;
             payload = AppendString payload (Address identity);
             payload = payload @ UUID identity;
             payload = AppendString payload (Username identity);
             payload = AppendVarInt payload (of_nat (length (Properties identity)));
             payload = append_identity_properties payload (Properties identity)
         in Ok (hmac_sha256 (secret f) payload @ payload)))"

section \<open>The receiver\<close>

definition take_string :: "bytes \<Rightarrow> (string \<times> bytes) res" where
  "take_string data = rbind (ConsumeString data 32767) (\<lambda>(s, n). Ok (s, drop n data))"

fun take_properties :: "nat \<Rightarrow> bytes \<Rightarrow> (fwd_Property list \<times> bytes) res" where
  "take_properties 0 data = Ok ([], data)"
| "take_properties (Suc n) data =
     rbind (take_string data) (\<lambda>(name, data).
     rbind (take_string data) (\<lambda>(val, data).
     rbind (case data of
              [] \<Rightarrow> Fail ErrUnexpectedEOF
            | flag # data \<Rightarrow> if flag = 0 then Ok ('''', data) else take_string data) (\<lambda>(sig, data).
     rbind (take_properties n data) (\<lambda>(ps, data).
     Ok (\<lparr>Name = name, Value = val, Signature = sig\<rparr> # ps, data)))))"

definition receive :: "(bytes \<Rightarrow> bytes \<Rightarrow> bytes) \<Rightarrow> bytes \<Rightarrow> bytes \<Rightarrow> PlayerIdentity res" where
  "receive hmac_sha256 key response =
     (let payload = drop 32 response in
      if hmac_sha256 key payload \<noteq> take 32 response then Fail ErrInvalidIdentity
      else
      rbind (ConsumeVarInt payload) (\<lambda>(version, n).
      if version \<noteq> ModernVersion then Fail ErrInvalidIdentity
      else
      rbind (take_string (drop n payload)) (\<lambda>(addr, data).
      let uuid = take 16 data; data = drop 16 data in
      rbind (take_string data) (\<lambda>(user, data).
      rbind (ConsumeVarInt data) (\<lambda>(count, n).
      rbind (take_properties (unat count) (drop n data)) (\<lambda>(ps, data).
      if data \<noteq> [] then Fail ErrInvalidIdentity
      else Ok \<lparr>Address = addr, UUID = uuid, Username = user, Properties = ps\<rparr>))))))"

text \<open>Identities whose strings fit the protocol's string limit.\<close>

definition property_fits :: "fwd_Property \<Rightarrow> bool" where
  "property_fits p \<longleftrightarrow> string_fits 32767 (Name p) \<and> string_fits 32767 (Value p) \<and>
     string_fits 32767 (Signature p)"

definition identity_fits :: "PlayerIdentity \<Rightarrow> bool" where
  "identity_fits i \<longleftrightarrow> Address i \<noteq> '''' \<and> Username i \<noteq> '''' \<and> length (UUID i) = 16 \<and>
     string_fits 32767 (Address i) \<and> string_fits 32767 (Username i) \<and>
     list_all property_fits (Properties i) \<and> length (Properties i) < 2 ^ 31"

section \<open>The receiver reads the identity back\<close>

fun identity_property_bytes :: "fwd_Property list \<Rightarrow> bytes" where
  "identity_property_bytes [] = []"
| "identity_property_bytes (p # ps) = mcstring (Name p) @ mcstring (Value p) @
     (if Signature p = '''' then [0] else [1] @ mcstring (Signature p)) @ identity_property_bytes ps"

lemma append_identity_properties_eq [simp]:
  "append_identity_properties payload ps = payload @ identity_property_bytes ps"
  by (induction ps arbitrary: payload) (simp_all add: Let_def)

lemma take_string_append [simp]: "string_fits 32767 s \<Longrightarrow> take_string (mcstring s @ rest) = Ok (s, rest)"
  by (simp add: take_string_def)

lemma take_properties_append:
  "list_all property_fits ps \<Longrightarrow>
     take_properties (length ps) (identity_property_bytes ps @ rest) = Ok (ps, rest)"
  by (induction ps) (auto simp: property_fits_def)

lemma unat_of_nat_int32: "n < 2 ^ 31 \<Longrightarrow> unat (of_nat n :: int32) = n"
  by (simp add: unat_of_nat take_bit_nat_eq_self)

definition identity_payload :: "PlayerIdentity \<Rightarrow> bytes" where
  "identity_payload i = varint ModernVersion @ mcstring (Address i) @ UUID i @ mcstring (Username i) @
     varint (of_nat (length (Properties i))) @ identity_property_bytes (Properties i)"

lemma BuildResponse_eq:
  "BuildResponse h f i =
     (if Address i = '''' \<or> Username i = '''' then Fail ErrInvalidIdentity
      else Ok (h (secret f) (identity_payload i) @ identity_payload i))"
  by (simp add: BuildResponse_def identity_payload_def Let_def)

lemma receive_BuildResponse:
  assumes "\<And>k m. length (hmac_sha256 k m) = 32" "identity_fits i"
  shows "\<exists>response. BuildResponse hmac_sha256 f i = Ok response \<and>
           receive hmac_sha256 (secret f) response = Ok i"
proof -
  have "receive hmac_sha256 (secret f) (hmac_sha256 (secret f) (identity_payload i) @ identity_payload i) = Ok i"
    using assms take_properties_append [of "Properties i" "[]"]
    by (simp add: receive_def identity_payload_def identity_fits_def unat_of_nat_int32)
  then show ?thesis using assms(2) by (auto simp: BuildResponse_eq identity_fits_def)
qed

section \<open>Properties\<close>

text \<open>
  C19: forwarding carries the player's identity. The response is built unless the address or the name
  is empty. A receiver that holds the secret and follows Velocity's modern forwarding (check the signature over the
  rest of the message, then read version, address, identifier, name and properties to the end) accepts it
  and reads exactly the identity that was sent, whatever its properties are and whichever of them
  are signed. The signature function is a parameter with values of 32 bytes.
\<close>

theorem forwarding_received:
  assumes "\<And>k m. length (hmac_sha256 k m) = 32" "identity_fits i"
  shows "(\<exists>response. BuildResponse hmac_sha256 f i = Ok response \<and> receive hmac_sha256 (secret f) response = Ok i) \<and>
    (\<forall>j. (BuildResponse hmac_sha256 f j = Fail ErrInvalidIdentity \<longleftrightarrow> Address j = '''' \<or> Username j = '''') \<and>
      BuildResponse hmac_sha256 f j \<noteq> Panic)"
proof (intro conjI allI)
  show "\<exists>response. BuildResponse hmac_sha256 f i = Ok response \<and> receive hmac_sha256 (secret f) response = Ok i"
    by (rule receive_BuildResponse [OF assms])
qed (simp_all add: BuildResponse_eq)

definition sample_player :: PlayerIdentity where
  "sample_player = \<lparr>Address = ''10.0.0.1'', UUID = replicate 16 7, Username = ''Bob'',
     Properties = [\<lparr>Name = ''textures'', Value = ''v'', Signature = ''s''\<rparr>, \<lparr>Name = ''n'', Value = ''w'', Signature = ''''\<rparr>]\<rparr>"

lemma string_fits_ascii:
  assumes "\<forall>b \<in> set (bytes_of s). b < 0x80" "length s < 32767" shows "string_fits 32767 s"
  using assms utf8_ascii [OF assms(1)] by (simp add: string_fits_def)

theorem forwarding_received_witness:
  "\<exists>response. BuildResponse (\<lambda>k m. replicate 32 1) \<lparr>secret = [1]\<rparr> sample_player = Ok response \<and>
     receive (\<lambda>k m. replicate 32 1) [1] response = Ok sample_player"
proof -
  have "identity_fits sample_player"
    by (simp add: identity_fits_def sample_player_def property_fits_def string_fits_ascii bytes_of_def byte_of_char_def)
  moreover have "length (replicate 32 1 :: bytes) = 32" by simp
  ultimately have "\<exists>response. BuildResponse (\<lambda>k m. replicate 32 1) \<lparr>secret = [1]\<rparr> sample_player = Ok response \<and>
      receive (\<lambda>k m. replicate 32 1) (secret \<lparr>secret = [1]\<rparr>) response = Ok sample_player"
    by (intro forwarding_received [THEN conjunct1])
  then show ?thesis by (simp only: ModernForwarding.select_convs)
qed

end
