(* ===== verification/Machines.thy ===== *)
theory Machines
  imports Prelude
begin

text \<open>
  State machines. A component's operations form a step relation between states, labelled
  with the call and its outcome; \<open>runs\<close> is its closure over sequences of calls. The
  locales state the two contracts the components rely on: an invariant kept by every
  step, and a simulation of an abstract machine.
\<close>

inductive runs :: "('s \<Rightarrow> 'e \<Rightarrow> 's \<Rightarrow> bool) \<Rightarrow> 's \<Rightarrow> 'e list \<Rightarrow> 's \<Rightarrow> bool"
  for step where
  runs_Nil: "runs step s [] s"
| runs_snoc: "runs step s es t \<Longrightarrow> step t e u \<Longrightarrow> runs step s (es @ [e]) u"

inductive_simps runs_Nil_iff [simp]: "runs step s [] t"
inductive_cases runs_snocE: "runs step s (es @ [e]) u"

lemma runs_single: "step s e t \<Longrightarrow> runs step s [e] t"
  using runs_snoc [OF runs_Nil, of step s e t] by simp

lemma runs_append: "runs step t fs u \<Longrightarrow> runs step s es t \<Longrightarrow> runs step s (es @ fs) u"
proof (induction rule: runs.induct)
  case (runs_snoc t fs u e v)
  then show ?case using runs.runs_snoc [of step s "es @ fs"] by simp
qed simp

lemma runs_Cons: "step s e t \<Longrightarrow> runs step t es u \<Longrightarrow> runs step s (e # es) u"
  using runs_append [of step t es u s "[e]"] runs_single by fastforce

lemma runs_snocD: "runs step s (es @ [e]) u \<Longrightarrow> \<exists>t. runs step s es t \<and> step t e u"
  by (erule runs_snocE) auto

lemma runs_ConsD: "runs step s (e # es) u \<Longrightarrow> \<exists>t. step s e t \<and> runs step t es u"
proof (induction es arbitrary: u rule: rev_induct)
  case Nil
  then show ?case using runs_snocD [of step s "[]" e u] by simp
next
  case (snoc f es)
  then obtain v where "runs step s (e # es) v" "step v f u"
    using runs_snocD [of step s "e # es" f u] by auto
  then show ?case using snoc.IH runs_snoc by metis
qed

lemma runs_Cons_iff: "runs step s (e # es) u \<longleftrightarrow> (\<exists>t. step s e t \<and> runs step t es u)"
  using runs_Cons runs_ConsD by metis

section \<open>Invariants\<close>

locale invariant =
  fixes start :: "'s \<Rightarrow> bool"
    and step :: "'s \<Rightarrow> 'e \<Rightarrow> 's \<Rightarrow> bool"
    and inv :: "'s \<Rightarrow> bool"
  assumes inv_start: "start s \<Longrightarrow> inv s"
    and inv_step: "inv s \<Longrightarrow> step s e t \<Longrightarrow> inv t"
begin

lemma inv_runs: "runs step s es t \<Longrightarrow> inv s \<Longrightarrow> inv t"
  by (induction rule: runs.induct) (auto intro: inv_step)

lemma inv_reachable: "start s \<Longrightarrow> runs step s es t \<Longrightarrow> inv t"
  using inv_runs inv_start by blast

end

section \<open>Simulation\<close>

text \<open>
  A concrete machine simulates an abstract one when every concrete step is, through the
  abstraction function and on states that satisfy the invariant, an abstract step with the
  same label.
\<close>

locale simulation = invariant +
  fixes abs :: "'s \<Rightarrow> 'a"
    and astep :: "'a \<Rightarrow> 'e \<Rightarrow> 'a \<Rightarrow> bool"
  assumes sim_step: "inv s \<Longrightarrow> step s e t \<Longrightarrow> astep (abs s) e (abs t)"
begin

lemma sim_runs: "runs step s es t \<Longrightarrow> inv s \<Longrightarrow> runs astep (abs s) es (abs t)"
proof (induction rule: runs.induct)
  case (runs_snoc s es t e u)
  then have "inv t" using inv_runs by blast
  then show ?case using runs_snoc sim_step by (blast intro: runs.runs_snoc)
qed (simp add: runs.runs_Nil)

end

end
