(* ===== verification/Session.thy ===== *)
theory Session
  imports Machines Play
begin

text \<open>
  The player session of \<open>internal/session\<close>: the connection state machine of
  \<open>state.go\<close>, the transfer barrier of \<open>barrier.go\<close>, and the session of \<open>session.go\<close> that
  owns both. Every method runs under the session's mutex, so a concurrent execution is a
  sequence of calls; \<open>session_step\<close> is that sequence's step relation.

  The theorems show which calls reach which state, that the barrier keeps its bounds, that
  each keepalive is consumed once, and that the replay released to the backend is the
  specification of the inputs received while the barrier was up.
\<close>

section \<open>Connection states\<close>

datatype State =
    StateHandshake | StateLogin | StateConfiguration | StateLimboPlay | StateTransferBarrier
  | StateBackendLogin | StateBackendConfiguration | StateBackendPlay | StateClosing
  | StateUnknown byte

fun State_String :: "State \<Rightarrow> string" where
  "State_String StateHandshake = ''handshake''"
| "State_String StateLogin = ''login''"
| "State_String StateConfiguration = ''configuration''"
| "State_String StateLimboPlay = ''limbo_play''"
| "State_String StateTransferBarrier = ''transfer_barrier''"
| "State_String StateBackendLogin = ''backend_login''"
| "State_String StateBackendConfiguration = ''backend_configuration''"
| "State_String StateBackendPlay = ''backend_play''"
| "State_String StateClosing = ''closing''"
| "State_String (StateUnknown s) = ''unknown('' @ show_nat (unat s) @ '')''"

definition canTransition :: "State \<Rightarrow> State \<Rightarrow> bool" where
  "canTransition src dst =
     (if dst = StateClosing then src \<noteq> StateClosing
      else
        (case src of
           StateHandshake \<Rightarrow> dst = StateLogin
         | StateLogin \<Rightarrow> dst = StateConfiguration
         | StateConfiguration \<Rightarrow> dst = StateLimboPlay
         | StateLimboPlay \<Rightarrow> dst = StateTransferBarrier
         | StateTransferBarrier \<Rightarrow> dst = StateBackendLogin \<or> dst = StateLimboPlay
         | StateBackendLogin \<Rightarrow> dst = StateBackendConfiguration \<or> dst = StateLimboPlay
         | StateBackendConfiguration \<Rightarrow> dst = StateBackendPlay \<or> dst = StateLimboPlay
         | StateBackendPlay \<Rightarrow> dst = StateTransferBarrier
         | _ \<Rightarrow> False))"

section \<open>The transfer barrier\<close>

type_synonym BarrierPhase = byte

definition BarrierDraining :: BarrierPhase where "BarrierDraining = 0"
definition BarrierBackendLogin :: BarrierPhase where "BarrierBackendLogin = 1"
definition BarrierBackendConfiguration :: BarrierPhase where "BarrierBackendConfiguration = 2"
definition BarrierAwaitingClientConfigurationStart :: BarrierPhase where
  "BarrierAwaitingClientConfigurationStart = 3"
definition BarrierClientConfiguration :: BarrierPhase where "BarrierClientConfiguration = 4"
definition BarrierAwaitingClientConfigurationFinish :: BarrierPhase where
  "BarrierAwaitingClientConfigurationFinish = 5"
definition BarrierReady :: BarrierPhase where "BarrierReady = 6"

lemmas barrier_phases = BarrierDraining_def BarrierBackendLogin_def BarrierBackendConfiguration_def
  BarrierAwaitingClientConfigurationStart_def BarrierClientConfiguration_def
  BarrierAwaitingClientConfigurationFinish_def BarrierReady_def

datatype InputKind = InputKeepAlive | InputMovement | InputPlayerCommand | InputUnsafe
datatype InputDisposition = InputConsumed | InputCoalesced | InputQueued | InputDropped

record Position =
  pos_X :: float64
  pos_Y :: float64
  pos_Z :: float64
  pos_Yaw :: float32
  pos_Pitch :: float32
  pos_OnGround :: bool

definition zero_Position :: Position where
  "zero_Position = \<lparr>pos_X = 0, pos_Y = 0, pos_Z = 0, pos_Yaw = 0, pos_Pitch = 0, pos_OnGround = False\<rparr>"

record Input =
  Kind :: InputKind
  KeepAliveID :: int64
  in_Position :: Position
  HasLook :: bool
  Command :: PlayerCommand

record Replay =
  rp_Position :: "Position option"
  rp_Commands :: "PlayerCommand list"

record barrierState =
  startedAt :: time
  phase :: BarrierPhase
  limboKeepAlives :: "int64 set"
  latestPosition :: Position
  hasPosition :: bool
  commands :: "PlayerCommand list"
  maxCommands :: int

definition newBarrier :: "time \<Rightarrow> int64 list \<Rightarrow> int \<Rightarrow> barrierState" where
  "newBarrier now keepAliveIDs limit =
     (let limit = (if limit < 0 then 0 else limit);
          keepAlives = foldl (\<lambda>m i. insert i m) {} keepAliveIDs
      in \<lparr>startedAt = now, phase = BarrierDraining, limboKeepAlives = keepAlives,
          latestPosition = zero_Position, hasPosition = False, commands = [],
          maxCommands = limit\<rparr>)"

definition barrier_handle ::
    "barrierState \<Rightarrow> Input \<Rightarrow> (InputDisposition \<times> err option) \<times> barrierState" where
  "barrier_handle b input =
     (case Kind input of
        InputKeepAlive \<Rightarrow>
          if KeepAliveID input \<notin> limboKeepAlives b
          then ((InputDropped, Some ErrUnexpectedKeepAlive), b)
          else ((InputConsumed, None), b\<lparr>limboKeepAlives := limboKeepAlives b - {KeepAliveID input}\<rparr>)
      | InputMovement \<Rightarrow>
          let position = in_Position input;
              position = (if \<not> HasLook input \<and> hasPosition b
                          then position\<lparr>pos_Yaw := pos_Yaw (latestPosition b),
                                         pos_Pitch := pos_Pitch (latestPosition b)\<rparr>
                          else position)
          in ((InputCoalesced, None), b\<lparr>latestPosition := position, hasPosition := True\<rparr>)
      | InputPlayerCommand \<Rightarrow>
          if int (length (commands b)) \<ge> maxCommands b
          then ((InputDropped, Some ErrCommandQueueExhausted), b)
          else ((InputQueued, None), b\<lparr>commands := commands b @ [Command input]\<rparr>)
      | _ \<Rightarrow> ((InputDropped, None), b))"

definition barrier_replay :: "barrierState \<Rightarrow> Replay" where
  "barrier_replay b =
     \<lparr>rp_Position = (if hasPosition b then Some (latestPosition b) else None), rp_Commands = commands b\<rparr>"

section \<open>The session\<close>

record Session =
  state :: State
  barrier :: "barrierState option"

definition New_Session :: Session where
  "New_Session = \<lparr>state = StateHandshake, barrier = None\<rparr>"

definition transitionLocked :: "Session \<Rightarrow> State \<Rightarrow> unit res \<times> Session" where
  "transitionLocked s to =
     (if \<not> canTransition (state s) to
      then (Fail (InvalidTransitionError (State_String (state s)) (State_String to)), s)
      else
        let s = s\<lparr>state := to\<rparr>
        in (Ok (), if to = StateClosing then s\<lparr>barrier := None\<rparr> else s))"

definition Transition :: "Session \<Rightarrow> State \<Rightarrow> unit res \<times> Session" where
  "Transition s to = transitionLocked s to"

definition BeginTransfer :: "Session \<Rightarrow> time \<Rightarrow> int64 list \<Rightarrow> int \<Rightarrow> unit res \<times> Session" where
  "BeginTransfer s now limboKeepAliveIDs maxPendingCommands =
     (case transitionLocked s StateTransferBarrier of
        (Ok _, s) \<Rightarrow> (Ok (), s\<lparr>barrier := Some (newBarrier now limboKeepAliveIDs maxPendingCommands)\<rparr>)
      | (e, s) \<Rightarrow> (e, s))"

definition HandleBarrierInput :: "Session \<Rightarrow> Input \<Rightarrow> (InputDisposition \<times> err option) \<times> Session" where
  "HandleBarrierInput s input =
     (if state s \<noteq> StateTransferBarrier then ((InputDropped, Some ErrBarrierInactive), s)
      else
        (case barrier s of
           None \<Rightarrow> ((InputDropped, Some ErrBarrierInactive), s)
         | Some b \<Rightarrow> (case barrier_handle b input of (r, b) \<Rightarrow> (r, s\<lparr>barrier := Some b\<rparr>))))"

definition Session_BarrierPhase :: "Session \<Rightarrow> BarrierPhase res" where
  "Session_BarrierPhase s =
     (if state s \<noteq> StateTransferBarrier then Fail ErrBarrierInactive
      else (case barrier s of None \<Rightarrow> Fail ErrBarrierInactive | Some b \<Rightarrow> Ok (phase b)))"

definition AdvanceBarrier :: "Session \<Rightarrow> BarrierPhase \<Rightarrow> unit res \<times> Session" where
  "AdvanceBarrier s ph =
     (if state s \<noteq> StateTransferBarrier then (Fail ErrBarrierInactive, s)
      else
        (case barrier s of
           None \<Rightarrow> (Fail ErrBarrierInactive, s)
         | Some b \<Rightarrow>
             if ph \<noteq> phase b + 1 then (Fail ErrBarrierNotReady, s)
             else (Ok (), s\<lparr>barrier := Some (b\<lparr>phase := ph\<rparr>)\<rparr>)))"

definition ReleaseTransfer :: "Session \<Rightarrow> Replay res \<times> Session" where
  "ReleaseTransfer s =
     (if state s \<noteq> StateTransferBarrier then (Fail ErrBarrierInactive, s)
      else
        (case barrier s of
           None \<Rightarrow> (Fail ErrBarrierInactive, s)
         | Some b \<Rightarrow>
             if phase b \<noteq> BarrierReady then (Fail ErrBarrierNotReady, s)
             else (Ok (barrier_replay b), s\<lparr>state := StateBackendPlay, barrier := None\<rparr>)))"

definition RollbackTransfer :: "Session \<Rightarrow> unit res \<times> Session" where
  "RollbackTransfer s =
     (if state s \<noteq> StateTransferBarrier then (Fail ErrBarrierInactive, s)
      else
        (case barrier s of
           None \<Rightarrow> (Fail ErrBarrierInactive, s)
         | Some b \<Rightarrow> (Ok (), s\<lparr>state := StateLimboPlay, barrier := None\<rparr>)))"

section \<open>Sequences of calls\<close>

text \<open>A label is a call with its arguments and what it returned.\<close>

datatype session_call =
    CallTransition State "unit res"
  | CallBeginTransfer time "int64 list" int "unit res"
  | CallHandleInput Input InputDisposition "err option"
  | CallAdvance BarrierPhase "unit res"
  | CallRelease "Replay res"
  | CallRollback "unit res"

inductive session_step :: "Session \<Rightarrow> session_call \<Rightarrow> Session \<Rightarrow> bool" where
  "Transition s to = (r, t) \<Longrightarrow> session_step s (CallTransition to r) t"
| "BeginTransfer s now ids k = (r, t) \<Longrightarrow> session_step s (CallBeginTransfer now ids k r) t"
| "HandleBarrierInput s i = ((d, e), t) \<Longrightarrow> session_step s (CallHandleInput i d e) t"
| "AdvanceBarrier s ph = (r, t) \<Longrightarrow> session_step s (CallAdvance ph r) t"
| "ReleaseTransfer s = (r', t) \<Longrightarrow> session_step s (CallRelease r') t"
| "RollbackTransfer s = (r, t) \<Longrightarrow> session_step s (CallRollback r) t"

inductive_simps session_step_simps [simp]:
  "session_step s (CallTransition to r) t"
  "session_step s (CallBeginTransfer now ids k r) t"
  "session_step s (CallHandleInput i d e) t"
  "session_step s (CallAdvance ph r) t"
  "session_step s (CallRelease r') t"
  "session_step s (CallRollback r) t"

section \<open>The session invariant\<close>

definition barrier_inv :: "barrierState \<Rightarrow> bool" where
  "barrier_inv b \<longleftrightarrow> 0 \<le> maxCommands b \<and> int (length (commands b)) \<le> maxCommands b \<and>
     (\<not> hasPosition b \<longrightarrow> latestPosition b = zero_Position)"

definition session_inv :: "Session \<Rightarrow> bool" where
  "session_inv s \<longleftrightarrow> (state s = StateClosing \<longrightarrow> barrier s = None) \<and>
     (case barrier s of None \<Rightarrow> True | Some b \<Rightarrow> barrier_inv b)"

lemma barrier_inv_newBarrier: "barrier_inv (newBarrier now ids k)"
  by (simp add: barrier_inv_def newBarrier_def Let_def)

lemma barrier_inv_handle: "barrier_inv b \<Longrightarrow> barrier_inv (snd (barrier_handle b i))"
  by (auto simp: barrier_inv_def barrier_handle_def Let_def split: InputKind.splits)

text \<open>
  The contract of the session: which call moves the connection from which state to which.
  Only a call that succeeds moves it.
\<close>

fun state_moves :: "State \<Rightarrow> session_call \<Rightarrow> State \<Rightarrow> bool" where
  "state_moves a (CallTransition to (Ok _)) b = (canTransition a to \<and> b = to)"
| "state_moves a (CallBeginTransfer now ids k (Ok _)) b =
     (a \<in> {StateLimboPlay, StateBackendPlay} \<and> b = StateTransferBarrier)"
| "state_moves a (CallRelease (Ok _)) b = (a = StateTransferBarrier \<and> b = StateBackendPlay)"
| "state_moves a (CallRollback (Ok _)) b = (a = StateTransferBarrier \<and> b = StateLimboPlay)"
| "state_moves a _ b = (b = a)"

lemma canTransition_barrier:
  "canTransition a StateTransferBarrier \<longleftrightarrow> a \<in> {StateLimboPlay, StateBackendPlay}"
  by (cases a) (simp_all add: canTransition_def)

lemma session_inv_ops:
  assumes "session_inv s"
  shows "session_inv (snd (Transition s to))" "session_inv (snd (BeginTransfer s now ids k))"
    "session_inv (snd (HandleBarrierInput s i))" "session_inv (snd (AdvanceBarrier s ph))"
    "session_inv (snd (ReleaseTransfer s))" "session_inv (snd (RollbackTransfer s))"
proof -
  show "session_inv (snd (Transition s to))"
    using assms by (simp add: session_inv_def Transition_def transitionLocked_def Let_def)
  show "session_inv (snd (BeginTransfer s now ids k))"
    using assms by (simp add: session_inv_def BeginTransfer_def transitionLocked_def Let_def
        barrier_inv_newBarrier)
  show "session_inv (snd (HandleBarrierInput s i))"
    using assms by (cases "barrier s")
      (simp_all add: session_inv_def HandleBarrierInput_def barrier_inv_handle split_beta)
  show "session_inv (snd (AdvanceBarrier s ph))"
    using assms by (cases "barrier s") (simp_all add: session_inv_def AdvanceBarrier_def barrier_inv_def)
  show "session_inv (snd (ReleaseTransfer s))"
    using assms by (cases "barrier s") (simp_all add: session_inv_def ReleaseTransfer_def)
  show "session_inv (snd (RollbackTransfer s))"
    using assms by (cases "barrier s") (simp_all add: session_inv_def RollbackTransfer_def)
qed

lemma session_step_inv: "session_step s c t \<Longrightarrow> session_inv s \<Longrightarrow> session_inv t"
  by (induction rule: session_step.induct) (metis session_inv_ops snd_conv)+

lemma session_step_state: "session_step s c t \<Longrightarrow> state_moves (state s) c (state t)"
proof (induction rule: session_step.induct)
  case (1 s to r t)
  then show ?case by (cases r) (auto simp: Transition_def transitionLocked_def Let_def split: if_splits)
next
  case (2 s now ids k r t)
  then show ?case
    by (cases r) (auto simp: BeginTransfer_def transitionLocked_def Let_def canTransition_barrier
        split: if_splits)
next
  case (3 s i d e t)
  then show ?case by (auto simp: HandleBarrierInput_def split: if_splits option.splits prod.splits)
next
  case (4 s ph r t)
  then show ?case by (auto simp: AdvanceBarrier_def split: if_splits option.splits)
next
  case (5 s r t)
  then show ?case by (cases r) (auto simp: ReleaseTransfer_def split: if_splits option.splits)
next
  case (6 s r t)
  then show ?case by (cases r) (auto simp: RollbackTransfer_def split: if_splits option.splits)
qed

interpretation sess: simulation "\<lambda>s. s = New_Session" session_step session_inv state state_moves
proof
  fix s c t
  show "s = New_Session \<Longrightarrow> session_inv s" by (simp add: New_Session_def session_inv_def)
  show "session_inv s \<Longrightarrow> session_step s c t \<Longrightarrow> session_inv t" by (rule session_step_inv)
  show "session_step s c t \<Longrightarrow> state_moves (state s) c (state t)" by (rule session_step_state)
qed

section \<open>The order of the connection states\<close>

text \<open>
  The states a run passes through: every successful call that moves the connection, with the state
  it moves to.
\<close>

fun move_of :: "session_call \<Rightarrow> State list" where
  "move_of (CallTransition to (Ok _)) = [to]"
| "move_of (CallBeginTransfer now ids k (Ok _)) = [StateTransferBarrier]"
| "move_of (CallRelease (Ok _)) = [StateBackendPlay]"
| "move_of (CallRollback (Ok _)) = [StateLimboPlay]"
| "move_of _ = []"

definition itinerary :: "session_call list \<Rightarrow> State list" where
  "itinerary es = StateHandshake # concat (map move_of es)"

text \<open>Where a state may be entered from.\<close>

fun entered_from :: "State \<Rightarrow> State set" where
  "entered_from StateHandshake = {}"
| "entered_from StateLogin = {StateHandshake}"
| "entered_from StateConfiguration = {StateLogin}"
| "entered_from StateLimboPlay =
     {StateConfiguration, StateTransferBarrier, StateBackendLogin, StateBackendConfiguration}"
| "entered_from StateTransferBarrier = {StateLimboPlay, StateBackendPlay}"
| "entered_from StateBackendLogin = {StateTransferBarrier}"
| "entered_from StateBackendConfiguration = {StateBackendLogin}"
| "entered_from StateBackendPlay = {StateTransferBarrier, StateBackendConfiguration}"
| "entered_from StateClosing = - {StateClosing}"
| "entered_from (StateUnknown u) = {}"

definition journey :: "State list \<Rightarrow> bool" where
  "journey ss \<longleftrightarrow> ss \<noteq> [] \<and> hd ss = StateHandshake \<and> successively (\<lambda>a b. a \<in> entered_from b) ss"

lemma canTransition_entered: "canTransition a b \<Longrightarrow> a \<in> entered_from b"
  by (cases a; cases b) (simp_all add: canTransition_def)

lemma state_moves_move:
  assumes "state_moves a c b"
  shows "move_of c = [] \<and> b = a \<or> move_of c = [b] \<and> a \<in> entered_from b"
  using assms canTransition_entered by (cases "(a, c, b)" rule: state_moves.cases) auto

lemma itinerary_snoc: "itinerary (es @ [c]) = itinerary es @ move_of c"
  by (simp add: itinerary_def)

lemma journey_snoc: "journey ss \<Longrightarrow> last ss \<in> entered_from b \<Longrightarrow> journey (ss @ [b])"
  by (auto simp: journey_def successively_append_iff)

lemma itinerary_runs:
  "runs state_moves StateHandshake es b \<Longrightarrow> journey (itinerary es) \<and> last (itinerary es) = b"
proof (induction es arbitrary: b rule: rev_induct)
  case Nil
  then show ?case by (simp add: itinerary_def journey_def)
next
  case (snoc c es)
  obtain a where a: "runs state_moves StateHandshake es a" "state_moves a c b"
    using runs_snocD [OF snoc.prems] by blast
  with snoc.IH have IH: "journey (itinerary es)" "last (itinerary es) = a" by simp_all
  from state_moves_move [OF a(2)] show ?case
    using IH journey_snoc by (auto simp: itinerary_snoc)
qed

lemma session_itinerary:
  "runs session_step New_Session es t \<Longrightarrow> journey (itinerary es) \<and> last (itinerary es) = state t"
  using itinerary_runs sess.sim_runs [OF _ sess.inv_start [OF refl], of es t] by (simp add: New_Session_def)

text \<open>A connection enters play only along the whole way in, and leaves it only to close.\<close>

definition way_in :: "State list" where
  "way_in = [StateHandshake, StateLogin, StateConfiguration, StateLimboPlay, StateTransferBarrier]"

lemma entered_from_early:
  "StateHandshake \<in> entered_from b \<Longrightarrow> b = StateLogin \<or> b = StateClosing"
  "StateLogin \<in> entered_from b \<Longrightarrow> b = StateConfiguration \<or> b = StateClosing"
  "StateConfiguration \<in> entered_from b \<Longrightarrow> b = StateLimboPlay \<or> b = StateClosing"
  "StateLimboPlay \<in> entered_from b \<Longrightarrow> b = StateTransferBarrier \<or> b = StateClosing"
  "StateClosing \<notin> entered_from b"
  by (cases b; simp)+

lemma way_in_next:
  assumes ss: "ss = take (length ss) way_in" and n: "0 < length ss" "length ss < 5" and b: "last ss \<in> entered_from b"
  shows "b = StateClosing \<or> ss @ [b] = take (length ss + 1) way_in"
proof -
  consider "length ss = 1" | "length ss = 2" | "length ss = 3" | "length ss = 4" using n by arith
  then have "ss \<in> {[StateHandshake], [StateHandshake, StateLogin], [StateHandshake, StateLogin, StateConfiguration],
      [StateHandshake, StateLogin, StateConfiguration, StateLimboPlay]}"
    by cases (use ss in \<open>simp_all add: way_in_def eval_nat_numeral\<close>)
  then show ?thesis using b by (auto simp: way_in_def dest: entered_from_early(1-4))
qed

lemma journey_way_in:
  assumes "journey ss" shows "take (length ss) way_in = take 5 ss \<or> last ss = StateClosing"
  using assms
proof (induction ss rule: rev_induct)
  case (snoc b ss)
  show ?case
  proof (cases "ss = []")
    case True
    then show ?thesis using snoc.prems by (simp add: journey_def way_in_def)
  next
    case False
    then have j: "journey ss" "last ss \<in> entered_from b"
      using snoc.prems by (auto simp: journey_def successively_append_iff)
    then have IH: "take (length ss) way_in = take 5 ss" using snoc.IH entered_from_early(5) by auto
    show ?thesis
    proof (cases "length ss < 5")
      case True
      then have "take 5 (ss @ [b]) = ss @ [b]" by simp
      then show ?thesis using way_in_next [of ss b] IH True False j(2) by auto
    next
      case False
      then show ?thesis using IH by (simp add: way_in_def)
    qed
  qed
qed (simp add: journey_def)

lemma closing_final:
  assumes "state s = StateClosing" "session_inv s" "session_step s c t"
  shows "t = s"
  using assms(3,1,2)
proof (induction rule: session_step.induct)
  case (1 s to r t)
  then show ?case by (auto simp: Transition_def transitionLocked_def canTransition_def split: if_splits)
next
  case (2 s now ids k r t)
  then show ?case by (auto simp: BeginTransfer_def transitionLocked_def canTransition_def)
qed (auto simp: HandleBarrierInput_def AdvanceBarrier_def ReleaseTransfer_def RollbackTransfer_def)

section \<open>What the barrier releases\<close>

text \<open>
  The specification of a barrier, in terms of the inputs it received: the first commands
  up to the limit; the position of the last movement, facing where the last movement with a
  look faced (or, when none had one, the first movement); the keepalives not yet answered.
\<close>

definition movements :: "Input list \<Rightarrow> Input list" where
  "movements ins = filter (\<lambda>i. Kind i = InputMovement) ins"

definition facing :: "Input list \<Rightarrow> Position" where
  "facing ms = in_Position (if filter HasLook ms = [] then hd ms else last (filter HasLook ms))"

definition spec_position :: "Input list \<Rightarrow> Position option" where
  "spec_position ins =
     (let ms = movements ins in
      if ms = [] then None
      else Some ((in_Position (last ms))\<lparr>pos_Yaw := pos_Yaw (facing ms), pos_Pitch := pos_Pitch (facing ms)\<rparr>))"

definition spec_commands :: "int \<Rightarrow> Input list \<Rightarrow> PlayerCommand list" where
  "spec_commands k ins = take (nat k) (map Command (filter (\<lambda>i. Kind i = InputPlayerCommand) ins))"

definition answered :: "Input list \<Rightarrow> int64 set" where
  "answered ins = set (map KeepAliveID (filter (\<lambda>i. Kind i = InputKeepAlive) ins))"

definition spec_barrier :: "time \<Rightarrow> int64 list \<Rightarrow> int \<Rightarrow> nat \<Rightarrow> Input list \<Rightarrow> barrierState" where
  "spec_barrier now ids k advances ins =
     \<lparr>startedAt = now, phase = of_nat advances, limboKeepAlives = set ids - answered ins,
      latestPosition = (case spec_position ins of None \<Rightarrow> zero_Position | Some p \<Rightarrow> p),
      hasPosition = (movements ins \<noteq> []), commands = spec_commands k ins, maxCommands = max 0 k\<rparr>"

lemma facing_snoc:
  "facing (ms @ [i]) = (if HasLook i \<or> ms = [] then in_Position i else facing ms)"
  by (cases ms) (auto simp: facing_def)

lemma Position_facing: "p\<lparr>pos_Yaw := pos_Yaw p, pos_Pitch := pos_Pitch p\<rparr> = (p :: Position)"
  by simp

lemma spec_position_snoc:
  "spec_position (ins @ [i]) =
     (if Kind i \<noteq> InputMovement then spec_position ins
      else Some (case spec_position ins of
          None \<Rightarrow> in_Position i
        | Some q \<Rightarrow> if HasLook i then in_Position i
            else (in_Position i)\<lparr>pos_Yaw := pos_Yaw q, pos_Pitch := pos_Pitch q\<rparr>))"
  by (auto simp: spec_position_def movements_def facing_snoc Let_def)

lemma spec_commands_snoc:
  "spec_commands k (ins @ [i]) =
     (if Kind i = InputPlayerCommand \<and> int (length (spec_commands k ins)) < max 0 k
      then spec_commands k ins @ [Command i] else spec_commands k ins)"
  by (auto simp: spec_commands_def min_def)

lemma answered_snoc:
  "answered (ins @ [i]) = (if Kind i = InputKeepAlive then insert (KeepAliveID i) (answered ins) else answered ins)"
  by (auto simp: answered_def)

lemma has_position: "movements ins \<noteq> [] \<longleftrightarrow> (\<exists>p. spec_position ins = Some p)"
  by (auto simp: spec_position_def Let_def)

lemma newBarrier_spec: "newBarrier now ids k = spec_barrier now ids k 0 []"
proof -
  have "foldl (\<lambda>m i. insert i m) A ids = A \<union> set ids" for A
    by (induction ids arbitrary: A) auto
  then show ?thesis
    by (simp add: newBarrier_def spec_barrier_def Let_def BarrierDraining_def answered_def
        spec_position_def movements_def spec_commands_def)
qed

lemma handle_spec:
  "snd (barrier_handle (spec_barrier now ids k n ins) i) = spec_barrier now ids k n (ins @ [i])"
proof (cases "Kind i")
  case InputKeepAlive
  then show ?thesis
    by (auto simp: barrier_handle_def spec_barrier_def answered_snoc spec_position_snoc
        spec_commands_snoc movements_def)
next
  case InputMovement
  then show ?thesis
    by (auto simp: barrier_handle_def spec_barrier_def answered_snoc spec_position_snoc has_position
        spec_commands_snoc Let_def split: option.split)
next
  case InputPlayerCommand
  then show ?thesis
    by (auto simp: barrier_handle_def spec_barrier_def answered_snoc spec_position_snoc
        spec_commands_snoc movements_def)
next
  case InputUnsafe
  then show ?thesis
    by (simp add: barrier_handle_def spec_barrier_def answered_snoc spec_position_snoc
        spec_commands_snoc movements_def)
qed

text \<open>The calls made while a barrier is up, and what a run of them contains.\<close>

fun barrier_call :: "session_call \<Rightarrow> bool" where
  "barrier_call (CallHandleInput i d e) = True"
| "barrier_call (CallAdvance ph r) = True"
| "barrier_call _ = False"

fun input_of :: "session_call \<Rightarrow> Input list" where
  "input_of (CallHandleInput i d e) = [i]"
| "input_of _ = []"

fun advanced :: "session_call \<Rightarrow> nat" where
  "advanced (CallAdvance ph (Ok _)) = 1"
| "advanced _ = 0"

definition inputs_of :: "session_call list \<Rightarrow> Input list" where
  "inputs_of es = concat (map input_of es)"

definition advances_of :: "session_call list \<Rightarrow> nat" where
  "advances_of es = sum_list (map advanced es)"

definition up :: "time \<Rightarrow> int64 list \<Rightarrow> int \<Rightarrow> session_call list \<Rightarrow> Session" where
  "up now ids k es =
     \<lparr>state = StateTransferBarrier, barrier = Some (spec_barrier now ids k (advances_of es) (inputs_of es))\<rparr>"

lemma BeginTransfer_up:
  "BeginTransfer s now ids k = (Ok (), t) \<Longrightarrow> t = up now ids k []"
  by (auto simp: BeginTransfer_def transitionLocked_def up_def newBarrier_spec advances_of_def inputs_of_def
      split: if_splits)

lemma history_snoc:
  "inputs_of (es @ [c]) = inputs_of es @ input_of c" "advances_of (es @ [c]) = advances_of es + advanced c"
  by (simp_all add: inputs_of_def advances_of_def)

lemma barrier_step_up:
  assumes "session_step (up now ids k es) c t" "barrier_call c"
  shows "t = up now ids k (es @ [c])"
proof (cases c)
  case (CallHandleInput i d e)
  then have "t = \<lparr>state = StateTransferBarrier,
      barrier = Some (snd (barrier_handle (spec_barrier now ids k (advances_of es) (inputs_of es)) i))\<rparr>"
    using assms by (auto simp: up_def HandleBarrierInput_def split: prod.splits)
  with CallHandleInput show ?thesis by (simp add: handle_spec up_def history_snoc)
next
  case (CallAdvance ph r)
  with assms show ?thesis
    by (cases r) (auto simp: up_def AdvanceBarrier_def spec_barrier_def history_snoc add.commute
        split: if_splits)
qed (use assms in auto)

lemma barrier_runs_up:
  assumes "BeginTransfer s now ids k = (Ok (), s0)" "runs session_step s0 es t" "list_all barrier_call es"
  shows "t = up now ids k es"
  using assms(2,3) BeginTransfer_up [OF assms(1)]
proof (induction rule: runs.induct)
  case (runs_snoc s0 es t e u)
  then show ?case using barrier_step_up by auto
qed simp

lemma ReleaseTransfer_up:
  "ReleaseTransfer (up now ids k es) =
     (if (of_nat (advances_of es) :: byte) = BarrierReady
      then (Ok \<lparr>rp_Position = spec_position (inputs_of es), rp_Commands = spec_commands k (inputs_of es)\<rparr>,
            \<lparr>state = StateBackendPlay, barrier = None\<rparr>)
      else (Fail ErrBarrierNotReady, up now ids k es))"
  using has_position [of "inputs_of es"]
  by (auto simp: ReleaseTransfer_def up_def spec_barrier_def barrier_replay_def)

lemma of_nat_byte_6: "(of_nat n :: byte) = 6 \<longleftrightarrow> n mod 256 = 6"
proof -
  have "(of_nat n :: byte) = 6 \<longleftrightarrow> (of_nat n :: byte) = of_nat 6" by simp
  also have "\<dots> \<longleftrightarrow> n mod 256 = 6"
    by (simp only: word_unat_eq_iff unat_of_nat) (simp add: take_bit_nat_def)
  finally show ?thesis .
qed

text \<open>A keepalive: accepted when it was outstanding and not answered before.\<close>

lemma HandleBarrierInput_keepalive:
  assumes "Kind i = InputKeepAlive"
  shows "fst (HandleBarrierInput (up now ids k es) i) =
    (if KeepAliveID i \<in> set ids - answered (inputs_of es) then (InputConsumed, None)
     else (InputDropped, Some ErrUnexpectedKeepAlive))"
  using assms by (simp add: HandleBarrierInput_def up_def barrier_handle_def spec_barrier_def)

section \<open>Properties\<close>

text \<open>
  C1: the release of a transfer. After a transfer began, and after any interleaving of client
  inputs and phase advances, \<open>ReleaseTransfer\<close> succeeds exactly when the barrier was
  advanced to \<open>BarrierReady\<close> (six successful advances, the phase being a byte), and then it
  returns the specified replay: the last position, facing where the player last looked, and
  the first commands up to the limit, in order. The session is then in Backend Play with no
  barrier; otherwise nothing changes.
\<close>

theorem transfer_replay:
  assumes "BeginTransfer s now ids k = (Ok (), s0)" "runs session_step s0 es t" "list_all barrier_call es"
  shows "ReleaseTransfer t =
    (if advances_of es mod 256 = 6
     then (Ok \<lparr>rp_Position = spec_position (inputs_of es), rp_Commands = spec_commands k (inputs_of es)\<rparr>,
           \<lparr>state = StateBackendPlay, barrier = None\<rparr>)
     else (Fail ErrBarrierNotReady, t))"
  using barrier_runs_up [OF assms] of_nat_byte_6 by (simp add: ReleaseTransfer_up BarrierReady_def)

definition limbo_session :: Session where
  "limbo_session = \<lparr>state = StateLimboPlay, barrier = None\<rparr>"

definition example_input :: "InputKind \<Rightarrow> Input" where
  "example_input kind = \<lparr>Kind = kind, KeepAliveID = 42, in_Position = zero_Position\<lparr>pos_X := 7\<rparr>,
     HasLook = True, Command = \<lparr>EntityID = 1, ActionID = 2, CommandData = 3\<rparr>\<rparr>"

definition example_calls :: "session_call list" where
  "example_calls =
     [CallHandleInput (example_input InputKeepAlive) InputConsumed None, CallAdvance 1 (Ok ()),
      CallHandleInput (example_input InputMovement) InputCoalesced None, CallAdvance 2 (Ok ()),
      CallAdvance 3 (Ok ()), CallHandleInput (example_input InputPlayerCommand) InputQueued None,
      CallAdvance 4 (Ok ()), CallAdvance 5 (Ok ()), CallAdvance 6 (Ok ())]"

lemma example_run:
  "\<exists>s0 t. BeginTransfer limbo_session 10 [42] 2 = (Ok (), s0) \<and> runs session_step s0 example_calls t"
  by (simp add: example_calls_def runs_Cons_iff BeginTransfer_def transitionLocked_def canTransition_def
      limbo_session_def HandleBarrierInput_def AdvanceBarrier_def newBarrier_def BarrierDraining_def
      Let_def barrier_handle_def example_input_def)

lemma example_history:
  "list_all barrier_call example_calls" "advances_of example_calls = 6"
  "spec_position (inputs_of example_calls) = Some (zero_Position\<lparr>pos_X := 7\<rparr>)"
  "spec_commands 2 (inputs_of example_calls) = [\<lparr>EntityID = 1, ActionID = 2, CommandData = 3\<rparr>]"
  "42 \<in> answered (inputs_of example_calls)"
  by (simp_all add: example_calls_def advances_of_def inputs_of_def spec_position_def movements_def
      facing_def spec_commands_def example_input_def zero_Position_def answered_def)

theorem transfer_replay_witness:
  "\<exists>s0 t. BeginTransfer limbo_session 10 [42] 2 = (Ok (), s0) \<and> runs session_step s0 example_calls t \<and>
     ReleaseTransfer t =
       (Ok \<lparr>rp_Position = Some (zero_Position\<lparr>pos_X := 7\<rparr>),
            rp_Commands = [\<lparr>EntityID = 1, ActionID = 2, CommandData = 3\<rparr>]\<rparr>,
        \<lparr>state = StateBackendPlay, barrier = None\<rparr>)"
proof -
  obtain s0 t where run: "BeginTransfer limbo_session 10 [42] 2 = (Ok (), s0)"
    "runs session_step s0 example_calls t" using example_run by blast
  from transfer_replay [OF run example_history(1)] run show ?thesis
    by (auto simp: example_history)
qed

text \<open>
  C2: a Limbo keepalive that was outstanding when the transfer began is consumed by the
  barrier once: an identifier is accepted exactly when it was issued and has not been
  answered since, and every other answer is refused.
\<close>

theorem barrier_keepalive_once:
  assumes "BeginTransfer s now ids k = (Ok (), s0)" "runs session_step s0 es t" "list_all barrier_call es"
    "Kind i = InputKeepAlive"
  shows "fst (HandleBarrierInput t i) =
    (if KeepAliveID i \<in> set ids - answered (inputs_of es) then (InputConsumed, None)
     else (InputDropped, Some ErrUnexpectedKeepAlive))"
  using barrier_runs_up [OF assms(1-3)] HandleBarrierInput_keepalive [OF assms(4)] by simp

theorem barrier_keepalive_once_witness:
  "\<exists>s0 t. BeginTransfer limbo_session 10 [42] 2 = (Ok (), s0) \<and> runs session_step s0 example_calls t \<and>
     fst (HandleBarrierInput t (example_input InputKeepAlive)) = (InputDropped, Some ErrUnexpectedKeepAlive)"
proof -
  obtain s0 t where run: "BeginTransfer limbo_session 10 [42] 2 = (Ok (), s0)"
    "runs session_step s0 example_calls t" using example_run by blast
  have "Kind (example_input InputKeepAlive) = InputKeepAlive" "KeepAliveID (example_input InputKeepAlive) = 42"
    by (simp_all add: example_input_def)
  with barrier_keepalive_once [OF run example_history(1) this(1)] run example_history(5) show ?thesis
    by auto
qed

text \<open>
  C3: the way of a connection. The states that a run of calls on a new session passes through, from
  Handshake to its state, enter each other only as listed: Backend Play from the barrier, by a release, or from
  backend configuration; backend configuration from backend login; backend login from the barrier; the barrier from
  Limbo or Backend Play. Before any state that is not Closing they follow the way in: Login,
  Configuration, Limbo, barrier, in this order and without any other state.
\<close>

theorem session_states_in_order:
  assumes "runs session_step New_Session es t"
  shows "last (itinerary es) = state t \<and> successively (\<lambda>a b. a \<in> entered_from b) (itinerary es) \<and>
    (state t \<noteq> StateClosing \<longrightarrow> take 5 (itinerary es) = take (length (itinerary es)) way_in)"
  using session_itinerary [OF assms] journey_way_in [of "itinerary es"] by (auto simp: journey_def)

theorem session_states_in_order_witness:
  "\<exists>es t. runs session_step New_Session es t \<and> state t = StateTransferBarrier \<and> take 5 (itinerary es) = way_in"
proof -
  let ?es = "[CallTransition StateLogin (Ok ()), CallTransition StateConfiguration (Ok ()), CallTransition StateLimboPlay (Ok ()),
    CallBeginTransfer 10 [] 4 (Ok ())]"
  have "\<exists>t. runs session_step New_Session ?es t \<and> state t = StateTransferBarrier"
    by (simp add: runs_Cons_iff Transition_def BeginTransfer_def transitionLocked_def canTransition_def New_Session_def)
  then obtain t where t: "runs session_step New_Session ?es t" "state t = StateTransferBarrier" by blast
  have "take 5 (itinerary ?es) = way_in"
    using session_states_in_order [OF t(1)] t(2) by (simp add: itinerary_def way_in_def)
  with t show ?thesis by blast
qed

text \<open>
  C4: the session invariant and the finality of closing. After any sequence of calls on a
  new session, a barrier never holds more commands than its limit, and once the session is
  closing it has no barrier and no further call changes it.
\<close>

theorem session_closing_final:
  assumes "runs session_step New_Session es t"
  shows "(case barrier t of None \<Rightarrow> True | Some b \<Rightarrow> int (length (commands b)) \<le> maxCommands b) \<and>
    (state t = StateClosing \<and> session_step t c u \<longrightarrow> u = t \<and> barrier u = None)"
  using sess.inv_reachable [OF refl assms] closing_final [of t c u]
  by (auto simp: session_inv_def barrier_inv_def split: option.splits)

theorem session_closing_final_witness:
  "\<exists>t. runs session_step New_Session [CallTransition StateClosing (Ok ())] t \<and> state t = StateClosing \<and>
     (\<forall>c u. session_step t c u \<longrightarrow> u = t)"
proof -
  let ?t = "\<lparr>state = StateClosing, barrier = None\<rparr> :: Session"
  have run: "runs session_step New_Session [CallTransition StateClosing (Ok ())] ?t"
    by (intro runs_single)
      (simp add: Transition_def transitionLocked_def canTransition_def New_Session_def Let_def)
  have "state ?t = StateClosing" by simp
  with run session_closing_final [OF run] show ?thesis by blast
qed

end
