(* ===== verification/Windows.thy ===== *)
theory Windows
  imports Machines
begin

text \<open>
  Sliding windows over logs of times, as the rate limiter and the bot filter keep them. The
  locale states what a window promises: it grows older at one end only. Inside it, dropping
  the expired prefix of a sorted log is dropping every expired entry, and a trimmed log
  decides every later window as the full history does.
\<close>

text \<open>The loop that counts the expired prefix of a log; \<open>expired\<close> is its condition on an entry.\<close>

fun first_fresh :: "(time \<Rightarrow> bool) \<Rightarrow> time list \<Rightarrow> nat" where
  "first_fresh expired [] = 0"
| "first_fresh expired (t # ts) = (if expired t then Suc (first_fresh expired ts) else 0)"

text \<open>
  A log agrees with a history from \<open>t0\<close> on: it is sorted, not in the future, and has the
  history's entries in every window that ends at \<open>t0\<close> or later.
\<close>

definition agrees :: "(time \<Rightarrow> time \<Rightarrow> bool) \<Rightarrow> time \<Rightarrow> time list \<Rightarrow> time list \<Rightarrow> bool" where
  "agrees fresh t0 log h \<longleftrightarrow> sorted log \<and> (\<forall>t \<in> set log. t \<le> t0) \<and>
     (\<forall>now \<ge> t0. filter (fresh now) log = filter (fresh now) h)"

locale sliding_window =
  fixes fresh :: "time \<Rightarrow> time \<Rightarrow> bool"
  assumes fresh_newer: "fresh now t \<Longrightarrow> t \<le> t' \<Longrightarrow> fresh now t'"
    and fresh_earlier: "fresh now' t \<Longrightarrow> now \<le> now' \<Longrightarrow> fresh now t"
begin

lemma drop_expired:
  "sorted log \<Longrightarrow> drop (first_fresh (\<lambda>t. \<not> fresh now t) log) log = filter (fresh now) log"
proof (induction log)
  case (Cons t log)
  show ?case
  proof (cases "fresh now t")
    case True
    then have "\<forall>t' \<in> set log. fresh now t'" using Cons.prems fresh_newer by auto
    with True show ?thesis by (simp add: filter_True)
  qed (use Cons in auto)
qed simp

lemma filter_fresh_later:
  "now \<le> now' \<Longrightarrow> filter (fresh now') (filter (fresh now) log) = filter (fresh now') log"
  using fresh_earlier by (induction log) auto

lemma filter_fresh_last:
  assumes "sorted log" "log = [] \<or> \<not> fresh now (last log)" "now \<le> now'"
  shows "filter (fresh now') log = []"
proof (rule ccontr)
  assume "filter (fresh now') log \<noteq> []"
  then obtain t where t: "t \<in> set log" "fresh now' t" by (auto simp: filter_empty_conv)
  have "t \<le> last log" using assms(1) t(1) by (cases log rule: rev_cases) (auto simp: sorted_append)
  then show False using fresh_newer fresh_earlier assms(2,3) t by (metis empty_iff empty_set)
qed

lemma agrees_Nil: "agrees fresh t0 [] []"
  by (simp add: agrees_def)

lemma agrees_later: "agrees fresh t0 log h \<Longrightarrow> t0 \<le> t1 \<Longrightarrow> agrees fresh t1 log h"
  by (auto simp: agrees_def intro: order_trans)

lemma agrees_trim:
  assumes "agrees fresh t0 log h" "t0 \<le> now"
  shows "agrees fresh now (filter (fresh now) log) h"
  unfolding agrees_def
proof (intro conjI allI impI)
  note later = agrees_later [OF assms, unfolded agrees_def]
  then have log: "sorted log" "\<forall>t \<in> set log. t \<le> now" by blast+
  show "sorted (filter (fresh now) log)" "\<forall>t \<in> set (filter (fresh now) log). t \<le> now"
    using log by (simp_all add: sorted_wrt_filter)
  show "filter (fresh now') (filter (fresh now) log) = filter (fresh now') h" if "now \<le> now'" for now'
    using later that filter_fresh_later by metis
qed

lemma agrees_snoc:
  assumes "agrees fresh t0 log h" "t0 \<le> now"
  shows "agrees fresh now (log @ [now]) (h @ [now])"
  using agrees_later [OF assms] by (auto simp: agrees_def sorted_append)

lemma agrees_delete:
  assumes "agrees fresh t0 log h" "t0 \<le> now" "log = [] \<or> \<not> fresh now (last log)"
  shows "agrees fresh now [] h"
  using agrees_later [OF assms(1,2)] filter_fresh_last [OF _ assms(3)] by (auto simp: agrees_def)

lemma agrees_window: "agrees fresh t0 log h \<Longrightarrow> t0 \<le> now \<Longrightarrow> filter (fresh now) log = filter (fresh now) h"
  by (simp add: agrees_def)

lemma agrees_drop:
  "agrees fresh t0 log h \<Longrightarrow> drop (first_fresh (\<lambda>t. \<not> fresh now t) log) log = filter (fresh now) log"
  by (simp add: agrees_def drop_expired)

end

end
