(* ===== verification/Queue.thy ===== *)
theory Queue
  imports Machines "HOL-Library.Multiset" "HOL-Library.Sublist"
begin

text \<open>
  The admission queue and its scheduler, \<open>internal/queue/queue.go\<close>. Contexts and admission
  callbacks are opaque handles; what they return is a parameter of the scheduler. Every
  method of \<open>FIFO\<close> holds the mutex, so concurrent use is a sequence of calls.

  The theorems show that the queue never holds a duplicate or more than its capacity,
  that it loses, duplicates and reorders nothing, that a waiting player is served after as
  many pops as its position says, and that the scheduler admits at most one item per tick.
\<close>

section \<open>Definitions\<close>

datatype 'c context_handle = Background | Context_Handle 'c

record ('c, 'f) Item =
  ID :: string
  Context :: "'c context_handle option"
  Admit :: "'f option"

record ('c, 'f) FIFO =
  maxSize :: int
  items :: "('c, 'f) Item list"
  queued :: "string set"

definition New_FIFO :: "int \<Rightarrow> ('c, 'f) FIFO" where
  "New_FIFO capacity =
     (let capacity = (if capacity \<le> 0 then 1024 else capacity)
      in \<lparr>maxSize = capacity, items = [], queued = {}\<rparr>)"

definition Enqueue :: "('c, 'f) FIFO \<Rightarrow> ('c, 'f) Item \<Rightarrow> nat res \<times> ('c, 'f) FIFO" where
  "Enqueue q item =
     (if ID item = '''' \<or> Admit item = None
      then (Fail (ErrText ''queue item requires ID and Admit callback''), q)
      else if ID item \<in> queued q then (Fail ErrDuplicate, q)
      else if int (length (items q)) \<ge> maxSize q then (Fail ErrFull, q)
      else
        let item = (if Context item = None then item\<lparr>Context := Some Background\<rparr> else item);
            q = q\<lparr>items := items q @ [item]\<rparr>;
            q = q\<lparr>queued := insert (ID item) (queued q)\<rparr>
        in (Ok (length (items q)), q))"

text \<open>
  The loop over \<open>q.items\<close> that \<open>Cancel\<close> and \<open>Position\<close> share: the index of the item with
  an identifier.
\<close>

fun find_item :: "string \<Rightarrow> nat \<Rightarrow> ('c, 'f) Item list \<Rightarrow> nat option" where
  "find_item i n [] = None"
| "find_item i n (item # rest) =
     (if ID item \<noteq> i then find_item i (n + 1) rest else Some n)"

text \<open>
  \<open>copy(items[index:], items[index+1:])\<close> moves the tail down by one and leaves the last
  cell; the slice is then cut before it.
\<close>

definition remove_at :: "nat \<Rightarrow> 'a list \<Rightarrow> 'a list" where
  "remove_at k xs =
     (let copied = take k xs @ drop (k + 1) xs @ [last xs]; n = length xs - 1
      in take n copied)"

definition Cancel :: "('c, 'f) FIFO \<Rightarrow> string \<Rightarrow> bool \<times> ('c, 'f) FIFO" where
  "Cancel q i =
     (case find_item i 0 (items q) of
        None \<Rightarrow> (False, q)
      | Some k \<Rightarrow> (True, q\<lparr>items := remove_at k (items q), queued := queued q - {i}\<rparr>))"

definition Pop :: "('c, 'f) FIFO \<Rightarrow> ('c, 'f) Item option \<times> ('c, 'f) FIFO" where
  "Pop q =
     (if length (items q) = 0 then (None, q)
      else
        let item = items q ! 0
        in (Some item, q\<lparr>items := remove_at 0 (items q), queued := queued q - {ID item}\<rparr>))"

definition Len :: "('c, 'f) FIFO \<Rightarrow> nat" where
  "Len q = length (items q)"

definition FIFO_Position :: "('c, 'f) FIFO \<Rightarrow> string \<Rightarrow> nat option" where
  "FIFO_Position q i =
     (case find_item i 0 (items q) of None \<Rightarrow> None | Some k \<Rightarrow> Some (k + 1))"

section \<open>Calls\<close>

datatype ('c, 'f) queue_call =
    CallEnqueue "('c, 'f) Item" "nat res"
  | CallCancel string bool
  | CallPop "('c, 'f) Item option"

inductive queue_step :: "('c, 'f) FIFO \<Rightarrow> ('c, 'f) queue_call \<Rightarrow> ('c, 'f) FIFO \<Rightarrow> bool" where
  "Enqueue q item = (r, q') \<Longrightarrow> queue_step q (CallEnqueue item r) q'"
| "Cancel q i = (b, q') \<Longrightarrow> queue_step q (CallCancel i b) q'"
| "Pop q = (popped, q') \<Longrightarrow> queue_step q (CallPop popped) q'"

inductive_simps queue_step_simps [simp]:
  "queue_step q (CallEnqueue item r) q'"
  "queue_step q (CallCancel i b) q'"
  "queue_step q (CallPop popped) q'"

section \<open>The scheduler\<close>

record ('c, 'f) Scheduler =
  sch_Queue :: "('c, 'f) FIFO option"
  Interval :: duration
  OnResult :: bool

definition sched_interval :: "('c, 'f) Scheduler \<Rightarrow> duration" where
  "sched_interval s = (if Interval s \<le> 0 then 1000000000 else Interval s)"

text \<open>
  One tick of \<open>Scheduler.Run\<close>: \<open>ctx_err\<close> is \<open>Context.Err\<close>, \<open>admit\<close> runs the callback on
  the item's context. The result is the item served and what came of it; it is reported to \<open>OnResult\<close>
  where the scheduler has one. Each item's context is asked once, when the item is taken off the queue.
\<close>

definition scheduler_tick ::
    "('c context_handle \<Rightarrow> err option) \<Rightarrow> ('f \<Rightarrow> 'c context_handle \<Rightarrow> err option) \<Rightarrow>
     ('c, 'f) FIFO \<Rightarrow> (('c, 'f) Item \<times> err option) list \<times> ('c, 'f) FIFO" where
  "scheduler_tick ctx_err admit q =
     (case Pop q of
        (None, q) \<Rightarrow> ([], q)
      | (Some item, q) \<Rightarrow>
          (case ctx_err (the (Context item)) of
             Some e \<Rightarrow> ([(item, Some e)], q)
           | None \<Rightarrow> ([(item, admit (the (Admit item)) (the (Context item)))], q)))"

text \<open>
  What the select loop of \<open>Run\<close> sees, in order: its ticker, the end of its context, and
  between them the calls that connections make on the shared queue.
\<close>

datatype ('c, 'f) queue_op = OpEnqueue "('c, 'f) Item" | OpCancel string

datatype ('c, 'f) sched_event = SchedTick | SchedDone | SchedCall "('c, 'f) queue_op"

fun apply_op :: "('c, 'f) queue_op \<Rightarrow> ('c, 'f) FIFO \<Rightarrow> ('c, 'f) FIFO" where
  "apply_op (OpEnqueue item) q = snd (Enqueue q item)"
| "apply_op (OpCancel i) q = snd (Cancel q i)"

fun Run_loop ::
    "('c context_handle \<Rightarrow> err option) \<Rightarrow> ('f \<Rightarrow> 'c context_handle \<Rightarrow> err option) \<Rightarrow>
     ('c, 'f) sched_event list \<Rightarrow> ('c, 'f) FIFO \<Rightarrow> (('c, 'f) Item \<times> err option) list \<times> ('c, 'f) FIFO" where
  "Run_loop ctx_err admit [] q = ([], q)"
| "Run_loop ctx_err admit (SchedDone # es) q = ([], q)"
| "Run_loop ctx_err admit (SchedTick # es) q =
     (case scheduler_tick ctx_err admit q of (rs, q) \<Rightarrow>
      case Run_loop ctx_err admit es q of (rs', q) \<Rightarrow> (rs @ rs', q))"
| "Run_loop ctx_err admit (SchedCall c # es) q = Run_loop ctx_err admit es (apply_op c q)"

definition Scheduler_Run ::
    "('c context_handle \<Rightarrow> err option) \<Rightarrow> ('f \<Rightarrow> 'c context_handle \<Rightarrow> err option) \<Rightarrow>
     ('c, 'f) Scheduler \<Rightarrow> ('c, 'f) sched_event list \<Rightarrow> (('c, 'f) Item \<times> err option) list" where
  "Scheduler_Run ctx_err admit s es =
     (case sch_Queue s of None \<Rightarrow> []
      | Some q \<Rightarrow> if OnResult s then fst (Run_loop ctx_err admit es q) else [])"

section \<open>The invariant\<close>

definition fifo_inv :: "('c, 'f) FIFO \<Rightarrow> bool" where
  "fifo_inv q \<longleftrightarrow> distinct (map ID (items q)) \<and> queued q = set (map ID (items q)) \<and>
     0 < maxSize q \<and> int (length (items q)) \<le> maxSize q \<and>
     (\<forall>item \<in> set (items q). ID item \<noteq> '''' \<and> Admit item \<noteq> None \<and> Context item \<noteq> None)"

lemma remove_at_eq: "k < length xs \<Longrightarrow> remove_at k xs = take k xs @ drop (Suc k) xs"
  by (auto simp: remove_at_def Let_def)

lemma find_item_shift: "find_item i (Suc k) xs = map_option Suc (find_item i k xs)"
  by (induction xs arbitrary: k) auto

lemma find_item_None: "find_item i k xs = None \<longleftrightarrow> i \<notin> set (map ID xs)"
  by (induction xs arbitrary: k) auto

lemma find_item_Some:
  "find_item i 0 xs = Some n \<Longrightarrow>
     n < length xs \<and> ID (xs ! n) = i \<and> i \<notin> set (map ID (take n xs)) \<and>
     map ID (take n xs @ drop (Suc n) xs) = remove1 i (map ID xs)"
proof (induction xs arbitrary: n)
  case (Cons x xs)
  then show ?case by (cases n) (auto simp: find_item_shift split: if_splits)
qed simp

lemma fifo_inv_New: "fifo_inv (New_FIFO k)"
  by (simp add: fifo_inv_def New_FIFO_def Let_def)

lemma fifo_inv_Enqueue: "fifo_inv q \<Longrightarrow> fifo_inv (snd (Enqueue q item))"
  by (auto simp: fifo_inv_def Enqueue_def Let_def)

lemma Cancel_facts:
  assumes "fifo_inv q"
  shows "(fst (Cancel q i) \<longleftrightarrow> i \<in> set (map ID (items q))) \<and>
    map ID (items (snd (Cancel q i))) = remove1 i (map ID (items q)) \<and>
    set (items (snd (Cancel q i))) \<subseteq> set (items q) \<and>
    queued (snd (Cancel q i)) = queued q - {i} \<and> maxSize (snd (Cancel q i)) = maxSize q"
proof (cases "find_item i 0 (items q)")
  case None
  with assms find_item_None [of i 0 "items q"] show ?thesis
    by (auto simp: Cancel_def remove1_idem fifo_inv_def)
next
  case (Some n)
  from find_item_Some [OF Some] Some show ?thesis
    by (auto simp: Cancel_def remove_at_eq dest: in_set_takeD in_set_dropD)
qed

lemma Cancel_eq:
  assumes "fifo_inv q"
  shows "fst (Cancel q i) \<longleftrightarrow> i \<in> set (map ID (items q))"
    "map ID (items (snd (Cancel q i))) = remove1 i (map ID (items q))"
    "set (items (snd (Cancel q i))) \<subseteq> set (items q)"
    "queued (snd (Cancel q i)) = queued q - {i}" "maxSize (snd (Cancel q i)) = maxSize q"
  using Cancel_facts [OF assms, of i] by blast+

lemma fifo_inv_Cancel:
  assumes inv: "fifo_inv q"
  shows "fifo_inv (snd (Cancel q i))"
proof -
  note ids = Cancel_eq(2) [OF inv, of i]
  have "length (items (snd (Cancel q i))) \<le> length (items q)"
    using arg_cong [OF ids, of length] by (simp add: length_remove1)
  moreover have "distinct (map ID (items (snd (Cancel q i))))"
    "set (map ID (items (snd (Cancel q i)))) = set (map ID (items q)) - {i}"
    unfolding ids using inv by (simp_all add: fifo_inv_def distinct_remove1 del: set_map)
  moreover have "\<forall>item \<in> set (items (snd (Cancel q i))). item \<in> set (items q)"
    using Cancel_eq(3) [OF inv] by blast
  ultimately show ?thesis
    using inv unfolding fifo_inv_def Cancel_eq(4,5) [OF inv] by auto
qed

lemma Pop_eq:
  assumes "Pop q = (r, q')"
  shows "(r = None \<and> items q = [] \<and> q' = q) \<or>
    (\<exists>item. r = Some item \<and> items q = item # items q' \<and> queued q' = queued q - {ID item} \<and> maxSize q' = maxSize q)"
  using assms by (cases "items q") (auto simp: Pop_def remove_at_eq)

lemma fifo_inv_Pop: "fifo_inv q \<Longrightarrow> fifo_inv (snd (Pop q))"
  using Pop_eq [of q "fst (Pop q)" "snd (Pop q)"] by (auto simp: fifo_inv_def)

section \<open>The waiting line\<close>

text \<open>
  The abstract queue: the identifiers of the waiting players, in order of arrival. It says
  what each call may do and return.
\<close>

fun line_step :: "string list \<Rightarrow> ('c, 'f) queue_call \<Rightarrow> string list \<Rightarrow> bool" where
  "line_step l (CallEnqueue item (Ok n)) l' = (ID item \<notin> set l \<and> l' = l @ [ID item] \<and> n = length l')"
| "line_step l (CallEnqueue item _) l' = (l' = l)"
| "line_step l (CallCancel i b) l' = (b = (i \<in> set l) \<and> l' = remove1 i l)"
| "line_step l (CallPop None) l' = (l = [] \<and> l' = [])"
| "line_step l (CallPop (Some item)) l' = (l = ID item # l')"

definition line :: "('c, 'f) FIFO \<Rightarrow> string list" where
  "line q = map ID (items q)"

lemma queue_step_line: "queue_step q c q' \<Longrightarrow> fifo_inv q \<Longrightarrow> line_step (line q) c (line q')"
proof (induction rule: queue_step.induct)
  case (1 q item r q')
  then show ?case by (auto simp: Enqueue_def line_def fifo_inv_def Let_def split: if_splits)
next
  case (2 q i b q')
  then have "b = fst (Cancel q i)" "q' = snd (Cancel q i)" by simp_all
  then show ?case by (simp only: line_step.simps line_def Cancel_eq(1,2) [OF 2(2)] simp_thms)
next
  case (3 q popped q')
  from Pop_eq [OF 3(1)] show ?case
    by (elim disjE exE conjE; simp only: line_def line_step.simps list.map simp_thms)
qed

lemma queue_step_inv: "queue_step q c q' \<Longrightarrow> fifo_inv q \<Longrightarrow> fifo_inv q'"
  by (induction rule: queue_step.induct)
    (metis fifo_inv_Enqueue fifo_inv_Cancel fifo_inv_Pop snd_conv)+

interpretation fq: simulation "\<lambda>q. \<exists>k. q = New_FIFO k" queue_step fifo_inv line line_step
proof
  fix q c q'
  show "\<exists>k. q = New_FIFO k \<Longrightarrow> fifo_inv q" using fifo_inv_New by blast
  show "fifo_inv q \<Longrightarrow> queue_step q c q' \<Longrightarrow> fifo_inv q'" by (rule queue_step_inv)
  show "fifo_inv q \<Longrightarrow> queue_step q c q' \<Longrightarrow> line_step (line q) c (line q')" by (rule queue_step_line)
qed

section \<open>Accounting\<close>

text \<open>What a run of calls accepted, served and cancelled, in order.\<close>

fun accepted_id :: "('c, 'f) queue_call \<Rightarrow> string list" where
  "accepted_id (CallEnqueue item (Ok n)) = [ID item]"
| "accepted_id _ = []"

fun popped_id :: "('c, 'f) queue_call \<Rightarrow> string list" where
  "popped_id (CallPop (Some item)) = [ID item]"
| "popped_id _ = []"

fun cancelled_id :: "('c, 'f) queue_call \<Rightarrow> string list" where
  "cancelled_id (CallCancel i True) = [i]"
| "cancelled_id _ = []"

fun is_pop :: "('c, 'f) queue_call \<Rightarrow> bool" where
  "is_pop (CallPop _) = True"
| "is_pop _ = False"

definition accepted :: "('c, 'f) queue_call list \<Rightarrow> string list" where
  "accepted cs = concat (map accepted_id cs)"

definition popped :: "('c, 'f) queue_call list \<Rightarrow> string list" where
  "popped cs = concat (map popped_id cs)"

definition cancelled :: "('c, 'f) queue_call list \<Rightarrow> string list" where
  "cancelled cs = concat (map cancelled_id cs)"

definition pops :: "('c, 'f) queue_call list \<Rightarrow> nat" where
  "pops cs = length (filter is_pop cs)"

lemma accounts_snoc [simp]:
  "accepted (cs @ [c]) = accepted cs @ accepted_id c" "popped (cs @ [c]) = popped cs @ popped_id c"
  "cancelled (cs @ [c]) = cancelled cs @ cancelled_id c"
  "pops (cs @ [c]) = pops cs + (if is_pop c then 1 else 0)"
  by (simp_all add: accepted_def popped_def cancelled_def pops_def)

lemma accounts_Nil [simp]: "accepted [] = []" "popped [] = []" "cancelled [] = []" "pops [] = 0"
  by (simp_all add: accepted_def popped_def cancelled_def pops_def)

lemma line_stepE [consumes 1, case_names enqueue skip cancel empty pop]:
  assumes "line_step l c l'"
  obtains item n where "c = CallEnqueue item (Ok n)" "ID item \<notin> set l" "l' = l @ [ID item]"
    | "accepted_id c = []" "popped_id c = []" "cancelled_id c = []" "\<not> is_pop c" "l' = l"
    | i where "c = CallCancel i True" "i \<in> set l" "l' = remove1 i l"
    | "c = CallPop None" "l = []" "l' = []"
    | item where "c = CallPop (Some item)" "l = ID item # l'"
proof (cases c)
  case (CallEnqueue item r)
  with assms that(1,2) show thesis by (cases r) auto
next
  case (CallCancel i b)
  with assms that(2,3) show thesis by (cases b) (auto simp: remove1_idem)
next
  case (CallPop r)
  with assms that(4,5) show thesis by (cases r) auto
qed

lemma line_step_account:
  "line_step l c l' \<Longrightarrow>
     mset l + mset (accepted_id c) = mset (popped_id c) + mset (cancelled_id c) + mset l'"
  by (erule line_stepE) auto

lemma line_runs_account:
  "runs line_step l cs l' \<Longrightarrow>
     mset l + mset (accepted cs) = mset (popped cs) + mset (cancelled cs) + mset l'"
proof (induction rule: runs.induct)
  case (runs_snoc l cs m c l')
  from line_step_account [OF runs_snoc(2)] runs_snoc(3) show ?case
    by (simp add: union_ac) (metis union_assoc union_commute)
qed simp

lemma line_runs_order: "runs line_step l cs l' \<Longrightarrow> subseq (popped cs @ l') (l @ accepted cs)"
proof (induction rule: runs.induct)
  case (runs_snoc l cs m c l')
  from runs_snoc(2) show ?case
  proof (cases rule: line_stepE)
    case (enqueue item n)
    with runs_snoc(3) show ?thesis
      using list_emb_append_mono [of "(=)" "popped cs @ m" "l @ accepted cs" "[ID item]" "[ID item]"] by simp
  next
    case (cancel i)
    have "subseq (remove1 i m) m" by (induction m) auto
    then have "subseq (popped cs @ l') (popped cs @ m)"
      using cancel list_emb_append_mono [of "(=)" "popped cs" "popped cs"] by simp
    with runs_snoc(3) cancel show ?thesis using subseq_order.trans by force
  qed (use runs_snoc(3) in auto)
qed simp

lemma line_runs_served:
  assumes "runs line_step l cs l'" "l = pre @ i # post" "i \<notin> set (cancelled cs)"
  shows "i \<in> set (popped cs) \<or> (\<exists>pre' post'. l' = pre' @ i # post' \<and> length pre' + pops cs \<le> length pre)"
  using assms
proof (induction rule: runs.induct)
  case (runs_snoc l cs m c l')
  show ?case
  proof (cases "i \<in> set (popped cs)")
    case False
    then obtain pre' post' where m: "m = pre' @ i # post'" "length pre' + pops cs \<le> length pre"
      using runs_snoc by auto
    from runs_snoc(2) show ?thesis
    proof (cases rule: line_stepE)
      case (enqueue item n)
      with m show ?thesis by auto
    next
      case (cancel j)
      then have "j \<noteq> i" using runs_snoc.prems by auto
      with cancel m show ?thesis
        by (cases "j \<in> set pre'") (force simp: remove1_append length_remove1)+
    next
      case (pop item)
      with m show ?thesis by (cases pre') auto
    qed (use m in auto)
  qed simp
qed auto

section \<open>The scheduler\<close>

fun op_call :: "('c, 'f) queue_op \<Rightarrow> ('c, 'f) FIFO \<Rightarrow> ('c, 'f) queue_call" where
  "op_call (OpEnqueue item) q = CallEnqueue item (fst (Enqueue q item))"
| "op_call (OpCancel i) q = CallCancel i (fst (Cancel q i))"

text \<open>The calls on the queue that a run of the scheduler and the connections makes.\<close>

fun sched_calls :: "('c, 'f) sched_event list \<Rightarrow> ('c, 'f) FIFO \<Rightarrow> ('c, 'f) queue_call list" where
  "sched_calls [] q = []"
| "sched_calls (SchedDone # es) q = []"
| "sched_calls (SchedTick # es) q = CallPop (fst (Pop q)) # sched_calls es (snd (Pop q))"
| "sched_calls (SchedCall c # es) q = op_call c q # sched_calls es (apply_op c q)"

fun ticks :: "('c, 'f) sched_event list \<Rightarrow> nat" where
  "ticks [] = 0"
| "ticks (SchedDone # es) = 0"
| "ticks (SchedTick # es) = Suc (ticks es)"
| "ticks (SchedCall c # es) = ticks es"

definition outcome ::
    "('c context_handle \<Rightarrow> err option) \<Rightarrow> ('f \<Rightarrow> 'c context_handle \<Rightarrow> err option) \<Rightarrow>
     ('c, 'f) Item \<Rightarrow> err option" where
  "outcome ctx_err admit item =
     (case ctx_err (the (Context item)) of Some e \<Rightarrow> Some e
      | None \<Rightarrow> admit (the (Admit item)) (the (Context item)))"

lemma scheduler_tick_eq:
  "scheduler_tick ctx_err admit q =
     (case fst (Pop q) of None \<Rightarrow> [] | Some item \<Rightarrow> [(item, outcome ctx_err admit item)], snd (Pop q))"
  by (cases "Pop q") (auto simp: scheduler_tick_def outcome_def split: option.splits)

lemma queue_step_op: "queue_step q (op_call c q) (apply_op c q)"
  by (cases c) simp_all

lemma Run_loop_calls:
  "runs queue_step q (sched_calls es q) (snd (Run_loop ctx_err admit es q))"
proof (induction es q rule: sched_calls.induct)
  case (3 es q)
  then show ?case by (auto simp: scheduler_tick_eq split_beta intro!: runs_Cons)
next
  case (4 c es q)
  then show ?case using queue_step_op by (auto intro: runs_Cons)
qed (simp_all add: runs_Nil)

lemma accounts_Cons: "popped (c # cs) = popped_id c @ popped cs" "pops (c # cs) = (if is_pop c then Suc (pops cs) else pops cs)"
  by (simp_all add: popped_def pops_def)

lemma op_call_not_pop [simp]: "popped_id (op_call c q) = []" "\<not> is_pop (op_call c q)"
  by (cases c; simp)+

lemma Run_loop_results:
  "map (ID \<circ> fst) (fst (Run_loop ctx_err admit es q)) = popped (sched_calls es q)"
  "\<forall>(item, r) \<in> set (fst (Run_loop ctx_err admit es q)). r = outcome ctx_err admit item"
  "pops (sched_calls es q) = ticks es"
  "length (fst (Run_loop ctx_err admit es q)) \<le> ticks es"
  by (induction es q rule: sched_calls.induct)
    (auto simp: scheduler_tick_eq accounts_Cons split_beta split: option.splits)

lemma find_item_absent: "i \<notin> set (map ID xs) \<Longrightarrow> find_item i n xs = None"
  by (induction xs arbitrary: n) auto

section \<open>Properties\<close>

lemma queue_step_maxSize: "queue_step q c q' \<Longrightarrow> fifo_inv q \<Longrightarrow> maxSize q' = maxSize q"
proof (induction rule: queue_step.induct)
  case (1 q item r q')
  then show ?case by (auto simp: Enqueue_def Let_def split: if_splits)
next
  case (2 q i b q')
  then show ?case using Cancel_eq(5) [of q i] by simp
next
  case (3 q popped q')
  then show ?case using Pop_eq [of q popped q'] by auto
qed

lemma queue_runs_maxSize: "runs queue_step q cs q' \<Longrightarrow> fifo_inv q \<Longrightarrow> maxSize q' = maxSize q"
proof (induction rule: runs.induct)
  case (runs_snoc q cs q' c q'')
  then show ?case using queue_step_maxSize fq.inv_runs by metis
qed simp

lemma FIFO_Position_line:
  assumes "FIFO_Position q i = Some p"
  shows "\<exists>pre post. line q = pre @ i # post \<and> p = length pre + 1"
proof -
  obtain n where n: "find_item i 0 (items q) = Some n" "p = n + 1"
    using assms by (auto simp: FIFO_Position_def split: option.splits)
  then have "n < length (line q)" "line q ! n = i" using find_item_Some by (fastforce simp: line_def)+
  then have "line q = take n (line q) @ i # drop (Suc n) (line q)" "length (take n (line q)) = n"
    using id_take_nth_drop [of n "line q"] by auto
  with n(2) show ?thesis by (intro exI [of _ "take n (line q)"] exI [of _ "drop (Suc n) (line q)"]) simp
qed

lemma find_item_append:
  "find_item i 0 (xs @ ys) =
     (if i \<in> set (map ID xs) then find_item i 0 xs else map_option (\<lambda>n. n + length xs) (find_item i 0 ys))"
proof (induction xs)
  case (Cons x xs)
  then show ?case by (auto simp: find_item_shift option.map_comp comp_def simp del: set_map)
qed (simp add: option.map_ident)

text \<open>
  C5: the queue loses, duplicates and reorders nothing. After any sequence of calls on a new
  queue, every accepted player is served, cancelled or still waiting, exactly once; the
  served players followed by the waiting ones are in order of acceptance; no player waits
  twice, and never more players wait than the capacity.
\<close>

theorem queue_conserves:
  assumes "runs queue_step (New_FIFO k) cs q"
  shows "mset (accepted cs) = mset (popped cs) + mset (cancelled cs) + mset (line q) \<and>
    subseq (popped cs @ line q) (accepted cs) \<and> distinct (line q) \<and>
    int (length (line q)) \<le> (if k \<le> 0 then 1024 else k)"
proof -
  have line_New: "line (New_FIFO k) = []" by (simp add: line_def New_FIFO_def Let_def)
  have run: "runs line_step [] cs (line q)"
    using fq.sim_runs [OF assms fifo_inv_New] by (simp add: line_New)
  have "fifo_inv q" "maxSize q = (if k \<le> 0 then 1024 else k)"
    using fq.inv_runs [OF assms fifo_inv_New] queue_runs_maxSize [OF assms fifo_inv_New]
    by (simp_all add: New_FIFO_def Let_def)
  with line_runs_account [OF run] line_runs_order [OF run] show ?thesis
    by (simp add: fifo_inv_def line_def)
qed

definition waiting_item :: "string \<Rightarrow> (nat, nat) Item" where
  "waiting_item i = \<lparr>ID = i, Context = None, Admit = Some 0\<rparr>"

theorem queue_conserves_witness:
  "\<exists>q. runs queue_step (New_FIFO 2 :: (nat, nat) FIFO)
       [CallEnqueue (waiting_item ''a'') (Ok 1), CallEnqueue (waiting_item ''b'') (Ok 2),
        CallEnqueue (waiting_item ''c'') (Fail ErrFull), CallCancel ''a'' True] q \<and>
     distinct (line q) \<and> line q = [''b'']"
proof -
  let ?cs = "[CallEnqueue (waiting_item ''a'') (Ok 1), CallEnqueue (waiting_item ''b'') (Ok 2),
        CallEnqueue (waiting_item ''c'') (Fail ErrFull), CallCancel ''a'' True]"
  obtain q where run: "runs queue_step (New_FIFO 2 :: (nat, nat) FIFO) ?cs q" and "line q = [''b'']"
    by (simp add: runs_Cons_iff New_FIFO_def Enqueue_def waiting_item_def Cancel_def remove_at_def Let_def
        line_def)
  with queue_conserves [OF run] show ?thesis by blast
qed

text \<open>
  C6: what \<open>Enqueue\<close> accepts and refuses. It accepts an item exactly when the item has an identifier and a
  callback, its player is not waiting and there is room. Then the player is last in the line, at the
  reported position, and everybody else keeps theirs. Otherwise it reports, in this order, an incomplete
  item, a duplicate or a full queue, and changes nothing.
\<close>

theorem Enqueue_correct:
  assumes "fifo_inv q"
  shows "case Enqueue q item of
      (Ok n, q') \<Rightarrow>
        ID item \<noteq> '''' \<and> Admit item \<noteq> None \<and> ID item \<notin> set (line q) \<and> int (Len q) < maxSize q \<and>
        line q' = line q @ [ID item] \<and> FIFO_Position q' (ID item) = Some n \<and> n = Len q' \<and> maxSize q' = maxSize q \<and>
        fifo_inv q' \<and>
        (\<forall>i. i \<noteq> ID item \<longrightarrow> FIFO_Position q' i = FIFO_Position q i)
    | (Fail e, q') \<Rightarrow> q' = q \<and>
        (if ID item = '''' \<or> Admit item = None then e = ErrText ''queue item requires ID and Admit callback''
         else if ID item \<in> set (line q) then e = ErrDuplicate
         else e = ErrFull \<and> int (Len q) = maxSize q)
    | (Panic, q') \<Rightarrow> False"
proof (cases "ID item = '''' \<or> Admit item = None \<or> ID item \<in> set (line q) \<or> int (Len q) \<ge> maxSize q")
  case True
  then show ?thesis using assms by (auto simp: Enqueue_def line_def fifo_inv_def Len_def)
next
  case False
  define stored where "stored = (if Context item = None then item\<lparr>Context := Some Background\<rparr> else item)"
  have stored: "ID stored = ID item" by (simp add: stored_def)
  have "Enqueue q item = (Ok (Len q + 1), q\<lparr>items := items q @ [stored], queued := insert (ID item) (queued q)\<rparr>)"
    using False assms by (auto simp: Enqueue_def line_def fifo_inv_def Len_def stored_def Let_def)
  moreover have "find_item i 0 (items q @ [stored]) = find_item i 0 (items q)" if "i \<noteq> ID item" for i
    using find_item_append [of i "items q" "[stored]"] find_item_absent [of i "items q"] that stored by (simp del: set_map)
  moreover have "find_item (ID item) 0 (items q @ [stored]) = Some (Len q)"
    using find_item_append [of "ID item" "items q" "[stored]"] False stored by (simp add: line_def Len_def del: set_map)
  ultimately show ?thesis
    using False stored fifo_inv_Enqueue [OF assms, of item] by (simp add: line_def FIFO_Position_def Len_def)
qed

theorem Enqueue_correct_witness:
  "Enqueue (New_FIFO 1 :: (nat, nat) FIFO) (waiting_item ''a'') =
     (Ok 1, snd (Enqueue (New_FIFO 1) (waiting_item ''a''))) \<and>
   FIFO_Position (snd (Enqueue (New_FIFO 1 :: (nat, nat) FIFO) (waiting_item ''a''))) ''a'' = Some 1"
  using Enqueue_correct [OF fifo_inv_New [of 1], of "waiting_item ''a'' :: (nat, nat) Item"]
  by (simp add: Enqueue_def New_FIFO_def waiting_item_def Let_def)

text \<open>
  C7: no starvation. A player at position \<open>p\<close> of the admission queue, who does not cancel, is
  handed to \<open>OnResult\<close> within \<open>p\<close> ticks of the scheduler, whatever other players enqueue and
  cancel in between; the result is the context's error if the player's context ended, and
  otherwise the result of the admission callback.
\<close>

theorem scheduler_no_starvation:
  assumes "fifo_inv q" "FIFO_Position q i = Some p" "p \<le> ticks es"
    "i \<notin> set (cancelled (sched_calls es q))"
  shows "\<exists>item. ID item = i \<and> (item, outcome ctx_err admit item) \<in> set (fst (Run_loop ctx_err admit es q))"
proof -
  obtain pre post where line: "line q = pre @ i # post" "p = length pre + 1"
    using FIFO_Position_line [OF assms(2)] by blast
  have "runs line_step (line q) (sched_calls es q) (line (snd (Run_loop ctx_err admit es q)))"
    using fq.sim_runs [OF Run_loop_calls assms(1)] .
  then have "i \<in> set (popped (sched_calls es q))"
    using line_runs_served [OF _ line(1) assms(4)] assms(3) line(2) Run_loop_results(3) [of es q]
    by fastforce
  then obtain item r where "(item, r) \<in> set (fst (Run_loop ctx_err admit es q))" "ID item = i"
    unfolding Run_loop_results(1) [of ctx_err admit es q, symmetric] by auto
  with Run_loop_results(2) [where es = es and q = q] show ?thesis by fastforce
qed

theorem scheduler_no_starvation_witness:
  "\<exists>item. ID item = ''a'' \<and>
     (item, outcome (\<lambda>_. None) (\<lambda>_ _. None) item) \<in>
       set (fst (Run_loop (\<lambda>_. None) (\<lambda>_ _. None) [SchedCall (OpEnqueue (waiting_item ''b'')), SchedTick]
         (snd (Enqueue (New_FIFO 2) (waiting_item ''a'')))))"
  by (rule scheduler_no_starvation [where p = 1, OF fifo_inv_Enqueue [OF fifo_inv_New]])
    (simp_all add: New_FIFO_def Enqueue_def waiting_item_def Let_def FIFO_Position_def cancelled_def)

end
