(* ===== verification/Limiter.thy ===== *)
theory Limiter
  imports Windows
begin

text \<open>
  The login rate limiter, \<open>internal/ratelimit/limiter.go\<close>. Times are nanoseconds on one
  clock. The theorems show that the limiter with its compacted logs and periodic cleanup
  decides exactly as the unbounded history of granted requests would, and that no window ever
  holds more granted requests of a key than the limit.
\<close>

section \<open>Definitions\<close>

record Limiter =
  limit :: int
  window :: duration
  events :: "string \<rightharpoonup> time list"
  requests :: uint64

definition New_Limiter :: "int \<Rightarrow> duration \<Rightarrow> Limiter" where
  "New_Limiter n w =
     (let n = (if n \<le> 0 then 10 else n); w = (if w \<le> 0 then 10 * 1000000000 else w)
      in \<lparr>limit = n, window = w, events = Map.empty, requests = 0\<rparr>)"

definition cleanup :: "Limiter \<Rightarrow> time \<Rightarrow> Limiter" where
  "cleanup l cutoff =
     l\<lparr>events := (\<lambda>key.
       case events l key of
         None \<Rightarrow> None
       | Some log \<Rightarrow> if length log = 0 \<or> \<not> last log > cutoff then None else Some log)\<rparr>"

definition Allow :: "Limiter \<Rightarrow> string \<Rightarrow> time \<Rightarrow> bool \<times> Limiter" where
  "Allow l key now =
     (let cutoff = now - window l;
          log = (case events l key of None \<Rightarrow> [] | Some log \<Rightarrow> log);
          log = drop (first_fresh (\<lambda>t. \<not> t > cutoff) log) log;
          allowed = int (length log) < limit l;
          log = (if allowed then log @ [now] else log);
          l = (if length log = 0 then l\<lparr>events := (events l)(key := None)\<rparr>
               else l\<lparr>events := (events l)(key \<mapsto> log)\<rparr>);
          l = l\<lparr>requests := requests l + 1\<rparr>;
          l = (if requests l mod 1024 = 0 then cleanup l cutoff else l)
      in (allowed, l))"

definition limiter_step :: "Limiter \<Rightarrow> string \<times> time \<times> bool \<Rightarrow> Limiter \<Rightarrow> bool" where
  "limiter_step l e l' = (case e of (key, now, allowed) \<Rightarrow> Allow l key now = (allowed, l'))"

section \<open>The history decides\<close>

interpretation lw: sliding_window "\<lambda>now t. t > now - w" for w
  by unfold_locales auto

definition granted :: "string \<Rightarrow> (string \<times> time \<times> bool) list \<Rightarrow> time list" where
  "granted key es = [t. (k, t, a) \<leftarrow> es, k = key \<and> a]"

definition log_of :: "Limiter \<Rightarrow> string \<Rightarrow> time list" where
  "log_of l key = (case events l key of None \<Rightarrow> [] | Some log \<Rightarrow> log)"

definition limiter_rel :: "Limiter \<Rightarrow> time \<Rightarrow> (string \<Rightarrow> time list) \<Rightarrow> bool" where
  "limiter_rel l t0 h \<longleftrightarrow> (\<forall>key. agrees (\<lambda>now t. t > now - window l) t0 (log_of l key) (h key))"

lemma log_of_cleanup:
  "log_of (cleanup l cutoff) key =
     (if log_of l key = [] \<or> \<not> last (log_of l key) > cutoff then [] else log_of l key)"
  by (auto simp: log_of_def cleanup_def split: option.splits)

text \<open>The log of the key after the request, before any cleanup.\<close>

definition Allow_log :: "Limiter \<Rightarrow> string \<Rightarrow> time \<Rightarrow> time list" where
  "Allow_log l key now =
     (let log = filter (\<lambda>t. t > now - window l) (log_of l key)
      in if int (length log) < limit l then log @ [now] else log)"

lemma Allow_eq:
  assumes "agrees (\<lambda>now t. t > now - window l) t0 (log_of l key) h" "t0 \<le> now"
  shows "fst (Allow l key now) \<longleftrightarrow> int (length (filter (\<lambda>t. t > now - window l) h)) < limit l"
    "log_of (snd (Allow l key now)) k =
       (let log = (if k = key then Allow_log l key now else log_of l k)
        in if (requests l + 1) mod 1024 = 0 \<and> (log = [] \<or> \<not> last log > now - window l) then [] else log)"
proof -
  have trim: "drop (first_fresh (\<lambda>t. \<not> t > now - window l) (log_of l key)) (log_of l key) =
      filter (\<lambda>t. t > now - window l) (log_of l key)"
    using lw.agrees_drop [OF assms(1)] .
  show "fst (Allow l key now) \<longleftrightarrow> int (length (filter (\<lambda>t. t > now - window l) h)) < limit l"
    using trim lw.agrees_window [OF assms]
    by (simp add: Allow_def Let_def log_of_def del: length_drop)
  let ?log = "Allow_log l key now"
  define l1 where "l1 = (if ?log = [] then l\<lparr>events := (events l)(key := None)\<rparr>
    else l\<lparr>events := (events l)(key \<mapsto> ?log)\<rparr>)\<lparr>requests := requests l + 1\<rparr>"
  have "snd (Allow l key now) = (if (requests l + 1) mod 1024 = 0 then cleanup l1 (now - window l) else l1)"
    using trim by (auto simp add: l1_def Allow_def Let_def Allow_log_def log_of_def simp del: length_drop)
  moreover have "log_of l1 k = (if k = key then ?log else log_of l k)" by (auto simp: l1_def log_of_def)
  ultimately show "log_of (snd (Allow l key now)) k =
       (let log = (if k = key then Allow_log l key now else log_of l k)
        in if (requests l + 1) mod 1024 = 0 \<and> (log = [] \<or> \<not> last log > now - window l) then [] else log)"
    by (cases "k = key") (simp_all add: log_of_cleanup Let_def)
qed

lemma window_Allow [simp]: "window (snd (Allow l key now)) = window l" "limit (snd (Allow l key now)) = limit l"
  by (simp_all add: Allow_def Let_def cleanup_def)

lemma limiter_rel_Allow:
  assumes "limiter_rel l t0 h" "t0 \<le> now"
  shows "limiter_rel (snd (Allow l key now)) now
    (h(key := h key @ (if fst (Allow l key now) then [now] else [])))"
  unfolding limiter_rel_def window_Allow
proof
  fix k
  let ?fresh = "\<lambda>now t. t > now - window l"
  let ?h = "h(key := h key @ (if fst (Allow l key now) then [now] else []))"
  let ?log = "if k = key then Allow_log l key now else log_of l k"
  have old: "agrees ?fresh t0 (log_of l k) (h k)" for k
    using assms(1) by (simp add: limiter_rel_def)
  have "agrees ?fresh now (Allow_log l key now) (h key @ (if fst (Allow l key now) then [now] else []))"
    using lw.agrees_trim [OF old assms(2), of key] lw.agrees_snoc [OF lw.agrees_trim [OF old assms(2), of key]]
      Allow_eq(1) [OF old assms(2), of key] lw.agrees_window [OF old assms(2), of key]
    by (simp add: Allow_log_def Let_def)
  then have "agrees ?fresh now ?log (?h k)"
    using lw.agrees_later [OF old assms(2)] by simp
  then show "agrees ?fresh now (log_of (snd (Allow l key now)) k) (?h k)"
    using lw.agrees_delete [of "window l" now ?log "?h k" now] Allow_eq(2) [OF old assms(2), of key k]
    by (auto simp: Let_def)
qed

definition in_window :: "duration \<Rightarrow> time \<Rightarrow> time list \<Rightarrow> time list" where
  "in_window w now ts = filter (\<lambda>t. t > now - w) ts"

definition times :: "(string \<times> time \<times> bool) list \<Rightarrow> time list" where
  "times es = map (\<lambda>(k, t, a). t) es"

lemma granted_snoc:
  "granted key (es @ [(k, t, a)]) = granted key es @ (if k = key \<and> a then [t] else [])"
  by (simp add: granted_def)

lemma limiter_runs:
  assumes "runs limiter_step (New_Limiter n w) es l" "sorted (times es)" "\<forall>t \<in> set (times es). t \<le> t0"
  shows "limiter_rel l t0 (\<lambda>key. granted key es) \<and> limit l = limit (New_Limiter n w) \<and>
    window l = window (New_Limiter n w)"
  using assms
proof (induction "New_Limiter n w" es l arbitrary: t0 rule: runs.induct)
  case runs_Nil
  then show ?case
    by (simp add: limiter_rel_def log_of_def New_Limiter_def Let_def granted_def lw.agrees_Nil)
next
  case (runs_snoc es l e l')
  obtain key now a where e: "e = (key, now, a)" by (cases e)
  then have l': "a = fst (Allow l key now)" "l' = snd (Allow l key now)"
    using runs_snoc(3) by (auto simp: limiter_step_def)
  have "limiter_rel l now (\<lambda>key. granted key es)"
    using runs_snoc.hyps(2) [of now] runs_snoc.prems e by (auto simp: times_def sorted_append)
  from limiter_rel_Allow [OF this order_refl, of key]
  have "limiter_rel l' now (\<lambda>k. granted k (es @ [e]))"
    unfolding l' e by (auto simp: granted_snoc fun_upd_def l'(1) elim!: back_subst [where P = "limiter_rel _ _"])
  moreover have "now \<le> t0" using runs_snoc.prems e by (auto simp: times_def)
  ultimately have "limiter_rel l' t0 (\<lambda>k. granted k (es @ [e]))"
    unfolding limiter_rel_def using lw.agrees_later by blast
  moreover have "limit l' = limit l" "window l' = window l" by (simp_all add: l')
  ultimately show ?case
    using runs_snoc.hyps(2) [of now] runs_snoc.prems e by (auto simp: times_def sorted_append)
qed

section \<open>Properties\<close>

lemma length_filter_le: "(\<And>x. x \<in> set xs \<Longrightarrow> P x \<Longrightarrow> Q x) \<Longrightarrow> length (filter P xs) \<le> length (filter Q xs)"
  by (induction xs) auto

lemma limiter_decides:
  assumes "runs limiter_step (New_Limiter n w) es l" "sorted (times es)" "\<forall>t \<in> set (times es). t \<le> now"
  shows "fst (Allow l key now) \<longleftrightarrow>
    int (length (in_window (window (New_Limiter n w)) now (granted key es))) < limit (New_Limiter n w)"
proof -
  have "limiter_rel l now (\<lambda>key. granted key es)" and
    same: "limit l = limit (New_Limiter n w)" "window l = window (New_Limiter n w)"
    using limiter_runs [OF assms] by blast+
  then have agree: "agrees (\<lambda>now t. t > now - window l) now (log_of l key) (granted key es)"
    by (simp add: limiter_rel_def)
  show ?thesis unfolding Allow_eq(1) [OF agree order_refl] unfolding same in_window_def by simp
qed

lemma limiter_window_bound:
  assumes "runs limiter_step (New_Limiter n w) es l" "sorted (times es)"
  shows "int (length (filter (\<lambda>t. T - window (New_Limiter n w) < t \<and> t \<le> T) (granted key es)))
    \<le> limit (New_Limiter n w)"
  using assms
proof (induction "New_Limiter n w" es l rule: runs.induct)
  case runs_Nil
  then show ?case by (simp add: granted_def New_Limiter_def Let_def)
next
  case (runs_snoc es l e l')
  obtain k t a where e: "e = (k, t, a)" by (cases e)
  have past: "\<forall>t' \<in> set (times es). t' \<le> t" "sorted (times es)"
    using runs_snoc.prems e by (auto simp: times_def sorted_append)
  let ?in = "\<lambda>t. T - window (New_Limiter n w) < t \<and> t \<le> T"
  show ?case
  proof (cases "k = key \<and> a \<and> ?in t")
    case True
    then have "fst (Allow l key t)" using runs_snoc(3) e by (simp add: limiter_step_def)
    then have "int (length (in_window (window (New_Limiter n w)) t (granted key es))) < limit (New_Limiter n w)"
      using limiter_decides [OF runs_snoc(1) past(2,1), of key] by blast
    moreover have "length (filter ?in (granted key es)) \<le>
        length (in_window (window (New_Limiter n w)) t (granted key es))"
      unfolding in_window_def using True by (intro length_filter_le) auto
    ultimately show ?thesis using True unfolding e granted_snoc by simp
  next
    case False
    then have "filter ?in (granted key (es @ [e])) = filter ?in (granted key es)"
      unfolding e granted_snoc by auto
    then show ?thesis using runs_snoc.hyps(2) [OF past(2)] by simp
  qed
qed

text \<open>
  C10: the limiter decides as the full history would. Whatever requests came before, with
  non-decreasing times and across any number of cleanups, a request is allowed exactly when
  fewer than the limit were granted to the same key within the window before it.
\<close>

theorem limiter_exact:
  assumes "runs limiter_step (New_Limiter n w) es l" "sorted (times es)" "\<forall>t \<in> set (times es). t \<le> now"
  shows "fst (Allow l key now) \<longleftrightarrow>
    int (length [t \<leftarrow> granted key es. now - (if w \<le> 0 then 10 * 1000000000 else w) < t])
      < (if n \<le> 0 then 10 else n)"
  using limiter_decides [OF assms, of key] by (simp add: New_Limiter_def Let_def in_window_def)

definition limiter_example :: "(string \<times> time \<times> bool) list" where
  "limiter_example = [(''a'', 1, True), (''a'', 2, True), (''a'', 3, False), (''b'', 3, True)]"

lemma limiter_example_run: "\<exists>l. runs limiter_step (New_Limiter 2 5) limiter_example l"
proof -
  have "Allow (New_Limiter 2 5) ''a'' 1 =
      (True, \<lparr>limit = 2, window = 5, events = [''a'' \<mapsto> [1]], requests = 1\<rparr>)"
    "Allow \<lparr>limit = 2, window = 5, events = [''a'' \<mapsto> [1]], requests = 1\<rparr> ''a'' 2 =
      (True, \<lparr>limit = 2, window = 5, events = [''a'' \<mapsto> [1, 2]], requests = 2\<rparr>)"
    "Allow \<lparr>limit = 2, window = 5, events = [''a'' \<mapsto> [1, 2]], requests = 2\<rparr> ''a'' 3 =
      (False, \<lparr>limit = 2, window = 5, events = [''a'' \<mapsto> [1, 2]], requests = 3\<rparr>)"
    "fst (Allow \<lparr>limit = 2, window = 5, events = [''a'' \<mapsto> [1, 2]], requests = 3\<rparr> ''b'' 3)"
    by (simp_all add: Allow_def New_Limiter_def Let_def)
  then show ?thesis
    unfolding limiter_example_def by (auto simp: runs_Cons_iff limiter_step_def prod_eq_iff)
qed

lemma limiter_example_times: "sorted (times limiter_example)" "\<forall>t \<in> set (times limiter_example). t \<le> 6"
  by (simp_all add: limiter_example_def times_def)

theorem limiter_exact_witness:
  "\<exists>l. runs limiter_step (New_Limiter 2 5) limiter_example l \<and> fst (Allow l ''a'' 6)"
proof -
  obtain l where "runs limiter_step (New_Limiter 2 5) limiter_example l" using limiter_example_run by blast
  with limiter_exact [OF this limiter_example_times, of "''a''"] show ?thesis
    by (auto simp: limiter_example_def granted_def)
qed

text \<open>
  C11: the rate limit holds. In any run with non-decreasing times, and for every interval as
  long as the window, no more requests of a key than the limit are granted inside it.
\<close>

theorem limiter_bound:
  assumes "runs limiter_step (New_Limiter n w) es l" "sorted (times es)"
  shows "int (length [t \<leftarrow> granted key es. T - (if w \<le> 0 then 10 * 1000000000 else w) < t \<and> t \<le> T])
    \<le> (if n \<le> 0 then 10 else n)"
  using limiter_window_bound [OF assms, of T key] by (simp add: New_Limiter_def Let_def)

theorem limiter_bound_witness:
  "(\<exists>l. runs limiter_step (New_Limiter 2 5) limiter_example l) \<and>
   int (length [t \<leftarrow> granted ''a'' limiter_example. 3 - 5 < t \<and> t \<le> 3]) \<le> 2"
proof -
  obtain l where "runs limiter_step (New_Limiter 2 5) limiter_example l" using limiter_example_run by blast
  with limiter_bound [OF this limiter_example_times(1), of 3 "''a''"] show ?thesis by auto
qed

end
