(* ===== verification/Challenge.thy ===== *)
theory Challenge
  imports Forwarding
begin

text \<open>
  Verification hooks, \<open>internal/challenge/challenge.go\<close>. A hook may keep state, which is
  passed through; a nil hook in a chain is \<open>None\<close>. The chain's contract: the hooks run in
  order, the first rejection ends the chain and is its result.
\<close>

type_synonym ('c, 's) Hook = "'c \<Rightarrow> PlayerIdentity \<Rightarrow> 's \<Rightarrow> err option \<times> 's"

definition Func_Verify :: "('c, 's) Hook \<Rightarrow> ('c, 's) Hook" where
  "Func_Verify f ctx identity s = f ctx identity s"

fun Chain_Verify :: "('c, 's) Hook option list \<Rightarrow> ('c, 's) Hook" where
  "Chain_Verify [] ctx identity s = (None, s)"
| "Chain_Verify (None # hooks) ctx identity s = Chain_Verify hooks ctx identity s"
| "Chain_Verify (Some hook # hooks) ctx identity s =
     (case hook ctx identity s of
        (Some e, s) \<Rightarrow> (Some e, s)
      | (None, s) \<Rightarrow> Chain_Verify hooks ctx identity s)"

lemma Chain_Verify_append:
  "Chain_Verify (hooks @ hooks') ctx identity s =
     (case Chain_Verify hooks ctx identity s of
        (Some e, s) \<Rightarrow> (Some e, s)
      | (None, s) \<Rightarrow> Chain_Verify hooks' ctx identity s)"
  by (induction hooks ctx identity s rule: Chain_Verify.induct) (auto split: prod.splits option.splits)

lemma Chain_Verify_rejects:
  "Chain_Verify hooks ctx identity s = (Some e, s') \<Longrightarrow>
     \<exists>pre hook post t. hooks = pre @ Some hook # post \<and> Chain_Verify pre ctx identity s = (None, t) \<and>
       hook ctx identity t = (Some e, s')"
proof (induction hooks ctx identity s rule: Chain_Verify.induct)
  case (2 hooks ctx identity s)
  then obtain pre hook post t where "hooks = pre @ Some hook # post"
    "Chain_Verify pre ctx identity s = (None, t)" "hook ctx identity t = (Some e, s')" by auto
  then have "None # hooks = (None # pre) @ Some hook # post"
    "Chain_Verify (None # pre) ctx identity s = (None, t)" "hook ctx identity t = (Some e, s')" by simp_all
  then show ?case by blast
next
  case (3 hook hooks ctx identity s)
  obtain r t where h: "hook ctx identity s = (r, t)" by fastforce
  show ?case
  proof (cases r)
    case (Some e')
    with 3 h have "Some hook # hooks = [] @ Some hook # hooks"
      "Chain_Verify [] ctx identity s = (None, s)" "hook ctx identity s = (Some e, s')" by simp_all
    then show ?thesis by blast
  next
    case None
    with 3 h obtain pre hook' post t' where "hooks = pre @ Some hook' # post"
      "Chain_Verify pre ctx identity t = (None, t')" "hook' ctx identity t' = (Some e, s')" by fastforce
    with None h have "Some hook # hooks = (Some hook # pre) @ Some hook' # post"
      "Chain_Verify (Some hook # pre) ctx identity s = (None, t')" "hook' ctx identity t' = (Some e, s')"
      by simp_all
    then show ?thesis by blast
  qed
qed simp

end
