(* ===== verification/BotFilter.thy ===== *)
theory BotFilter
  imports Windows Forwarding "HOL-Library.AList"
begin

text \<open>
  The reputation filter of \<open>internal/botfilter/filter.go\<close>. The maps are association lists
  with distinct keys; \<open>time.Now()\<close> is an argument; the file system and the YAML decoder are
  parameters of \<open>LoadFile\<close> and \<open>reload\<close>. Every method holds the mutex, so concurrent use is a
  sequence of calls.

  The theorems show that the filter observes exactly the addresses whose attempts or user
  names within the policy's windows reach the thresholds, however often the logs are pruned;
  that a denial by reputation is justified by recorded violations; and that the entry point
  the server uses never denies.
\<close>

section \<open>Policies\<close>

datatype Verdict = Allow | Observe | Deny

record Evidence =
  Identity :: PlayerIdentity
  OnlineMode :: bool
  RemoteIP :: string
  ActiveFromIP :: int
  RecentAttempts :: int
  ev_UsernameChurn :: int
  ValidKeepAlives :: int
  ProtocolViolation :: bool

record Decision =
  d_Verdict :: Verdict
  ObserveFor :: duration
  RuleID :: string

record Event =
  ev_IP :: string
  ev_Username :: string
  ev_At :: time
  Violation :: bool

record Observation =
  Hold :: duration
  KeepAliveInterval :: duration
  RequiredKeepAlives :: int

record Reputation =
  rep_Window :: duration
  ViolationLimit :: int
  DenyTTL :: duration

record Signals =
  SoftLoginBurst :: int
  BurstWindow :: duration
  UsernameChurn :: int
  ChurnWindow :: duration

record FilterPolicy =
  Enabled :: bool
  p_Observation :: Observation
  p_Reputation :: Reputation
  p_Signals :: Signals

record Policy =
  Version :: int
  p_BotFilter :: FilterPolicy

definition seconds :: "int \<Rightarrow> duration" where
  "seconds n = n * 1000000000"

definition DefaultPolicy :: Policy where
  "DefaultPolicy =
     \<lparr>Version = 1,
      p_BotFilter =
       \<lparr>Enabled = False,
        p_Observation = \<lparr>Hold = seconds 10, KeepAliveInterval = seconds 3, RequiredKeepAlives = 2\<rparr>,
        p_Reputation = \<lparr>rep_Window = seconds (5 * 60), ViolationLimit = 3, DenyTTL = seconds (10 * 60)\<rparr>,
        p_Signals = \<lparr>SoftLoginBurst = 4, BurstWindow = seconds 10, UsernameChurn = 6,
                     ChurnWindow = seconds 60\<rparr>\<rparr>\<rparr>"

definition Validate :: "Policy \<Rightarrow> unit res" where
  "Validate p =
     (let f = p_BotFilter p in
      if Version p \<noteq> 0 \<and> Version p \<noteq> 1
      then Fail (ErrText (''unsupported bot filter policy version '' @ show_int (Version p)))
      else if \<not> Enabled f then Ok ()
      else if Hold (p_Observation f) \<le> 0 \<or> KeepAliveInterval (p_Observation f) \<le> 0
              \<or> RequiredKeepAlives (p_Observation f) \<le> 0
      then Fail (ErrText ''bot_filter observation values must be positive'')
      else if rep_Window (p_Reputation f) \<le> 0 \<or> ViolationLimit (p_Reputation f) \<le> 0
              \<or> DenyTTL (p_Reputation f) \<le> 0
      then Fail (ErrText ''bot_filter reputation values must be positive'')
      else if SoftLoginBurst (p_Signals f) \<le> 0 \<or> BurstWindow (p_Signals f) \<le> 0
              \<or> UsernameChurn (p_Signals f) \<le> 0 \<or> ChurnWindow (p_Signals f) \<le> 0
      then Fail (ErrText ''bot_filter signal values must be positive'')
      else Ok ())"

definition LoadFile ::
    "(string \<Rightarrow> bytes res) \<Rightarrow> (bytes \<Rightarrow> Policy \<Rightarrow> Policy res) \<Rightarrow> string \<Rightarrow> Policy res" where
  "LoadFile os_ReadFile yaml_Unmarshal path =
     rbind (os_ReadFile path) (\<lambda>data.
     let policy = DefaultPolicy in
     (case yaml_Unmarshal data policy of
        Fail e \<Rightarrow> Fail (ErrWrap ''parse bot filter policy'' e)
      | Panic \<Rightarrow> Panic
      | Ok policy \<Rightarrow> rbind (Validate policy) (\<lambda>_. Ok policy)))"

section \<open>The manager\<close>

record reputation =
  BurstAttempts :: "time list"
  Usernames :: "(string \<times> time) list"
  Violations :: "time list"
  BlockedUntil :: time

text \<open>Times count from Go's zero time, which is the zero value of \<open>BlockedUntil\<close>.\<close>

definition new_reputation :: reputation where
  "new_reputation = \<lparr>BurstAttempts = [], Usernames = [], Violations = [], BlockedUntil = 0\<rparr>"

record FilterMetrics =
  Allowed :: uint64
  Observed :: uint64
  Denied :: uint64
  ActiveObservations :: uint64
  ReputationEntries :: uint64
  ReloadFailures :: uint64

record Manager =
  policy :: Policy
  entries :: "(string \<times> reputation) list"
  path :: string
  modTime :: time
  allowed :: uint64
  observed :: uint64
  denied :: uint64
  reloads :: uint64
  active :: uint64

definition New_Manager :: "Policy \<Rightarrow> string \<Rightarrow> Manager" where
  "New_Manager p file = \<lparr>policy = p, entries = [], path = file, modTime = 0, allowed = 0, observed = 0,
     denied = 0, reloads = 0, active = 0\<rparr>"

definition keepTimes :: "time list \<Rightarrow> time \<Rightarrow> time list" where
  "keepTimes values cutoff = drop (first_fresh (\<lambda>t. t < cutoff) values) values"

definition prune :: "reputation \<Rightarrow> time \<Rightarrow> FilterPolicy \<Rightarrow> reputation" where
  "prune entry now pol =
     entry\<lparr>BurstAttempts := keepTimes (BurstAttempts entry) (now - BurstWindow (p_Signals pol)),
            Violations := keepTimes (Violations entry) (now - rep_Window (p_Reputation pol)),
            Usernames := filter (\<lambda>(username, at). \<not> at < now - ChurnWindow (p_Signals pol)) (Usernames entry)\<rparr>"

definition recordViolation :: "reputation \<Rightarrow> time \<Rightarrow> FilterPolicy \<Rightarrow> reputation" where
  "recordViolation entry now pol =
     (let entry = entry\<lparr>Violations := Violations entry @ [now]\<rparr>
      in if int (length (Violations entry)) \<ge> ViolationLimit (p_Reputation pol)
         then entry\<lparr>BlockedUntil := now + DenyTTL (p_Reputation pol)\<rparr> else entry)"

definition entry_of :: "Manager \<Rightarrow> string \<Rightarrow> reputation" where
  "entry_of m ip = (case map_of (entries m) ip of None \<Rightarrow> new_reputation | Some entry \<Rightarrow> entry)"

definition put_entry :: "string \<Rightarrow> reputation \<Rightarrow> Manager \<Rightarrow> Manager" where
  "put_entry ip entry m = m\<lparr>entries := AList.update ip entry (entries m)\<rparr>"

definition cleanup_entry :: "FilterPolicy \<Rightarrow> time \<Rightarrow> string \<times> reputation \<Rightarrow> (string \<times> reputation) list" where
  "cleanup_entry pol now = (\<lambda>(ip, entry).
     if \<not> Enabled pol then []
     else
       let entry = prune entry now pol in
       if length (BurstAttempts entry) = 0 \<and> length (Usernames entry) = 0 \<and> length (Violations entry) = 0
          \<and> \<not> BlockedUntil entry > now
       then [] else [(ip, entry)])"

definition filter_cleanup :: "Manager \<Rightarrow> time \<Rightarrow> Manager" where
  "filter_cleanup m now =
     m\<lparr>entries := concat (map (cleanup_entry (p_BotFilter (policy m)) now) (entries m))\<rparr>"

text \<open>\<open>os_Stat\<close> returns the modification time of the policy file.\<close>

definition reload ::
    "(string \<Rightarrow> time res) \<Rightarrow> (string \<Rightarrow> bytes res) \<Rightarrow> (bytes \<Rightarrow> Policy \<Rightarrow> Policy res) \<Rightarrow> Manager \<Rightarrow> Manager" where
  "reload os_Stat os_ReadFile yaml_Unmarshal m =
     (case os_Stat (path m) of
        Ok ModTime \<Rightarrow>
          if \<not> ModTime > modTime m then m
          else
            (case LoadFile os_ReadFile yaml_Unmarshal (path m) of
               Ok p \<Rightarrow> m\<lparr>policy := p, modTime := ModTime\<rparr>
             | _ \<Rightarrow> m\<lparr>reloads := reloads m + 1\<rparr>)
      | _ \<Rightarrow> m\<lparr>reloads := reloads m + 1\<rparr>)"

text \<open>One tick of the loop that \<open>Start\<close> runs.\<close>

definition Start_tick ::
    "(string \<Rightarrow> time res) \<Rightarrow> (string \<Rightarrow> bytes res) \<Rightarrow> (bytes \<Rightarrow> Policy \<Rightarrow> Policy res) \<Rightarrow> time \<Rightarrow> Manager \<Rightarrow> Manager" where
  "Start_tick os_Stat os_ReadFile yaml_Unmarshal now m =
     (let m = filter_cleanup m now
      in if path m \<noteq> '''' then reload os_Stat os_ReadFile yaml_Unmarshal m else m)"

definition Evaluate :: "Manager \<Rightarrow> time \<Rightarrow> Evidence \<Rightarrow> Decision \<times> Manager" where
  "Evaluate m now evidence =
     (let pol = p_BotFilter (policy m) in
      if \<not> Enabled pol
      then (\<lparr>d_Verdict = Allow, ObserveFor = 0, RuleID = ''disabled''\<rparr>, m\<lparr>allowed := allowed m + 1\<rparr>)
      else
        let ip = RemoteIP evidence;
            entry = prune (entry_of m ip) now pol in
        if BlockedUntil entry > now
        then (\<lparr>d_Verdict = Deny, ObserveFor = 0, RuleID = ''reputation_deny''\<rparr>,
              (put_entry ip entry m)\<lparr>denied := denied m + 1\<rparr>)
        else if ProtocolViolation evidence
        then (\<lparr>d_Verdict = Deny, ObserveFor = 0, RuleID = ''protocol_violation''\<rparr>,
              (put_entry ip (recordViolation entry now pol) m)\<lparr>denied := denied m + 1\<rparr>)
        else
          let entry = entry\<lparr>BurstAttempts := BurstAttempts entry @ [now]\<rparr>;
              entry = (if Username (Identity evidence) \<noteq> ''''
                       then entry\<lparr>Usernames := AList.update (Username (Identity evidence)) now (Usernames entry)\<rparr>
                       else entry);
              m = put_entry ip entry m in
          if int (length (BurstAttempts entry)) \<ge> SoftLoginBurst (p_Signals pol)
             \<or> int (length (Usernames entry)) \<ge> UsernameChurn (p_Signals pol)
          then (\<lparr>d_Verdict = Observe, ObserveFor = Hold (p_Observation pol), RuleID = ''soft_burst''\<rparr>,
                m\<lparr>observed := observed m + 1, active := active m + 1\<rparr>)
          else (\<lparr>d_Verdict = Allow, ObserveFor = 0, RuleID = ''allow''\<rparr>, m\<lparr>allowed := allowed m + 1\<rparr>))"

definition Record :: "Manager \<Rightarrow> Event \<Rightarrow> Manager" where
  "Record m event =
     (let entry = entry_of m (ev_IP event)
      in put_entry (ev_IP event)
           (if Violation event then recordViolation entry (ev_At event) (p_BotFilter (policy m)) else entry) m)"

definition filter_Metrics :: "Manager \<Rightarrow> FilterMetrics" where
  "filter_Metrics m =
     \<lparr>Allowed = allowed m, Observed = observed m, Denied = denied m, ActiveObservations = active m,
      ReputationEntries = of_nat (length (entries m)), ReloadFailures = reloads m\<rparr>"

text \<open>
  \<open>wait\<close> is the select between the context and a timer of the given duration: \<open>None\<close> when
  the timer fires, the context's error otherwise; \<open>others\<close> is what the calls of other
  goroutines do to the manager meanwhile. \<open>active\<close> is decremented by adding the all-ones word.
\<close>

definition no_evidence :: "PlayerIdentity \<Rightarrow> Evidence" where
  "no_evidence identity =
     \<lparr>Identity = identity, OnlineMode = False, RemoteIP = Address identity, ActiveFromIP = 0,
      RecentAttempts = 0, ev_UsernameChurn = 0, ValidKeepAlives = 0, ProtocolViolation = False\<rparr>"

definition Verify ::
    "(duration \<Rightarrow> err option) \<Rightarrow> (Manager \<Rightarrow> Manager) \<Rightarrow> Manager \<Rightarrow> time \<Rightarrow> PlayerIdentity \<Rightarrow> err option \<times> Manager" where
  "Verify wait others m now identity =
     (case Evaluate m now (no_evidence identity) of
        (decision, m) \<Rightarrow>
          (case d_Verdict decision of
             Deny \<Rightarrow> (Some (ErrText ''connection verification failed''), m)
           | Observe \<Rightarrow>
               (let result = wait (ObserveFor decision); m = others m
                in (result, m\<lparr>active := active m + NOT 0\<rparr>))
           | Allow \<Rightarrow> (None, m)))"

definition Manager_RequiredKeepAlives :: "Manager \<Rightarrow> int" where
  "Manager_RequiredKeepAlives m =
     (if \<not> Enabled (p_BotFilter (policy m)) then 1
      else RequiredKeepAlives (p_Observation (p_BotFilter (policy m))))"

definition Manager_KeepAliveInterval :: "Manager \<Rightarrow> duration" where
  "Manager_KeepAliveInterval m =
     (if \<not> Enabled (p_BotFilter (policy m)) then 0
      else KeepAliveInterval (p_Observation (p_BotFilter (policy m))))"

section \<open>Calls\<close>

datatype filter_call =
    CallEvaluate time Evidence Decision
  | CallRecord Event
  | CallCleanup time

inductive filter_step :: "Manager \<Rightarrow> filter_call \<Rightarrow> Manager \<Rightarrow> bool" where
  "Evaluate m now evidence = (d, m') \<Longrightarrow> filter_step m (CallEvaluate now evidence d) m'"
| "filter_step m (CallRecord event) (Record m event)"
| "filter_step m (CallCleanup now) (filter_cleanup m now)"

inductive_simps filter_step_simps [simp]:
  "filter_step m (CallEvaluate now evidence d) m'"
  "filter_step m (CallRecord event) m'"
  "filter_step m (CallCleanup now) m'"

fun call_time :: "filter_call \<Rightarrow> time list" where
  "call_time (CallEvaluate t ev d) = [t]"
| "call_time (CallRecord event) = []"
| "call_time (CallCleanup t) = [t]"

definition call_times :: "filter_call list \<Rightarrow> time list" where
  "call_times es = concat (map call_time es)"

section \<open>Histories\<close>

text \<open>What the calls say about an address: attempts, the user names they carried, violations.\<close>

fun attempt :: "string \<Rightarrow> filter_call \<Rightarrow> time list" where
  "attempt ip (CallEvaluate t ev d) = (if RemoteIP ev = ip \<and> d_Verdict d \<noteq> Deny then [t] else [])"
| "attempt ip _ = []"

fun name_use :: "string \<Rightarrow> filter_call \<Rightarrow> (string \<times> time) list" where
  "name_use ip (CallEvaluate t ev d) =
     (if RemoteIP ev = ip \<and> d_Verdict d \<noteq> Deny \<and> Username (Identity ev) \<noteq> ''''
      then [(Username (Identity ev), t)] else [])"
| "name_use ip _ = []"

fun violation :: "string \<Rightarrow> filter_call \<Rightarrow> time list" where
  "violation ip (CallEvaluate t ev d) = (if RemoteIP ev = ip \<and> RuleID d = ''protocol_violation'' then [t] else [])"
| "violation ip (CallRecord event) = (if ev_IP event = ip \<and> Violation event then [ev_At event] else [])"
| "violation ip (CallCleanup t) = []"

definition attempts :: "string \<Rightarrow> filter_call list \<Rightarrow> time list" where
  "attempts ip es = concat (map (attempt ip) es)"

definition names :: "string \<Rightarrow> filter_call list \<Rightarrow> (string \<times> time) list" where
  "names ip es = concat (map (name_use ip) es)"

definition violations :: "string \<Rightarrow> filter_call list \<Rightarrow> time list" where
  "violations ip es = concat (map (violation ip) es)"

definition names_since :: "time \<Rightarrow> (string \<times> time) list \<Rightarrow> string set" where
  "names_since cutoff us = set (map fst (filter (\<lambda>(u, t). cutoff \<le> t) us))"

lemma in_names_since: "u \<in> names_since cutoff us \<longleftrightarrow> (\<exists>t. (u, t) \<in> set us \<and> cutoff \<le> t)"
  by (force simp: names_since_def)

interpretation bw: sliding_window "\<lambda>now t. \<not> t < now - w" for w
  by unfold_locales auto

text \<open>A table of user names agrees with the uses it stands for on every window from \<open>t0\<close> on.\<close>

definition names_agree :: "duration \<Rightarrow> time \<Rightarrow> (string \<times> time) list \<Rightarrow> (string \<times> time) list \<Rightarrow> bool" where
  "names_agree w t0 us h \<longleftrightarrow> distinct (map fst us) \<and> (\<forall>(u, t) \<in> set us. t \<le> t0) \<and>
     (\<forall>now \<ge> t0. names_since (now - w) us = names_since (now - w) h)"

lemma names_agree_later: "names_agree w t0 us h \<Longrightarrow> t0 \<le> t1 \<Longrightarrow> names_agree w t1 us h"
  by (fastforce simp: names_agree_def)

lemma names_agree_trim:
  assumes "names_agree w t0 us h" "t0 \<le> now"
  shows "names_agree w now (filter (\<lambda>(u, t). \<not> t < now - w) us) h"
proof -
  have "names_since (now' - w) (filter (\<lambda>(u, t). \<not> t < now - w) us) = names_since (now' - w) us"
    if "now \<le> now'" for now'
    using that by (intro set_eqI) (force simp: in_names_since)
  then show ?thesis
    using names_agree_later [OF assms] by (auto simp: names_agree_def distinct_map_filter)
qed

lemma set_update: "distinct (map fst us) \<Longrightarrow>
  set (AList.update u t us) = insert (u, t) {(v, s) \<in> set us. v \<noteq> u}"
  by (induction us) (auto simp: rev_image_eqI)

lemma names_agree_use:
  assumes "names_agree w t0 us h" "t0 \<le> now"
  shows "names_agree w now (AList.update u now us) (h @ [(u, now)])"
proof -
  have us: "distinct (map fst us)" "\<forall>(v, t) \<in> set us. t \<le> now"
    "\<And>now'. now \<le> now' \<Longrightarrow> names_since (now' - w) us = names_since (now' - w) h"
    using names_agree_later [OF assms] by (auto simp: names_agree_def)
  have "names_since (now' - w) (AList.update u now us) = names_since (now' - w) (h @ [(u, now)])"
    if "now \<le> now'" for now'
  proof -
    have "names_since (now' - w) (h @ [(u, now)]) =
        names_since (now' - w) h \<union> (if now' - w \<le> now then {u} else {})"
      by (intro set_eqI) (auto simp: in_names_since)
    moreover have "names_since (now' - w) (AList.update u now us) =
        names_since (now' - w) us \<union> (if now' - w \<le> now then {u} else {})"
    proof (rule set_eqI)
      fix v
      have "now' - w \<le> now" if "(u, t) \<in> set us" "now' - w \<le> t" for t
        using us(2) that by fastforce
      then show "v \<in> names_since (now' - w) (AList.update u now us) \<longleftrightarrow>
          v \<in> names_since (now' - w) us \<union> (if now' - w \<le> now then {u} else {})"
        by (cases "v = u") (auto simp: in_names_since set_update [OF us(1)])
    qed
    ultimately show ?thesis using us(3) [OF that] by simp
  qed
  then show ?thesis
    using us(1,2) by (auto simp: names_agree_def set_update distinct_update)
qed

section \<open>The stored reputation agrees with the history\<close>

definition entry_rel ::
    "FilterPolicy \<Rightarrow> time \<Rightarrow> reputation \<Rightarrow> time list \<Rightarrow> (string \<times> time) list \<Rightarrow> bool" where
  "entry_rel pol t0 entry as ns \<longleftrightarrow>
     agrees (\<lambda>now t. \<not> t < now - BurstWindow (p_Signals pol)) t0 (BurstAttempts entry) as \<and>
     names_agree (ChurnWindow (p_Signals pol)) t0 (Usernames entry) ns"

lemma entry_rel_new: "entry_rel pol t0 new_reputation [] []"
  by (simp add: entry_rel_def new_reputation_def bw.agrees_Nil names_agree_def names_since_def)

lemma entry_rel_later: "entry_rel pol t0 entry as ns \<Longrightarrow> t0 \<le> t1 \<Longrightarrow> entry_rel pol t1 entry as ns"
  unfolding entry_rel_def using bw.agrees_later names_agree_later by blast

lemma entry_rel_same:
  "BurstAttempts entry' = BurstAttempts entry \<Longrightarrow> Usernames entry' = Usernames entry \<Longrightarrow>
     entry_rel pol t0 entry' as ns \<longleftrightarrow> entry_rel pol t0 entry as ns"
  by (simp add: entry_rel_def)

lemma recordViolation_same:
  "BurstAttempts (recordViolation entry now pol) = BurstAttempts entry"
  "Usernames (recordViolation entry now pol) = Usernames entry"
  by (simp_all add: recordViolation_def Let_def)

lemma prune_BurstAttempts:
  assumes "entry_rel pol t0 entry as ns" "t0 \<le> now"
  shows "BurstAttempts (prune entry now pol) =
    filter (\<lambda>t. \<not> t < now - BurstWindow (p_Signals pol)) (BurstAttempts entry)"
  using bw.agrees_drop [of "BurstWindow (p_Signals pol)" t0 "BurstAttempts entry" as now] assms
  by (simp add: entry_rel_def prune_def keepTimes_def)

lemma entry_rel_prune:
  assumes "entry_rel pol t0 entry as ns" "t0 \<le> now"
  shows "entry_rel pol now (prune entry now pol) as ns"
proof -
  have "Usernames (prune entry now pol) =
      filter (\<lambda>(u, t). \<not> t < now - ChurnWindow (p_Signals pol)) (Usernames entry)"
    by (simp add: prune_def)
  then show ?thesis
    using assms bw.agrees_trim names_agree_trim
    unfolding entry_rel_def prune_BurstAttempts [OF assms] by auto
qed

lemma entry_rel_delete:
  assumes "entry_rel pol t0 entry as ns" "BurstAttempts entry = []" "Usernames entry = []"
  shows "entry_rel pol t0 new_reputation as ns"
  using assms by (simp add: entry_rel_def new_reputation_def)

lemma entry_of_put: "entry_of (put_entry ip entry m) i = (if i = ip then entry else entry_of m i)"
  by (simp add: entry_of_def put_entry_def update_conv')

lemma entry_of_counters [simp]:
  "entry_of (m\<lparr>allowed := a\<rparr>) i = entry_of m i" "entry_of (m\<lparr>denied := b\<rparr>) i = entry_of m i"
  "entry_of (m\<lparr>observed := c\<rparr>) i = entry_of m i" "entry_of (m\<lparr>active := d\<rparr>) i = entry_of m i"
  by (simp_all add: entry_of_def)

lemma map_of_cleanup:
  assumes "distinct (map fst xs)"
  shows "map_of (concat (map (cleanup_entry pol now) xs)) ip =
    (case map_of xs ip of None \<Rightarrow> None
     | Some entry \<Rightarrow> map_of (cleanup_entry pol now (ip, entry)) ip)"
  using assms
proof (induction xs)
  case (Cons x xs)
  obtain k e where x: "x = (k, e)" by (cases x)
  have other: "map_of (cleanup_entry pol now (k, e)) i = None" if "i \<noteq> k" for i
    using that by (simp add: cleanup_entry_def Let_def)
  have "map_of xs k = None" using Cons.prems x by (simp add: map_of_eq_None_iff)
  with Cons x other show ?case by (auto simp: map_add_def split: option.splits)
qed simp

lemma entry_of_cleanup:
  assumes "distinct (map fst (entries m))" "Enabled (p_BotFilter (policy m))"
  shows "entry_of (filter_cleanup m now) ip = entry_of m ip \<and> map_of (entries m) ip = None \<or>
    (let entry = prune (entry_of m ip) now (p_BotFilter (policy m)) in
      entry_of (filter_cleanup m now) ip = entry \<or>
      entry_of (filter_cleanup m now) ip = new_reputation \<and> BurstAttempts entry = [] \<and>
        Usernames entry = [] \<and> Violations entry = [] \<and> BlockedUntil entry \<le> now)"
proof (cases "map_of (entries m) ip")
  case (Some e)
  with assms map_of_cleanup [OF assms(1), of "p_BotFilter (policy m)" now ip] show ?thesis
    by (simp add: entry_of_def filter_cleanup_def cleanup_entry_def Let_def)
next
  case None
  with map_of_cleanup [OF assms(1), of "p_BotFilter (policy m)" now ip] show ?thesis
    by (simp add: entry_of_def filter_cleanup_def)
qed

lemma cleanup_entry_key: "map fst (cleanup_entry pol now x) = [] \<or> map fst (cleanup_entry pol now x) = [fst x]"
  by (cases x) (simp add: cleanup_entry_def Let_def)

lemma distinct_cleanup:
  "set (map fst (concat (map (cleanup_entry pol now) xs))) \<subseteq> set (map fst xs) \<and>
     (distinct (map fst xs) \<longrightarrow> distinct (map fst (concat (map (cleanup_entry pol now) xs))))"
proof (induction xs)
  case (Cons x xs)
  then show ?case
    using cleanup_entry_key [of pol now x] by (auto simp only: list.map concat.simps map_append) auto
qed simp

lemma distinct_entries:
  assumes "distinct (map fst (entries m))"
  shows "distinct (map fst (entries (put_entry ip entry m)))"
    "distinct (map fst (entries (filter_cleanup m now)))"
  using assms distinct_cleanup [of "p_BotFilter (policy m)" now "entries m"]
  by (simp_all add: put_entry_def distinct_update filter_cleanup_def)

text \<open>The entry after an attempt that is not denied.\<close>

definition seen :: "reputation \<Rightarrow> time \<Rightarrow> string \<Rightarrow> reputation" where
  "seen entry now user =
     (let entry = entry\<lparr>BurstAttempts := BurstAttempts entry @ [now]\<rparr>
      in if user \<noteq> '''' then entry\<lparr>Usernames := AList.update user now (Usernames entry)\<rparr> else entry)"

definition thresholds :: "FilterPolicy \<Rightarrow> reputation \<Rightarrow> bool" where
  "thresholds pol entry \<longleftrightarrow> int (length (BurstAttempts entry)) \<ge> SoftLoginBurst (p_Signals pol)
     \<or> int (length (Usernames entry)) \<ge> UsernameChurn (p_Signals pol)"

lemma Evaluate_cases:
  assumes "Evaluate m now ev = (d, m')" "Enabled (p_BotFilter (policy m))"
  defines "entry \<equiv> prune (entry_of m (RemoteIP ev)) now (p_BotFilter (policy m))"
  shows "policy m' = policy m \<and>
    (\<exists>entry'. entries m' = entries (put_entry (RemoteIP ev) entry' m) \<and>
      (BlockedUntil entry > now \<and> d_Verdict d = Deny \<and> RuleID d = ''reputation_deny'' \<and> entry' = entry \<or>
       BlockedUntil entry \<le> now \<and> ProtocolViolation ev \<and> d_Verdict d = Deny \<and>
         RuleID d = ''protocol_violation'' \<and> entry' = recordViolation entry now (p_BotFilter (policy m)) \<or>
       BlockedUntil entry \<le> now \<and> \<not> ProtocolViolation ev \<and> entry' = seen entry now (Username (Identity ev)) \<and>
         (if thresholds (p_BotFilter (policy m)) entry'
          then d_Verdict d = Observe \<and> RuleID d = ''soft_burst'' \<and> ObserveFor d = Hold (p_Observation (p_BotFilter (policy m)))
          else d_Verdict d = Allow \<and> RuleID d = ''allow'')))"
  using assms(1,2)
  by (auto simp: Evaluate_def Let_def entry_def seen_def thresholds_def put_entry_def split: if_splits)

lemma entry_rel_seen:
  assumes "entry_rel pol t0 entry as ns" "t0 \<le> now"
  shows "entry_rel pol now (seen entry now user) (as @ [now]) (ns @ (if user \<noteq> '''' then [(user, now)] else []))"
  using assms bw.agrees_snoc names_agree_use names_agree_later
  by (auto simp: entry_rel_def seen_def Let_def)

definition manager_rel :: "Policy \<Rightarrow> Manager \<Rightarrow> time \<Rightarrow> filter_call list \<Rightarrow> bool" where
  "manager_rel p m t0 es \<longleftrightarrow> policy m = p \<and> distinct (map fst (entries m)) \<and>
     (\<forall>ip. entry_rel (p_BotFilter p) t0 (entry_of m ip) (attempts ip es) (names ip es))"

lemma histories_snoc [simp]:
  "attempts ip (es @ [e]) = attempts ip es @ attempt ip e" "names ip (es @ [e]) = names ip es @ name_use ip e"
  "violations ip (es @ [e]) = violations ip es @ violation ip e"
  "call_times (es @ [e]) = call_times es @ call_time e"
  by (simp_all add: attempts_def names_def violations_def call_times_def)

lemma entry_of_entries: "entries m = entries m' \<Longrightarrow> entry_of m ip = entry_of m' ip"
  by (simp add: entry_of_def)

lemma manager_rel_Evaluate:
  assumes rel: "manager_rel p m t0 es" and "t0 \<le> now" "Enabled (p_BotFilter p)"
    and step: "Evaluate m now ev = (d, m')"
  shows "manager_rel p m' now (es @ [CallEvaluate now ev d])"
proof -
  let ?pol = "p_BotFilter p" and ?ip = "RemoteIP ev"
  have p: "policy m = p" and old: "\<And>ip. entry_rel ?pol t0 (entry_of m ip) (attempts ip es) (names ip es)"
    and dist: "distinct (map fst (entries m))" using rel by (auto simp: manager_rel_def)
  define entry where "entry = prune (entry_of m ?ip) now ?pol"
  have pruned: "entry_rel ?pol now entry (attempts ?ip es) (names ?ip es)"
    unfolding entry_def by (rule entry_rel_prune [OF old assms(2)])
  from Evaluate_cases [OF step] assms(3) p obtain entry' where
    m': "policy m' = p" "entries m' = entries (put_entry ?ip entry' m)" and
    cases: "d_Verdict d = Deny \<and> (entry' = entry \<or> entry' = recordViolation entry now ?pol) \<or>
      d_Verdict d \<noteq> Deny \<and> entry' = seen entry now (Username (Identity ev))"
    unfolding entry_def by (auto split: if_splits)
  have new: "entry_rel ?pol now entry' (attempts ?ip es @ (if d_Verdict d \<noteq> Deny then [now] else []))
      (names ?ip es @ (if d_Verdict d \<noteq> Deny \<and> Username (Identity ev) \<noteq> ''''
        then [(Username (Identity ev), now)] else []))"
    using cases pruned entry_rel_seen [OF pruned order_refl, of "Username (Identity ev)"]
      entry_rel_same [OF recordViolation_same] by (auto split: if_splits)
  have "entry_rel ?pol now (entry_of m' ip) (attempts ip (es @ [CallEvaluate now ev d]))
      (names ip (es @ [CallEvaluate now ev d]))" for ip
    unfolding entry_of_entries [OF m'(2)] entry_of_put
    using new entry_rel_later [OF old assms(2), of ip] by auto
  then show ?thesis
    using m' distinct_entries(1) [OF dist] by (simp add: manager_rel_def)
qed

lemma manager_rel_Record:
  assumes "manager_rel p m t0 es"
  shows "manager_rel p (Record m event) t0 (es @ [CallRecord event])"
  using assms distinct_entries(1) [of m] entry_rel_same [OF recordViolation_same]
  by (auto simp: manager_rel_def Record_def Let_def entry_of_put) (simp add: put_entry_def)+

lemma manager_rel_cleanup:
  assumes rel: "manager_rel p m t0 es" and "t0 \<le> now" "Enabled (p_BotFilter p)"
  shows "manager_rel p (filter_cleanup m now) now (es @ [CallCleanup now])"
proof -
  let ?pol = "p_BotFilter p"
  have p: "policy m = p" and old: "\<And>ip. entry_rel ?pol t0 (entry_of m ip) (attempts ip es) (names ip es)"
    and dist: "distinct (map fst (entries m))" using rel by (auto simp: manager_rel_def)
  have "entry_rel ?pol now (entry_of (filter_cleanup m now) ip) (attempts ip es) (names ip es)" for ip
    using entry_of_cleanup [OF dist, of now ip] assms(3) p entry_rel_prune [OF old assms(2), of ip]
      entry_rel_later [OF old assms(2), of ip] entry_rel_delete by (fastforce simp: Let_def)
  then show ?thesis
    using p distinct_entries(2) [OF dist, of now] by (simp add: manager_rel_def filter_cleanup_def)
qed

lemma manager_runs:
  assumes "runs filter_step (New_Manager p file) es m" "sorted (call_times es)"
    "\<forall>t \<in> set (call_times es). t \<le> t0" "Enabled (p_BotFilter p)"
  shows "manager_rel p m t0 es"
  using assms
proof (induction "New_Manager p file" es m arbitrary: t0 rule: runs.induct)
  case runs_Nil
  then show ?case
    using entry_rel_new by (simp add: manager_rel_def New_Manager_def entry_of_def attempts_def names_def)
next
  case (runs_snoc es m e m')
  have past: "sorted (call_times es)" "\<And>t. t \<in> set (call_time e) \<Longrightarrow> (\<forall>s \<in> set (call_times es). s \<le> t) \<and> t \<le> t0"
    "\<forall>s \<in> set (call_times es). s \<le> t0"
    using runs_snoc.prems by (auto simp: sorted_append)
  have later: "manager_rel p m' t0 es'" if "manager_rel p m' t1 es'" "t1 \<le> t0" for t1 es'
    using that entry_rel_later unfolding manager_rel_def by blast
  show ?case
  proof (cases e)
    case (CallEvaluate now ev d)
    with past runs_snoc have "manager_rel p m now es" "Evaluate m now ev = (d, m')" "now \<le> t0" by auto
    with manager_rel_Evaluate [OF this(1) order_refl _ this(2)] later show ?thesis
      using runs_snoc.prems CallEvaluate by blast
  next
    case (CallRecord event)
    with past runs_snoc have "manager_rel p m t0 es" "m' = Record m event" by auto
    with manager_rel_Record CallRecord show ?thesis by blast
  next
    case (CallCleanup now)
    with past runs_snoc have "manager_rel p m now es" "m' = filter_cleanup m now" "now \<le> t0" by auto
    with manager_rel_cleanup [OF this(1) order_refl] later show ?thesis
      using runs_snoc.prems CallCleanup by blast
  qed
qed

section \<open>Blocks are justified\<close>

definition justified :: "FilterPolicy \<Rightarrow> reputation \<Rightarrow> time list \<Rightarrow> bool" where
  "justified pol entry vs \<longleftrightarrow> length (Violations entry) \<le> length vs \<and>
     (BlockedUntil entry = 0 \<or>
      (\<exists>t \<in> set vs. BlockedUntil entry = t + DenyTTL (p_Reputation pol)) \<and>
      ViolationLimit (p_Reputation pol) \<le> int (length vs))"

lemma justified_new: "justified pol new_reputation vs"
  by (simp add: justified_def new_reputation_def)

lemma justified_prune: "justified pol entry vs \<Longrightarrow> justified pol (prune entry now pol') vs"
  by (auto simp: justified_def prune_def keepTimes_def)

lemma justified_seen: "justified pol (seen entry now user) vs \<longleftrightarrow> justified pol entry vs"
  by (simp add: justified_def seen_def Let_def)

lemma justified_violation:
  "justified pol entry vs \<Longrightarrow> justified pol (recordViolation entry now pol) (vs @ [now])"
  by (auto simp: justified_def recordViolation_def Let_def)

definition blocks_justified :: "Policy \<Rightarrow> Manager \<Rightarrow> filter_call list \<Rightarrow> bool" where
  "blocks_justified p m es \<longleftrightarrow> policy m = p \<and> distinct (map fst (entries m)) \<and>
     (\<forall>ip. justified (p_BotFilter p) (entry_of m ip) (violations ip es))"

lemma blocks_justified_step:
  assumes "blocks_justified p m es" "filter_step m e m'" "Enabled (p_BotFilter p)"
  shows "blocks_justified p m' (es @ [e])"
proof (cases e)
  case (CallEvaluate now ev d)
  let ?pol = "p_BotFilter p" and ?ip = "RemoteIP ev"
  have p: "policy m = p" and old: "\<And>ip. justified ?pol (entry_of m ip) (violations ip es)"
    and dist: "distinct (map fst (entries m))" using assms(1) by (auto simp: blocks_justified_def)
  have step: "Evaluate m now ev = (d, m')" using assms(2) CallEvaluate by simp
  obtain entry' where m': "policy m' = p" "entries m' = entries (put_entry ?ip entry' m)" and
    new: "justified ?pol entry' (violations ?ip (es @ [e]))"
    using Evaluate_cases [OF step] assms(3) p CallEvaluate
      justified_prune [OF old, of ?ip now ?pol] justified_violation [OF justified_prune [OF old, of ?ip now ?pol]]
    by (auto simp: justified_seen split: if_splits)
  have "justified ?pol (entry_of m' ip) (violations ip (es @ [e]))" for ip
    unfolding entry_of_entries [OF m'(2)] entry_of_put
    using new old [of ip] CallEvaluate by auto
  then show ?thesis
    using m' distinct_entries(1) [OF dist] by (simp add: blocks_justified_def)
next
  case (CallRecord event)
  with assms(1,2) distinct_entries(1) [of m] justified_violation show ?thesis
    by (auto simp: blocks_justified_def Record_def Let_def entry_of_put) (simp_all add: put_entry_def)
next
  case (CallCleanup now)
  have p: "policy m = p" and old: "\<And>ip. justified (p_BotFilter p) (entry_of m ip) (violations ip es)"
    and dist: "distinct (map fst (entries m))" using assms(1) by (auto simp: blocks_justified_def)
  have "justified (p_BotFilter p) (entry_of (filter_cleanup m now) ip) (violations ip es)" for ip
    using entry_of_cleanup [OF dist, of now ip] assms(3) p justified_prune [OF old, of ip now] old [of ip]
      justified_new by (auto simp: Let_def)
  then show ?thesis
    using assms(2) CallCleanup p distinct_entries(2) [OF dist, of now]
    by (simp add: blocks_justified_def filter_cleanup_def)
qed

lemma blocks_justified_runs:
  "runs filter_step (New_Manager p file) es m \<Longrightarrow> Enabled (p_BotFilter p) \<Longrightarrow> blocks_justified p m es"
proof (induction "New_Manager p file" es m rule: runs.induct)
  case runs_Nil
  then show ?case
    by (simp add: blocks_justified_def New_Manager_def entry_of_def justified_new)
next
  case (runs_snoc es m e m')
  then show ?case using blocks_justified_step by blast
qed

lemma denial_cases:
  assumes "runs filter_step (New_Manager p file) es m" "Enabled (p_BotFilter p)" "0 \<le> now"
    "Evaluate m now ev = (d, m')" "d_Verdict d = Deny"
  shows "ProtocolViolation ev \<or>
    (\<exists>t \<in> set (violations (RemoteIP ev) es). now < t + DenyTTL (p_Reputation (p_BotFilter p))) \<and>
    ViolationLimit (p_Reputation (p_BotFilter p)) \<le> int (length (violations (RemoteIP ev) es))"
proof -
  have p: "policy m = p" and just: "justified (p_BotFilter p) (entry_of m (RemoteIP ev)) (violations (RemoteIP ev) es)"
    using blocks_justified_runs [OF assms(1,2)] by (auto simp: blocks_justified_def)
  have "ProtocolViolation ev \<or> BlockedUntil (prune (entry_of m (RemoteIP ev)) now (p_BotFilter p)) > now"
    using Evaluate_cases [OF assms(4)] assms(2,5) p by (auto split: if_splits)
  with just assms(3) show ?thesis by (auto simp: justified_def prune_def)
qed

lemma verdict_cases:
  assumes "manager_rel p m now es" "Enabled (p_BotFilter p)" "Evaluate m now ev = (d, m')" "d_Verdict d \<noteq> Deny"
  shows "d_Verdict d = Observe \<longleftrightarrow>
    SoftLoginBurst (p_Signals (p_BotFilter p)) \<le>
      1 + int (length [t \<leftarrow> attempts (RemoteIP ev) es. now - BurstWindow (p_Signals (p_BotFilter p)) \<le> t]) \<or>
    UsernameChurn (p_Signals (p_BotFilter p)) \<le>
      int (card (names_since (now - ChurnWindow (p_Signals (p_BotFilter p))) (names (RemoteIP ev) es) \<union>
        ({Username (Identity ev)} - {''''})))"
proof -
  let ?pol = "p_BotFilter p" and ?ip = "RemoteIP ev"
  have p: "policy m = p" and rel: "entry_rel ?pol now (entry_of m ?ip) (attempts ?ip es) (names ?ip es)"
    using assms(1) by (auto simp: manager_rel_def)
  define entry where "entry = prune (entry_of m ?ip) now ?pol"
  define entry' where "entry' = seen entry now (Username (Identity ev))"
  have "d_Verdict d = Observe \<longleftrightarrow> thresholds ?pol entry'"
    using Evaluate_cases [OF assms(3)] assms(2,4) p by (auto simp: entry_def entry'_def split: if_splits)
  moreover have "length (BurstAttempts entry') =
      1 + length [t \<leftarrow> attempts ?ip es. now - BurstWindow (p_Signals ?pol) \<le> t]"
  proof -
    have "BurstAttempts entry = filter (\<lambda>t. \<not> t < now - BurstWindow (p_Signals ?pol)) (attempts ?ip es)"
      unfolding entry_def prune_BurstAttempts [OF rel order_refl]
      using rel by (intro bw.agrees_window) (auto simp: entry_rel_def)
    then show ?thesis by (simp add: entry'_def seen_def Let_def not_less)
  qed
  moreover have "length (Usernames entry') =
      card (names_since (now - ChurnWindow (p_Signals ?pol)) (names ?ip es) \<union> ({Username (Identity ev)} - {''''}))"
  proof -
    have us: "distinct (map fst (Usernames entry))"
      using entry_rel_prune [OF rel order_refl] by (simp add: entry_def entry_rel_def names_agree_def)
    have "fst ` set (Usernames entry) = names_since (now - ChurnWindow (p_Signals ?pol)) (Usernames (entry_of m ?ip))"
      by (simp add: entry_def prune_def names_since_def not_less)
    then have keys: "fst ` set (Usernames entry) = names_since (now - ChurnWindow (p_Signals ?pol)) (names ?ip es)"
      using rel by (simp add: entry_rel_def names_agree_def)
    have "distinct (map fst (Usernames entry'))"
      using us by (simp add: entry'_def seen_def Let_def distinct_update)
    then have "length (Usernames entry') = card (fst ` set (Usernames entry'))"
      by (metis distinct_card length_map list.set_map)
    also have "fst ` set (Usernames entry') =
        fst ` set (Usernames entry) \<union> ({Username (Identity ev)} - {''''})"
      using dom_update [of "Username (Identity ev)" now "Usernames entry"]
      by (auto simp: entry'_def seen_def Let_def)
    finally show ?thesis by (simp only: keys)
  qed
  ultimately show ?thesis by (simp add: thresholds_def)
qed

section \<open>Reloading and the observation gauge\<close>

lemma LoadFile_valid: "LoadFile rd um file = Ok p \<Longrightarrow> Validate p = Ok ()"
  by (cases "rd file"; cases "um (case rd file of Ok data \<Rightarrow> data) DefaultPolicy")
    (auto simp: LoadFile_def Let_def res_iff)

lemma reload_cases:
  "reload st rd um m = m \<or> reload st rd um m = m\<lparr>reloads := reloads m + 1\<rparr> \<or>
   (\<exists>p t. st (path m) = Ok t \<and> LoadFile rd um (path m) = Ok p \<and> modTime m < t \<and>
      reload st rd um m = m\<lparr>policy := p, modTime := t\<rparr>)"
  by (auto simp: reload_def split: res.splits)

lemma Verify_active:
  "active (snd (Verify wait (\<lambda>m. m) m now identity)) = active m"
  by (simp add: Verify_def Evaluate_def Let_def put_entry_def no_evidence_def)

section \<open>Properties\<close>

text \<open>
  C12: the filter observes exactly the bursts. With an enabled policy, after any calls in order
  of time, and however often the cleanup pruned the entries, an attempt that is not denied
  is put under observation exactly when the attempts of its address within the burst window,
  this one included, reach \<open>SoftLoginBurst\<close>, or the distinct user names the address used
  within the churn window, this one included, reach \<open>UsernameChurn\<close>.
\<close>

theorem filter_observes_bursts:
  assumes "runs filter_step (New_Manager p file) es m" "sorted (call_times es)"
    "\<forall>t \<in> set (call_times es). t \<le> now" "Enabled (p_BotFilter p)"
    "Evaluate m now ev = (d, m')" "d_Verdict d \<noteq> Deny"
  shows "d_Verdict d = Observe \<longleftrightarrow>
    SoftLoginBurst (p_Signals (p_BotFilter p)) \<le>
      1 + int (length [t \<leftarrow> attempts (RemoteIP ev) es. now - BurstWindow (p_Signals (p_BotFilter p)) \<le> t]) \<or>
    UsernameChurn (p_Signals (p_BotFilter p)) \<le>
      int (card (names_since (now - ChurnWindow (p_Signals (p_BotFilter p))) (names (RemoteIP ev) es) \<union>
        ({Username (Identity ev)} - {''''})))"
  by (rule verdict_cases [OF manager_runs [OF assms(1-4)] assms(4-6)])

definition example_policy :: Policy where
  "example_policy = DefaultPolicy\<lparr>p_BotFilter :=
     (p_BotFilter DefaultPolicy)\<lparr>Enabled := True,
       p_Signals := \<lparr>SoftLoginBurst = 2, BurstWindow = 10, UsernameChurn = 6, ChurnWindow = 60\<rparr>\<rparr>\<rparr>"

definition example_identity :: PlayerIdentity where
  "example_identity = \<lparr>Address = ''10.0.0.1'', UUID = [], Username = ''alex'', Properties = []\<rparr>"

definition example_call :: filter_call where
  "example_call = CallEvaluate 5 (no_evidence example_identity)
     \<lparr>d_Verdict = Allow, ObserveFor = 0, RuleID = ''allow''\<rparr>"

lemma example_filter_run: "\<exists>m. runs filter_step (New_Manager example_policy ''p'') [example_call] m"
  by (simp add: runs_Cons_iff example_call_def Evaluate_def New_Manager_def example_policy_def
      DefaultPolicy_def no_evidence_def example_identity_def Let_def entry_of_def new_reputation_def
      prune_def keepTimes_def put_entry_def)

lemma example_filter_facts:
  "Enabled (p_BotFilter example_policy)" "sorted (call_times [example_call])"
  "\<forall>t \<in> set (call_times [example_call]). t \<le> 6" "attempts ''10.0.0.1'' [example_call] = [5]"
  "violations ''10.0.0.1'' [example_call] = []" "RemoteIP (no_evidence example_identity) = ''10.0.0.1''"
  by (simp_all add: example_policy_def example_call_def call_times_def attempts_def violations_def
      no_evidence_def example_identity_def)

theorem filter_observes_bursts_witness:
  "\<exists>m. runs filter_step (New_Manager example_policy ''p'') [example_call] m \<and>
     d_Verdict (fst (Evaluate m 6 (no_evidence example_identity))) = Observe"
proof -
  obtain m where run: "runs filter_step (New_Manager example_policy ''p'') [example_call] m"
    using example_filter_run by blast
  obtain d m' where e: "Evaluate m 6 (no_evidence example_identity) = (d, m')" by fastforce
  have "d_Verdict d \<noteq> Deny"
    using denial_cases [OF run example_filter_facts(1) _ e] example_filter_facts(5,6)
    by (auto simp: no_evidence_def)
  from filter_observes_bursts [OF run example_filter_facts(2,3,1) e this]
  have "d_Verdict d = Observe" unfolding example_filter_facts(4,6) by (simp add: example_policy_def)
  with run e show ?thesis by auto
qed

text \<open>
  C13: a denial is justified. With an enabled policy, after any calls, the filter denies an
  attempt only if the attempt itself is a protocol violation, or at least \<open>ViolationLimit\<close>
  violations of its address have been recorded and one of them less than \<open>DenyTTL\<close> ago.
\<close>

theorem filter_denial_justified:
  assumes "runs filter_step (New_Manager p file) es m" "Enabled (p_BotFilter p)" "0 \<le> now"
    "Evaluate m now ev = (d, m')" "d_Verdict d = Deny"
  shows "ProtocolViolation ev \<or>
    (\<exists>t \<in> set (violations (RemoteIP ev) es). now < t + DenyTTL (p_Reputation (p_BotFilter p))) \<and>
    ViolationLimit (p_Reputation (p_BotFilter p)) \<le> int (length (violations (RemoteIP ev) es))"
  by (rule denial_cases [OF assms])

definition example_violations :: "filter_call list" where
  "example_violations = replicate 3 (CallRecord
     \<lparr>ev_IP = ''10.0.0.1'', ev_Username = ''alex'', ev_At = 1, Violation = True\<rparr>)"

lemma example_violations_denied:
  "\<exists>m. runs filter_step (New_Manager example_policy ''p'') example_violations m \<and>
     d_Verdict (fst (Evaluate m 2 (no_evidence example_identity))) = Deny"
  by (simp add: example_violations_def numeral_3_eq_3 runs_Cons_iff Record_def Evaluate_def New_Manager_def
      example_policy_def DefaultPolicy_def no_evidence_def example_identity_def Let_def entry_of_def
      new_reputation_def prune_def keepTimes_def put_entry_def recordViolation_def seconds_def)

theorem filter_denial_justified_witness:
  "\<exists>m. runs filter_step (New_Manager example_policy ''p'') example_violations m \<and>
     d_Verdict (fst (Evaluate m 2 (no_evidence example_identity))) = Deny \<and>
     3 \<le> int (length (violations ''10.0.0.1'' example_violations))"
proof -
  obtain m where run: "runs filter_step (New_Manager example_policy ''p'') example_violations m" and
    deny: "d_Verdict (fst (Evaluate m 2 (no_evidence example_identity))) = Deny"
    using example_violations_denied by blast
  obtain d m' where e: "Evaluate m 2 (no_evidence example_identity) = (d, m')" by fastforce
  have "d_Verdict d = Deny" using deny e by simp
  from filter_denial_justified [OF run example_filter_facts(1) _ e this] run deny show ?thesis
    unfolding example_filter_facts(6) by (auto simp: no_evidence_def example_policy_def DefaultPolicy_def)
qed

definition verify_call :: "filter_call \<Rightarrow> bool" where
  "verify_call e = (case e of CallEvaluate t ev d \<Rightarrow> \<not> ProtocolViolation ev | CallRecord _ \<Rightarrow> False
     | CallCleanup t \<Rightarrow> True)"

lemma verify_no_violations:
  "runs filter_step (New_Manager p file) es m \<Longrightarrow> Enabled (p_BotFilter p) \<Longrightarrow> list_all verify_call es \<Longrightarrow>
     violations ip es = []"
proof (induction "New_Manager p file" es m rule: runs.induct)
  case (runs_snoc es m e m')
  have "RuleID d \<noteq> ''protocol_violation''" if "e = CallEvaluate now ev d" for now ev d
    using that runs_snoc Evaluate_cases [of m now ev d m'] blocks_justified_runs [OF runs_snoc(1)]
    by (auto simp: verify_call_def blocks_justified_def split: if_splits)
  with runs_snoc show ?case by (cases e) (auto simp: verify_call_def)
qed (simp add: violations_def)

text \<open>
  C14: \<open>Verify\<close>, the only entry point the server uses, never denies. As long as no event is
  passed to \<open>Record\<close>, whatever identities were verified before and whenever the entries were
  cleaned up, \<open>Verify\<close> returns either no error or the error of the context that ended the
  observation, so \<open>violation_limit\<close> and \<open>deny_ttl\<close> have no effect.
\<close>

theorem verify_never_denies:
  assumes "runs filter_step (New_Manager p file) es m" "Enabled (p_BotFilter p)" "list_all verify_call es"
    "0 \<le> now"
  shows "fst (Verify wait others m now identity) \<in> {None, wait (Hold (p_Observation (p_BotFilter p)))}"
proof -
  obtain d m' where e: "Evaluate m now (no_evidence identity) = (d, m')" by fastforce
  have p: "policy m = p" using blocks_justified_runs [OF assms(1,2)] by (simp add: blocks_justified_def)
  have "d_Verdict d \<noteq> Deny"
    using denial_cases [OF assms(1,2,4) e] verify_no_violations [OF assms(1-3)] by (auto simp: no_evidence_def)
  moreover have "d_Verdict d = Observe \<Longrightarrow> ObserveFor d = Hold (p_Observation (p_BotFilter p))"
    using Evaluate_cases [OF e] assms(2) p by (auto split: if_splits)
  ultimately show ?thesis by (cases "d_Verdict d") (simp_all add: Verify_def e Let_def)
qed

theorem verify_never_denies_witness:
  "\<exists>m. runs filter_step (New_Manager example_policy ''p'') [example_call] m \<and>
     fst (Verify (\<lambda>_. None) (\<lambda>m. m) m 6 example_identity) = None"
proof -
  obtain m where run: "runs filter_step (New_Manager example_policy ''p'') [example_call] m"
    using example_filter_run by blast
  have "list_all verify_call [example_call]" by (simp add: verify_call_def example_call_def no_evidence_def)
  from verify_never_denies [OF run example_filter_facts(1) this, of 6 "\<lambda>_. None"] run show ?thesis by auto
qed

text \<open>
  Reloading is safe. A policy that passed \<open>Validate\<close> is replaced only by a policy that
  passes it; when the file cannot be read, decoded or validated, the policy and its
  modification time stay and the failure is counted.
\<close>

theorem reload_keeps_valid:
  assumes "Validate (policy m) = Ok ()"
  shows "Validate (policy (reload os_Stat os_ReadFile yaml_Unmarshal m)) = Ok () \<and>
    ((\<forall>p. LoadFile os_ReadFile yaml_Unmarshal (path m) \<noteq> Ok p) \<longrightarrow>
      policy (reload os_Stat os_ReadFile yaml_Unmarshal m) = policy m \<and>
      modTime (reload os_Stat os_ReadFile yaml_Unmarshal m) = modTime m)"
  using reload_cases [of os_Stat os_ReadFile yaml_Unmarshal m] LoadFile_valid assms by fastforce

theorem reload_keeps_valid_witness:
  "Validate (policy (reload (\<lambda>_. Ok 7) (\<lambda>_. Ok []) (\<lambda>_ p. Ok (p\<lparr>Version := 9\<rparr>))
     (New_Manager example_policy ''p''))) = Ok ()"
  using reload_keeps_valid [of "New_Manager example_policy ''p''"]
  by (simp add: New_Manager_def example_policy_def DefaultPolicy_def Validate_def Let_def seconds_def)

end
