(* ===== verification/Transport.thy ===== *)
theory Transport
  imports Compression Cipher
begin

text \<open>
  One connection and its framing state, \<open>internal/transport/transport.go\<close>. The operating
  system's connection is a parameter: \<open>conn_write\<close> for the outgoing direction, with the
  contract of \<open>net.Conn\<close> as the locale \<open>net_conn\<close>, and for the incoming direction the bytes
  that will still arrive. The buffered reader decrypts what it reads ahead, in chunks of any
  size; \<open>view\<close> is the plain text the frame reader sees.

  The theorems show that whatever partial writes the system makes and however far the reader
  reads ahead, the frames read at one end are the frames written at the other, with and
  without compression and encryption, and across the moment encryption is switched on.
\<close>

section \<open>Definitions\<close>

text \<open>\<open>cipherWriter\<close>: the connection and the cipher state both directions share.\<close>

record 'c wire_writer =
  wr_conn :: 'c
  wr_state :: "CipherState option"

text \<open>The loop of \<open>cipherWriter.Write\<close> over the encrypted bytes.\<close>

function write_loop ::
    "('c \<Rightarrow> bytes \<Rightarrow> (nat \<times> err option) \<times> 'c) \<Rightarrow> 'c \<Rightarrow> bytes \<Rightarrow> nat \<Rightarrow> (nat \<times> err option) \<times> 'c" where
  "write_loop conn_write c encrypted written =
     (if \<not> written < length encrypted then ((length encrypted, None), c)
      else
        (case conn_write c (drop written encrypted) of
           ((count, Some e), c) \<Rightarrow> ((written + count, Some e), c)
         | ((count, None), c) \<Rightarrow>
             if count = 0 then ((written + count, Some ErrShortWrite), c)
             else write_loop conn_write c encrypted (written + count)))"
  by pat_completeness auto
termination
  by (relation "measure (\<lambda>(conn_write, c, encrypted, written). length encrypted - written)") auto

declare write_loop.simps [simp del]

definition cipherWriter_Write ::
    "('c \<Rightarrow> bytes \<Rightarrow> (nat \<times> err option) \<times> 'c) \<Rightarrow> 'c wire_writer \<Rightarrow> bytes \<Rightarrow>
     (nat \<times> err option) \<times> 'c wire_writer" where
  "cipherWriter_Write conn_write w data =
     (case wr_state w of
        None \<Rightarrow> (case conn_write (wr_conn w) data of (r, c) \<Rightarrow> (r, w\<lparr>wr_conn := c\<rparr>))
      | Some s \<Rightarrow>
          (case Encrypt s (replicate (length data) 0) data of
             Ok (encrypted, s) \<Rightarrow>
               (case write_loop conn_write (wr_conn w) encrypted 0 of
                  (r, c) \<Rightarrow> (r, w\<lparr>wr_conn := c, wr_state := Some s\<rparr>))
           | Fail e \<Rightarrow> ((0, Some e), w)
           | Panic \<Rightarrow> ((0, None), w)))"

record 'c Transport =
  t_conn :: 'c
  conn_in :: bytes
  in_err :: err
  buffered :: bytes
  t_framer :: Framer
  t_maxPacketSize :: int
  t_compression :: "CompressionState option"
  t_encryption :: "CipherState option"
  t_done :: bool

definition New_Transport :: "'c \<Rightarrow> bytes \<Rightarrow> err \<Rightarrow> int \<Rightarrow> 'c Transport" where
  "New_Transport conn incoming e maxPacketSize =
     \<lparr>t_conn = conn, conn_in = incoming, in_err = e, buffered = [], t_framer = NewFramer maxPacketSize,
      t_maxPacketSize = maxPacketSize, t_compression = None, t_encryption = None, t_done = False\<rparr>"

subsection \<open>Reading\<close>

text \<open>\<open>cipherReader.Read\<close> when the connection returns \<open>k\<close> bytes: they are decrypted in place.\<close>

definition cipherReader_Read :: "nat \<Rightarrow> 'c Transport \<Rightarrow> bytes \<times> 'c Transport" where
  "cipherReader_Read k t =
     (let data = take k (conn_in t); t = t\<lparr>conn_in := drop k (conn_in t)\<rparr> in
      if length data > 0 then
        (case t_encryption t of
           None \<Rightarrow> (data, t)
         | Some s \<Rightarrow>
             (case Decrypt s data data of
                Ok (data, s) \<Rightarrow> (data, t\<lparr>t_encryption := Some s\<rparr>)
              | _ \<Rightarrow> (data, t)))
      else (data, t))"

definition bufio_fill :: "nat \<Rightarrow> 'c Transport \<Rightarrow> 'c Transport" where
  "bufio_fill k t = (case cipherReader_Read k t of (data, t) \<Rightarrow> t\<lparr>buffered := buffered t @ data\<rparr>)"

definition decrypted :: "'c Transport \<Rightarrow> bytes \<Rightarrow> bytes" where
  "decrypted t data =
     (case t_encryption t of
        None \<Rightarrow> data
      | Some s \<Rightarrow> fst (cfb8_loop (cs_block s) (decryptIV s) data False))"

definition view :: "'c Transport \<Rightarrow> reader" where
  "view t = \<lparr>pending = buffered t @ decrypted t (conn_in t), ends_with = in_err t\<rparr>"

text \<open>Taking \<open>n\<close> bytes out of the buffered reader, which reads \<open>ahead\<close> more than it needs.\<close>

definition bufio_discard :: "nat \<Rightarrow> nat \<Rightarrow> 'c Transport \<Rightarrow> 'c Transport" where
  "bufio_discard ahead n t =
     (let t = bufio_fill (n - length (buffered t) + ahead) t in t\<lparr>buffered := drop n (buffered t)\<rparr>)"

definition Transport_ReadFrame ::
    "(bytes \<Rightarrow> reader res) \<Rightarrow> nat \<Rightarrow> 'c Transport \<Rightarrow> bytes res \<times> 'c Transport" where
  "Transport_ReadFrame inflate ahead t =
     (case (case t_compression t of
              Some c \<Rightarrow> compressed_ReadFrame inflate c (view t)
            | None \<Rightarrow> ReadFrame (t_framer t) (view t)) of
        (r, rest) \<Rightarrow> (r, bufio_discard ahead (length (pending (view t)) - length (pending rest)) t))"

subsection \<open>Switching compression and encryption on\<close>

definition EnableCompression :: "int \<Rightarrow> 'c Transport \<Rightarrow> unit res \<times> 'c Transport" where
  "EnableCompression thr t =
     (case NewCompressionState thr (t_maxPacketSize t) of
        Ok c \<Rightarrow> (Ok (), t\<lparr>t_compression := Some c\<rparr>)
      | Fail e \<Rightarrow> (Fail e, t)
      | Panic \<Rightarrow> (Panic, t))"

definition CompressionThreshold :: "'c Transport \<Rightarrow> int option" where
  "CompressionThreshold t = (case t_compression t of None \<Rightarrow> None | Some c \<Rightarrow> Some (threshold c))"

definition EnableEncryption ::
    "(bytes \<Rightarrow> (bytes \<Rightarrow> bytes) res) \<Rightarrow> bytes \<Rightarrow> bytes \<Rightarrow> 'c Transport \<Rightarrow> unit res \<times> 'c Transport" where
  "EnableEncryption aes_NewCipher key iv t =
     (if length (buffered t) \<noteq> 0 then (Fail ErrBufferedEncryptionTransition, t)
      else
        (case NewCipherState aes_NewCipher key iv of
           Ok s \<Rightarrow> (Ok (), t\<lparr>t_encryption := Some s\<rparr>)
         | Fail e \<Rightarrow> (Fail e, t)
         | Panic \<Rightarrow> (Panic, t)))"

definition EncryptionEnabled :: "'c Transport \<Rightarrow> bool" where
  "EncryptionEnabled t \<longleftrightarrow> t_encryption t \<noteq> None"

subsection \<open>Writing and closing\<close>

text \<open>One request of \<open>writerLoop\<close>; requests are served one after the other.\<close>

definition writerLoop_step ::
    "(bytes \<Rightarrow> bytes res) \<Rightarrow> ('c \<Rightarrow> bytes \<Rightarrow> (nat \<times> err option) \<times> 'c) \<Rightarrow> 'c Transport \<Rightarrow> bytes \<Rightarrow>
     unit res \<times> 'c Transport" where
  "writerLoop_step deflate conn_write t payload =
     (let w = \<lparr>wr_conn = t_conn t, wr_state = t_encryption t\<rparr> in
      case (case t_compression t of
              Some c \<Rightarrow> compressed_WriteFrame deflate c (cipherWriter_Write conn_write) w payload
            | None \<Rightarrow> WriteFrame (t_framer t) (cipherWriter_Write conn_write) w payload) of
        (r, w) \<Rightarrow> (r, t\<lparr>t_conn := wr_conn w, t_encryption := wr_state w\<rparr>))"

text \<open>
  Another goroutine may close the transport during the call: before the request is handed to the writer, and
  nothing is written, or after that, and the caller gets \<open>ErrClosed\<close> instead of the result.
\<close>

datatype write_race = NotClosed | ClosedBefore | ClosedWhile

definition Transport_WriteFrame ::
    "(bytes \<Rightarrow> bytes res) \<Rightarrow> ('c \<Rightarrow> bytes \<Rightarrow> (nat \<times> err option) \<times> 'c) \<Rightarrow> write_race \<Rightarrow> 'c Transport \<Rightarrow> bytes \<Rightarrow>
     unit res \<times> 'c Transport" where
  "Transport_WriteFrame deflate conn_write race t payload =
     (if t_done t then (Fail ErrClosed, t)
      else if race = ClosedBefore then (Fail ErrClosed, t\<lparr>t_done := True\<rparr>)
      else
        (case writerLoop_step deflate conn_write t payload of
           (r, t) \<Rightarrow> if race = ClosedWhile then (Fail ErrClosed, t\<lparr>t_done := True\<rparr>) else (r, t)))"

definition Transport_Close :: "('c \<Rightarrow> err option \<times> 'c) \<Rightarrow> 'c Transport \<Rightarrow> err option \<times> 'c Transport" where
  "Transport_Close conn_Close t =
     (if t_done t then (None, t)
      else (case conn_Close (t_conn t) of (e, c) \<Rightarrow> (e, t\<lparr>t_done := True, t_conn := c\<rparr>)))"

section \<open>The writing side\<close>

lemma cfb8_loop_prefix: "fst (cfb8_loop block s (take n xs) e) = take n (fst (cfb8_loop block s xs e))"
proof -
  have "fst (cfb8_loop block s (take n xs @ drop n xs) e) =
      fst (cfb8_loop block s (take n xs) e) @
      fst (cfb8_loop block (snd (cfb8_loop block s (take n xs) e)) (drop n xs) e)"
    unfolding cfb8_loop_append by (simp add: Let_def split_beta)
  then show ?thesis
    by (cases "n \<le> length xs") (simp_all add: cfb8_loop_length)
qed

locale net_conn = io_writer conn_write conn_sent conn_usable
  for conn_write :: "'c \<Rightarrow> bytes \<Rightarrow> (nat \<times> err option) \<times> 'c"
    and conn_sent :: "'c \<Rightarrow> bytes" and conn_usable :: "'c \<Rightarrow> bool"
begin

lemma write_loop_spec:
  "conn_usable c \<Longrightarrow> written \<le> length encrypted \<Longrightarrow>
   write_loop conn_write c encrypted written = ((n, e), c') \<Longrightarrow>
   written \<le> n \<and> n \<le> length encrypted \<and> conn_sent c' = conn_sent c @ take (n - written) (drop written encrypted) \<and>
   (e = None \<longrightarrow> n = length encrypted \<and> conn_usable c')"
proof (induction "length encrypted - written" arbitrary: c written rule: less_induct)
  case less
  show ?case
  proof (cases "written < length encrypted")
    case False
    then have "((length encrypted, None), c) = ((n, e), c')" "written = length encrypted"
      using less.prems unfolding write_loop.simps [of conn_write c encrypted written] by simp_all
    then show ?thesis using less.prems(1) by auto
  next
    case True
    obtain count e1 c1 where p: "conn_write c (drop written encrypted) = ((count, e1), c1)" by (metis surj_pair)
    have n: "count \<le> length encrypted - written"
      and s: "conn_sent c1 = conn_sent c @ take count (drop written encrypted)"
      using put_count [OF less.prems(1) p] put_sent [OF less.prems(1) p] by simp_all
    note unfold = less.prems(3) [unfolded write_loop.simps [of conn_write c encrypted written]]
    show ?thesis
    proof (cases "e1 = None \<and> count \<noteq> 0")
      case more: True
      then have u: "conn_usable c1" using put_usable less.prems(1) p by blast
      have rec: "write_loop conn_write c1 encrypted (written + count) = ((n, e), c')"
        using unfold True more by (simp add: p)
      have IH: "written + count \<le> n \<and> n \<le> length encrypted \<and>
          conn_sent c' = conn_sent c1 @ take (n - (written + count)) (drop (written + count) encrypted) \<and>
          (e = None \<longrightarrow> n = length encrypted \<and> conn_usable c')"
        using less.hyps [OF _ u _ rec] n more True by auto
      moreover have "take (n - written) (drop written encrypted) =
          take count (drop written encrypted) @ take (n - (written + count)) (drop (written + count) encrypted)"
        using IH take_add [of count "n - (written + count)" "drop written encrypted"]
        by (simp add: add.commute)
      ultimately show ?thesis using s by simp
    next
      case False
      then have "n = written + count" "e \<noteq> None" "c' = c1"
        using unfold True by (auto simp: p split: option.splits if_splits)
      then show ?thesis using s n True by auto
    qed
  qed
qed

end

text \<open>
  What a peer makes of wire bytes \<open>W\<close> sent from the cipher state \<open>e\<close> on: the plain text, and
  the state the sender has then reached.
\<close>

definition unsealed :: "CipherState option \<Rightarrow> bytes \<Rightarrow> bytes \<times> CipherState option" where
  "unsealed e W =
     (case e of
        None \<Rightarrow> (W, None)
      | Some s \<Rightarrow>
          let (P, iv) = cfb8_loop (cs_block s) (encryptIV s) W False in (P, Some (s\<lparr>encryptIV := iv\<rparr>)))"

lemma unsealed_append:
  "unsealed e (V @ W) =
     (fst (unsealed e V) @ fst (unsealed (snd (unsealed e V)) W), snd (unsealed (snd (unsealed e V)) W))"
  by (cases e) (auto simp: unsealed_def cfb8_loop_append Let_def split: prod.splits)

lemma unsealed_Nil [simp]: "unsealed e [] = ([], e)"
  by (cases e) (simp_all add: unsealed_def)

lemma length_unsealed: "length (fst (unsealed e W)) = length W"
  by (cases e) (simp_all add: unsealed_def split_beta cfb8_loop_length)

lemma unsealed_encrypted:
  assumes "cfb8_loop (cs_block s) (encryptIV s) data True = (encrypted, iv')"
  shows "fst (unsealed (Some s) (take n encrypted)) = take n data"
    "unsealed (Some s) encrypted = (data, Some (s\<lparr>encryptIV := iv'\<rparr>))"
  using cfb8_loop_prefix [of "cs_block s" "encryptIV s" n encrypted False] cfb8_loop_inverse [OF assms]
  by (simp_all add: unsealed_def split_beta)

text \<open>
  The plain text sent by a writer that was in cipher state \<open>e\<close> after it had sent \<open>base\<close>, and
  that the writer is still in step with the bytes it put on the wire.
\<close>

definition plain_sent :: "('c \<Rightarrow> bytes) \<Rightarrow> bytes \<Rightarrow> CipherState option \<Rightarrow> 'c wire_writer \<Rightarrow> bytes" where
  "plain_sent conn_sent base e w = fst (unsealed e (drop (length base) (conn_sent (wr_conn w))))"

definition writer_ready ::
    "('c \<Rightarrow> bytes) \<Rightarrow> ('c \<Rightarrow> bool) \<Rightarrow> bytes \<Rightarrow> CipherState option \<Rightarrow> 'c wire_writer \<Rightarrow> bool" where
  "writer_ready conn_sent conn_usable base e w \<longleftrightarrow> conn_usable (wr_conn w) \<and>
     (\<exists>W. conn_sent (wr_conn w) = base @ W \<and> wr_state w = snd (unsealed e W))"

context net_conn
begin

lemma cipherWriter_plain:
  assumes "wr_state w = None"
  shows "cipherWriter_Write conn_write w data =
    (fst (conn_write (wr_conn w) data), w\<lparr>wr_conn := snd (conn_write (wr_conn w) data)\<rparr>)"
  using assms by (simp add: cipherWriter_Write_def split_beta)

lemma cipherWriter_encrypted:
  assumes "wr_state w = Some s" "cfb8_loop (cs_block s) (encryptIV s) data True = (encrypted, iv')"
  shows "cipherWriter_Write conn_write w data =
    (fst (write_loop conn_write (wr_conn w) encrypted 0),
     w\<lparr>wr_conn := snd (write_loop conn_write (wr_conn w) encrypted 0), wr_state := Some (s\<lparr>encryptIV := iv'\<rparr>)\<rparr>)"
  using assms(1) Encrypt_Ok [OF _ assms(2), of "replicate (length data) 0"]
  by (simp add: cipherWriter_Write_def split_beta)

text \<open>The bytes a write puts on the wire, and what the peer makes of them.\<close>

lemma cipherWriter_wire:
  assumes "conn_usable (wr_conn w)" "cipherWriter_Write conn_write w data = ((n, err), w')"
  shows "\<exists>W. conn_sent (wr_conn w') = conn_sent (wr_conn w) @ W \<and> n \<le> length data \<and>
    fst (unsealed (wr_state w) W) = take n data \<and>
    (err = None \<longrightarrow> conn_usable (wr_conn w') \<and> wr_state w' = snd (unsealed (wr_state w) W))"
proof (cases "wr_state w")
  case None
  then obtain c' where c': "conn_write (wr_conn w) data = ((n, err), c')" "w' = w\<lparr>wr_conn := c'\<rparr>"
    using assms(2) cipherWriter_plain [OF None] by (cases "conn_write (wr_conn w) data") auto
  have "conn_sent c' = conn_sent (wr_conn w) @ take n data" "n \<le> length data" "err = None \<longrightarrow> conn_usable c'"
    using put_count [OF assms(1) c'(1)] put_sent [OF assms(1) c'(1)] put_usable [OF assms(1)] c'(1)
    by auto
  with None c'(2) show ?thesis by (intro exI [of _ "take n data"]) (simp add: unsealed_def)
next
  case (Some s)
  obtain encrypted iv' where enc: "cfb8_loop (cs_block s) (encryptIV s) data True = (encrypted, iv')"
    by fastforce
  obtain c' where loop: "write_loop conn_write (wr_conn w) encrypted 0 = ((n, err), c')"
    and w': "w' = w\<lparr>wr_conn := c', wr_state := Some (s\<lparr>encryptIV := iv'\<rparr>)\<rparr>"
    using assms(2) cipherWriter_encrypted [OF Some enc]
    by (cases "write_loop conn_write (wr_conn w) encrypted 0") auto
  have spec: "n \<le> length encrypted" "conn_sent c' = conn_sent (wr_conn w) @ take n encrypted"
    "err = None \<Longrightarrow> n = length encrypted \<and> conn_usable c'"
    using write_loop_spec [OF assms(1) _ loop] by simp_all
  moreover have "length encrypted = length data"
    using cfb8_loop_length [of "cs_block s" "encryptIV s" data True] enc by simp
  ultimately show ?thesis
    using unsealed_encrypted(1) [OF enc, of n] unsealed_encrypted(2) [OF enc] Some w' by (intro exI [of _ "take n encrypted"]) auto
qed

lemma cipherWriter_contract:
  assumes "writer_ready conn_sent conn_usable base e w" "cipherWriter_Write conn_write w data = ((n, err), w')"
  shows "n \<le> length data \<and> plain_sent conn_sent base e w' = plain_sent conn_sent base e w @ take n data \<and>
    (err = None \<longrightarrow> writer_ready conn_sent conn_usable base e w')"
proof -
  obtain V where usable: "conn_usable (wr_conn w)" and V: "conn_sent (wr_conn w) = base @ V"
    and state: "wr_state w = snd (unsealed e V)"
    using assms(1) by (auto simp: writer_ready_def)
  obtain W where "conn_sent (wr_conn w') = conn_sent (wr_conn w) @ W" "n \<le> length data"
    "fst (unsealed (wr_state w) W) = take n data"
    "err = None \<longrightarrow> conn_usable (wr_conn w') \<and> wr_state w' = snd (unsealed (wr_state w) W)"
    using cipherWriter_wire [OF usable assms(2)] by blast
  then show ?thesis
    by (auto simp: plain_sent_def writer_ready_def unsealed_append state V)
qed

end

sublocale net_conn \<subseteq> cw: io_writer "cipherWriter_Write conn_write" "plain_sent conn_sent base e"
  "writer_ready conn_sent conn_usable base e" for base e
  by unfold_locales (use cipherWriter_contract in blast)+

section \<open>Frames on the wire\<close>

definition wire_image :: "(bytes \<Rightarrow> bytes res) \<Rightarrow> 'c Transport \<Rightarrow> bytes \<Rightarrow> bytes" where
  "wire_image deflate t payload =
     (case t_compression t of None \<Rightarrow> frame payload | Some c \<Rightarrow> frame (compressed_body deflate c payload))"

definition readable :: "(bytes \<Rightarrow> bytes res) \<Rightarrow> (bytes \<Rightarrow> reader res) \<Rightarrow> 'c Transport \<Rightarrow> bytes \<Rightarrow> bool" where
  "readable deflate inflate t payload =
     (case t_compression t of None \<Rightarrow> frame_fits (t_framer t) payload
      | Some c \<Rightarrow> compressed_fits deflate inflate c payload)"

text \<open>Writing a list of payloads; the result is an error unless every write succeeds.\<close>

fun write_many ::
    "(bytes \<Rightarrow> bytes res) \<Rightarrow> ('c \<Rightarrow> bytes \<Rightarrow> (nat \<times> err option) \<times> 'c) \<Rightarrow> 'c Transport \<Rightarrow> bytes list \<Rightarrow>
     unit res \<times> 'c Transport" where
  "write_many deflate conn_write t [] = (Ok (), t)"
| "write_many deflate conn_write t (p # ps) =
     (case Transport_WriteFrame deflate conn_write NotClosed t p of
        (Ok _, t) \<Rightarrow> write_many deflate conn_write t ps
      | (r, t) \<Rightarrow> (r, t))"

lemma compressed_WriteFrame_body:
  "compressed_WriteFrame deflate c put w payload = (Ok (), w') \<Longrightarrow>
     WriteFrame (wireFramer c) put w (compressed_body deflate c payload) = (Ok (), w')"
  by (auto simp: compressed_WriteFrame_def compressed_body_def split: if_splits res.splits)

text \<open>Reading frames, one per entry of \<open>aheads\<close>, the read-ahead of that call.\<close>

fun read_many :: "(bytes \<Rightarrow> reader res) \<Rightarrow> nat list \<Rightarrow> 'c Transport \<Rightarrow> bytes list res \<times> 'c Transport" where
  "read_many inflate [] t = (Ok [], t)"
| "read_many inflate (ahead # aheads) t =
     (case Transport_ReadFrame inflate ahead t of
        (Ok p, t) \<Rightarrow>
          (case read_many inflate aheads t of
             (Ok ps, t) \<Rightarrow> (Ok (p # ps), t)
           | (r, t) \<Rightarrow> (r, t))
      | (Fail e, t) \<Rightarrow> (Fail e, t)
      | (Panic, t) \<Rightarrow> (Panic, t))"

text \<open>Packet limits below \<open>2 ^ 31\<close>, the range of the length prefix.\<close>

definition limits :: "'c Transport \<Rightarrow> bool" where
  "limits t \<longleftrightarrow>
     (case t_compression t of
        None \<Rightarrow> framer_maxPacketSize (t_framer t) < 2 ^ 31
      | Some c \<Rightarrow> cmp_maxPacketSize c < 2 ^ 31 \<and> framer_maxPacketSize (wireFramer c) < 2 ^ 31)"

definition same_setup :: "'c Transport \<Rightarrow> 'd Transport \<Rightarrow> bool" where
  "same_setup t u \<longleftrightarrow> t_compression t = t_compression u \<and> t_framer t = t_framer u \<and>
     t_maxPacketSize t = t_maxPacketSize u"

lemma same_setup_eq:
  assumes "same_setup t u"
  shows "limits t = limits u" "readable deflate inflate t = readable deflate inflate u"
    "wire_image deflate t = wire_image deflate u"
proof -
  have eqs: "t_compression t = t_compression u" "t_framer t = t_framer u"
    using assms by (simp_all add: same_setup_def)
  show "limits t = limits u" "readable deflate inflate t = readable deflate inflate u"
    "wire_image deflate t = wire_image deflate u"
    unfolding limits_def readable_def wire_image_def fun_eq_iff eqs by simp_all
qed

lemma same_setup_trans: "same_setup t u \<Longrightarrow> same_setup u v \<Longrightarrow> same_setup t v"
  by (simp add: same_setup_def)

context net_conn
begin

lemma WriteFrame_wire:
  assumes "conn_usable (t_conn t)" "Transport_WriteFrame deflate conn_write NotClosed t payload = (Ok (), t')"
  shows "\<exists>W. conn_sent (t_conn t') = conn_sent (t_conn t) @ W \<and> conn_usable (t_conn t') \<and> same_setup t t' \<and>
    unsealed (t_encryption t) W = (wire_image deflate t payload, t_encryption t')"
proof -
  let ?w = "\<lparr>wr_conn = t_conn t, wr_state = t_encryption t\<rparr>"
  let ?b = "conn_sent (t_conn t)"
  define r where "r = (case t_compression t of
      Some c \<Rightarrow> compressed_WriteFrame deflate c (cipherWriter_Write conn_write) ?w payload
    | None \<Rightarrow> WriteFrame (t_framer t) (cipherWriter_Write conn_write) ?w payload)"
  have ok: "r = (Ok (), snd r)" and t': "t' = t\<lparr>t_conn := wr_conn (snd r), t_encryption := wr_state (snd r)\<rparr>"
    using assms(2) by (auto simp: Transport_WriteFrame_def writerLoop_step_def Let_def r_def split: if_splits prod.splits)
  have ready: "writer_ready conn_sent conn_usable ?b (t_encryption t) ?w"
    using assms(1) by (simp add: writer_ready_def)
  have "writer_ready conn_sent conn_usable ?b (t_encryption t) (snd r) \<and>
      plain_sent conn_sent ?b (t_encryption t) (snd r) = wire_image deflate t payload"
  proof (cases "t_compression t")
    case None
    then have "WriteFrame (t_framer t) (cipherWriter_Write conn_write) ?w payload = (Ok (), snd r)"
      using ok by (simp add: r_def)
    from cw.WriteFrame_Ok(1,2) [OF ready this] None show ?thesis by (simp add: plain_sent_def wire_image_def)
  next
    case (Some c)
    then have "compressed_WriteFrame deflate c (cipherWriter_Write conn_write) ?w payload = (Ok (), snd r)"
      using ok by (simp add: r_def)
    from cw.compressed_WriteFrame_Ok(1,2) [OF ready this] Some show ?thesis
      by (simp add: plain_sent_def wire_image_def)
  qed
  then show ?thesis
    unfolding t' by (auto simp: writer_ready_def plain_sent_def same_setup_def prod_eq_iff)
qed

lemma write_many_wire:
  "conn_usable (t_conn t) \<Longrightarrow> write_many deflate conn_write t ps = (Ok (), t') \<Longrightarrow>
   \<exists>W. conn_sent (t_conn t') = conn_sent (t_conn t) @ W \<and> conn_usable (t_conn t') \<and> same_setup t t' \<and>
     unsealed (t_encryption t) W = (concat (map (wire_image deflate t) ps), t_encryption t')"
proof (induction ps arbitrary: t)
  case Nil
  then show ?case by (simp add: same_setup_def)
next
  case (Cons p ps)
  obtain t1 where t1: "Transport_WriteFrame deflate conn_write NotClosed t p = (Ok (), t1)"
    and rest: "write_many deflate conn_write t1 ps = (Ok (), t')"
    using Cons.prems(2) by (auto split: prod.splits res.splits)
  obtain V where V: "conn_sent (t_conn t1) = conn_sent (t_conn t) @ V" "conn_usable (t_conn t1)" "same_setup t t1"
    "unsealed (t_encryption t) V = (wire_image deflate t p, t_encryption t1)"
    using WriteFrame_wire [OF Cons.prems(1) t1] by blast
  obtain W where W: "conn_sent (t_conn t') = conn_sent (t_conn t1) @ W" "conn_usable (t_conn t')" "same_setup t1 t'"
    "unsealed (t_encryption t1) W = (concat (map (wire_image deflate t1) ps), t_encryption t')"
    using Cons.IH [OF V(2) rest] by blast
  with V same_setup_trans [OF V(3) W(3)] show ?case
    by (intro exI [of _ "V @ W"]) (simp add: unsealed_append same_setup_eq(3) [OF V(3)])
qed

lemma WriteFrame_readable:
  assumes "conn_usable (t_conn t)" "Transport_WriteFrame deflate conn_write NotClosed t payload = (Ok (), t')"
    "limits t" "t_compression t = None \<or> zlib_ok deflate inflate payload"
  shows "readable deflate inflate t payload"
proof -
  let ?w = "\<lparr>wr_conn = t_conn t, wr_state = t_encryption t\<rparr>"
  have ready: "writer_ready conn_sent conn_usable (conn_sent (t_conn t)) (t_encryption t) ?w"
    using assms(1) by (simp add: writer_ready_def)
  show ?thesis
  proof (cases "t_compression t")
    case None
    then obtain w' where "WriteFrame (t_framer t) (cipherWriter_Write conn_write) ?w payload = (Ok (), w')"
      using assms(2) by (auto simp: Transport_WriteFrame_def writerLoop_step_def Let_def split: if_splits prod.splits)
    from cw.WriteFrame_Ok(3,4) [OF ready this] None assms(3) show ?thesis
      by (auto simp: readable_def frame_fits_def limits_def)
  next
    case (Some c)
    then obtain w' where w: "compressed_WriteFrame deflate c (cipherWriter_Write conn_write) ?w payload = (Ok (), w')"
      using assms(2) by (auto simp: Transport_WriteFrame_def writerLoop_step_def Let_def split: if_splits prod.splits)
    from cw.compressed_WriteFrame_Ok(3,4) [OF ready w] cw.WriteFrame_Ok(3,4) [OF ready compressed_WriteFrame_body [OF w]]
      Some assms(3,4) show ?thesis
      by (auto simp: readable_def frame_fits_def compressed_fits_def limits_def)
  qed
qed

text \<open>What was written within the limits of the length prefix can be read.\<close>

lemma write_many_readable:
  "conn_usable (t_conn t) \<Longrightarrow> write_many deflate conn_write t ps = (Ok (), t') \<Longrightarrow> limits t \<Longrightarrow>
   t_compression t = None \<or> (\<forall>p \<in> set ps. zlib_ok deflate inflate p) \<Longrightarrow> list_all (readable deflate inflate t) ps"
proof (induction ps arbitrary: t)
  case (Cons p ps)
  obtain t1 where t1: "Transport_WriteFrame deflate conn_write NotClosed t p = (Ok (), t1)"
    and rest: "write_many deflate conn_write t1 ps = (Ok (), t')"
    using Cons.prems(2) by (auto split: prod.splits res.splits)
  have setup1: "same_setup t t1" "conn_usable (t_conn t1)" using WriteFrame_wire [OF Cons.prems(1) t1] by blast+
  with Cons.IH [OF setup1(2) rest] WriteFrame_readable [OF Cons.prems(1) t1 Cons.prems(3)] Cons.prems(3,4)
  show ?case unfolding same_setup_eq [OF setup1(1)] by (auto simp: same_setup_def)
qed simp

end

section \<open>The reading side\<close>

lemma decrypted_append:
  "\<exists>rest. decrypted t (V @ W) = decrypted t V @ rest"
  by (cases "t_encryption t") (auto simp: decrypted_def cfb8_loop_append Let_def split_beta)

lemma fill_plain:
  "t_encryption t = None \<Longrightarrow>
     bufio_fill k t = t\<lparr>conn_in := drop k (conn_in t), buffered := buffered t @ take k (conn_in t)\<rparr>"
  by (simp add: bufio_fill_def cipherReader_Read_def Let_def)

lemma fill_encrypted:
  assumes "t_encryption t = Some s" "cfb8_loop (cs_block s) (decryptIV s) (take k (conn_in t)) False = (a, iv)"
  shows "bufio_fill k t = t\<lparr>conn_in := drop k (conn_in t), t_encryption := Some (s\<lparr>decryptIV := iv\<rparr>),
    buffered := buffered t @ a\<rparr>"
proof (cases "take k (conn_in t) = []")
  case True
  then have "a = []" "iv = decryptIV s" using assms(2) unfolding True by simp_all
  with True assms(1) show ?thesis by (simp add: bufio_fill_def cipherReader_Read_def)
next
  case False
  have "Decrypt s (take k (conn_in t)) (take k (conn_in t)) = Ok (a, s\<lparr>decryptIV := iv\<rparr>)"
    by (rule Decrypt_Ok [OF refl assms(2)])
  with False assms(1) show ?thesis by (simp add: bufio_fill_def cipherReader_Read_def)
qed

lemma view_fill: "view (bufio_fill k t) = view t"
proof (cases "t_encryption t")
  case None
  then show ?thesis by (simp add: fill_plain view_def decrypted_def)
next
  case (Some s)
  obtain a iv where a: "cfb8_loop (cs_block s) (decryptIV s) (take k (conn_in t)) False = (a, iv)" by fastforce
  have "fst (cfb8_loop (cs_block s) (decryptIV s) (take k (conn_in t) @ drop k (conn_in t)) False) =
      a @ fst (cfb8_loop (cs_block s) iv (drop k (conn_in t)) False)"
    unfolding cfb8_loop_append a by (simp add: split_beta)
  then show ?thesis using Some by (simp add: fill_encrypted [OF Some a] view_def decrypted_def)
qed

lemma fill_buffered:
  "length (buffered (bufio_fill k t)) = length (buffered t) + min k (length (conn_in t))"
proof (cases "t_encryption t")
  case None
  then show ?thesis by (simp add: fill_plain min.commute)
next
  case (Some s)
  obtain a iv where a: "cfb8_loop (cs_block s) (decryptIV s) (take k (conn_in t)) False = (a, iv)" by fastforce
  then have "length a = length (take k (conn_in t))" using cfb8_loop_length by (metis fst_conv)
  then show ?thesis by (simp add: fill_encrypted [OF Some a] min.commute)
qed

lemma length_decrypted: "length (decrypted t W) = length W"
  by (cases "t_encryption t") (simp_all add: decrypted_def cfb8_loop_length)

lemma view_discard:
  assumes "n \<le> length (pending (view t))"
  shows "view (bufio_discard ahead n t) = (view t)\<lparr>pending := drop n (pending (view t))\<rparr>"
proof -
  let ?t = "bufio_fill (n - length (buffered t) + ahead) t"
  have "n \<le> length (buffered ?t)"
    using assms by (simp add: fill_buffered view_def length_decrypted)
  moreover have "decrypted (?t\<lparr>buffered := b\<rparr>) = decrypted ?t" for b
    by (simp add: decrypted_def fun_eq_iff)
  ultimately have "view (bufio_discard ahead n t) = (view ?t)\<lparr>pending := drop n (pending (view ?t))\<rparr>"
    by (simp add: bufio_discard_def Let_def view_def)
  then show ?thesis by (simp add: view_fill)
qed

lemma same_setup_discard: "same_setup t (bufio_discard ahead n t)"
proof (cases "t_encryption t")
  case None
  then show ?thesis by (simp add: same_setup_def bufio_discard_def fill_plain)
next
  case (Some s)
  obtain a iv where "cfb8_loop (cs_block s) (decryptIV s) (take (n - length (buffered t) + ahead) (conn_in t)) False =
      (a, iv)" by fastforce
  then show ?thesis by (simp add: same_setup_def bufio_discard_def fill_encrypted [OF Some])
qed

lemma ReadFrame_view:
  assumes "readable deflate inflate t p" "pending (view t) = wire_image deflate t p @ rest"
  shows "\<exists>t'. Transport_ReadFrame inflate ahead t = (Ok p, t') \<and> same_setup t t' \<and>
    view t' = (view t)\<lparr>pending := rest\<rparr>"
proof -
  have v: "(view t)\<lparr>pending := wire_image deflate t p @ rest\<rparr> = view t" using assms(2) by simp
  have "(case t_compression t of
      Some c \<Rightarrow> compressed_ReadFrame inflate c (view t)
    | None \<Rightarrow> ReadFrame (t_framer t) (view t)) = (Ok p, (view t)\<lparr>pending := rest\<rparr>)"
  proof (cases "t_compression t")
    case None
    then have "ReadFrame (t_framer t) ((view t)\<lparr>pending := wire_image deflate t p @ rest\<rparr>) =
        (Ok p, (view t)\<lparr>pending := rest\<rparr>)"
      using assms(1) by (simp add: readable_def wire_image_def plain.get_wire)
    then show ?thesis unfolding v using None by simp
  next
    case (Some c)
    then have "compressed_ReadFrame inflate c ((view t)\<lparr>pending := wire_image deflate t p @ rest\<rparr>) =
        (Ok p, (view t)\<lparr>pending := rest\<rparr>)"
      using assms(1) by (simp add: readable_def wire_image_def zip.get_wire)
    then show ?thesis unfolding v using Some by simp
  qed
  moreover have "length (pending (view t)) - length rest \<le> length (pending (view t))"
    "drop (length (pending (view t)) - length rest) (pending (view t)) = rest"
    using assms(2) by simp_all
  ultimately show ?thesis
    by (simp add: Transport_ReadFrame_def view_discard same_setup_discard)
qed

lemma read_many_view:
  "list_all (readable deflate inflate t) ps \<Longrightarrow> length aheads = length ps \<Longrightarrow>
   pending (view t) = concat (map (wire_image deflate t) ps) @ rest \<Longrightarrow>
   \<exists>t'. read_many inflate aheads t = (Ok ps, t') \<and> same_setup t t' \<and> view t' = (view t)\<lparr>pending := rest\<rparr>"
proof (induction ps arbitrary: t aheads)
  case Nil
  then show ?case by (simp add: same_setup_def)
next
  case (Cons p ps)
  then obtain ahead aheads' where a: "aheads = ahead # aheads'" by (cases aheads) auto
  obtain t1 where t1: "Transport_ReadFrame inflate ahead t = (Ok p, t1)" "same_setup t t1"
    "view t1 = (view t)\<lparr>pending := concat (map (wire_image deflate t) ps) @ rest\<rparr>"
    using ReadFrame_view [of deflate inflate t p "concat (map (wire_image deflate t) ps) @ rest" ahead] Cons.prems
    by auto
  with Cons.IH [of t1 aheads'] Cons.prems a same_setup_eq [OF t1(2)] obtain t2 where "read_many inflate aheads' t1 = (Ok ps, t2)"
    "same_setup t1 t2" "view t2 = (view t1)\<lparr>pending := rest\<rparr>" by auto
  with t1 a same_setup_trans show ?case by (intro exI [of _ t2]) auto
qed

section \<open>Both ends\<close>

text \<open>The receiver decrypts from the register the sender encrypts from.\<close>

definition in_step :: "CipherState option \<Rightarrow> CipherState option \<Rightarrow> bool" where
  "in_step e e' =
     (case (e, e') of
        (None, None) \<Rightarrow> True
      | (Some s, Some s') \<Rightarrow> cs_block s = cs_block s' \<and> encryptIV s = decryptIV s'
      | _ \<Rightarrow> False)"

lemma in_step_decrypted:
  assumes "in_step e (t_encryption u)"
  shows "\<exists>rest'. decrypted u (W @ rest) = fst (unsealed e W) @ rest'"
proof -
  have "decrypted u W = fst (unsealed e W)"
    using assms by (auto simp: in_step_def decrypted_def unsealed_def split_beta split: option.splits)
  then show ?thesis using decrypted_append [of u W rest] by simp
qed

context net_conn
begin

lemma read_written:
  assumes "conn_usable (t_conn t)" "write_many deflate conn_write t ps = (Ok (), t')"
    "conn_sent (t_conn t') = conn_sent (t_conn t) @ W" "limits t"
    "t_compression t = None \<or> (\<forall>p \<in> set ps. zlib_ok deflate inflate p)"
    "same_setup t u" "in_step (t_encryption t) (t_encryption u)" "buffered u = []" "conn_in u = W @ rest"
    "length aheads = length ps"
  shows "\<exists>u'. read_many inflate aheads u = (Ok ps, u') \<and> same_setup u u' \<and>
    pending (view u') = drop (length W) (decrypted u (W @ rest))"
proof -
  have W: "unsealed (t_encryption t) W = (concat (map (wire_image deflate t) ps), t_encryption t')"
    using write_many_wire [OF assms(1,2)] assms(3) by auto
  obtain rest' where rest': "decrypted u (W @ rest) = concat (map (wire_image deflate t) ps) @ rest'"
    using in_step_decrypted [OF assms(7), of W rest] W by auto
  have len: "length (concat (map (wire_image deflate t) ps)) = length W"
    using length_unsealed [of "t_encryption t" W] W by simp
  have "pending (view u) = concat (map (wire_image deflate u) ps) @ rest'"
    using rest' assms(8,9) by (simp add: view_def same_setup_eq(3) [OF assms(6)])
  moreover have "list_all (readable deflate inflate u) ps"
    using write_many_readable [OF assms(1,2,4,5)] by (simp add: same_setup_eq(2) [OF assms(6)])
  ultimately obtain u' where "read_many inflate aheads u = (Ok ps, u')" "same_setup u u'"
    "view u' = (view u)\<lparr>pending := rest'\<rparr>"
    using read_many_view [OF _ assms(10)] by blast
  then show ?thesis using rest' len by auto
qed

end

lemma discard_plain: "t_encryption t = None \<Longrightarrow> t_encryption (bufio_discard ahead n t) = None"
  by (simp add: bufio_discard_def fill_plain)

lemma read_many_plain: "t_encryption t = None \<Longrightarrow> t_encryption (snd (read_many inflate aheads t)) = None"
proof (induction inflate aheads t rule: read_many.induct)
  case (2 inflate ahead aheads t)
  have "t_encryption (snd (Transport_ReadFrame inflate ahead t)) = None"
    using 2(2) by (simp add: Transport_ReadFrame_def split_beta discard_plain)
  with 2(1) show ?case by (auto split: prod.splits res.splits)
qed simp

lemma EnableEncryption_cases:
  assumes "NewCipherState aes_NewCipher key iv = Ok s"
  shows "EnableEncryption aes_NewCipher key iv t =
    (if buffered t = [] then (Ok (), t\<lparr>t_encryption := Some s\<rparr>) else (Fail ErrBufferedEncryptionTransition, t))"
    "encryptIV s = iv" "decryptIV s = iv"
  using assms by (auto simp: EnableEncryption_def NewCipherState_def res_iff split: if_splits)

context net_conn
begin

lemma read_switched:
  assumes "conn_usable (t_conn t)" "t_encryption t = None"
    "write_many deflate conn_write t ps = (Ok (), t1)" "EnableEncryption aes_NewCipher key iv t1 = (Ok (), t2)"
    "write_many deflate conn_write t2 qs = (Ok (), t3)"
    "conn_sent (t_conn t3) = conn_sent (t_conn t) @ W" "limits t" "\<forall>p \<in> set ps \<union> set qs. zlib_ok deflate inflate p"
    "same_setup t u" "t_encryption u = None" "buffered u = []" "conn_in u = W @ rest"
    "length aheads = length ps" "length aheads' = length qs"
  shows "\<exists>u1. read_many inflate aheads u = (Ok ps, u1) \<and>
    (case EnableEncryption aes_NewCipher key iv u1 of
       (Ok _, u2) \<Rightarrow> fst (read_many inflate aheads' u2) = Ok qs
     | (r, u2) \<Rightarrow> r = Fail ErrBufferedEncryptionTransition \<and> u2 = u1 \<and> buffered u1 \<noteq> [])"
proof -
  obtain s where s: "NewCipherState aes_NewCipher key iv = Ok s" and t2: "t2 = t1\<lparr>t_encryption := Some s\<rparr>"
    using assms(4) by (auto simp: EnableEncryption_def split: if_splits res.splits)
  obtain W1 where W1: "conn_sent (t_conn t1) = conn_sent (t_conn t) @ W1" "conn_usable (t_conn t1)" "same_setup t t1"
    using write_many_wire [OF assms(1,3)] by blast
  have usable2: "conn_usable (t_conn t2)" and setup2: "same_setup t t2"
    using W1(2,3) t2 by (simp_all add: same_setup_def)
  obtain W2 where W2: "conn_sent (t_conn t3) = conn_sent (t_conn t2) @ W2"
    using write_many_wire [OF usable2 assms(5)] by blast
  have W: "W = W1 @ W2" using W1(1) W2 t2 assms(6) by simp
  have "\<exists>u1. read_many inflate aheads u = (Ok ps, u1) \<and> same_setup u u1 \<and>
      pending (view u1) = drop (length W1) (decrypted u (W1 @ W2 @ rest))"
    using assms(8,12) W by (intro read_written [OF assms(1,3) W1(1) assms(7) _ assms(9) _ assms(11) _ assms(13)])
      (auto simp: assms(2,10) in_step_def)
  then obtain u1 where u1: "read_many inflate aheads u = (Ok ps, u1)" "same_setup u u1"
    "pending (view u1) = W2 @ rest" using assms(10) by (auto simp: decrypted_def)
  have plain1: "t_encryption u1 = None" using read_many_plain [OF assms(10), of inflate aheads] u1(1) by simp
  show ?thesis
  proof (cases "buffered u1 = []")
    case True
    let ?u2 = "u1\<lparr>t_encryption := Some s\<rparr>"
    have "conn_in ?u2 = W2 @ rest" using u1(3) True plain1 by (simp add: view_def decrypted_def)
    moreover have "same_setup t2 ?u2" using setup2 assms(9) u1(2) by (simp add: same_setup_def)
    moreover have "in_step (t_encryption t2) (t_encryption ?u2)"
      using EnableEncryption_cases(2,3) [OF s] t2 by (simp add: in_step_def)
    moreover have "limits t2" using same_setup_eq(1) [OF setup2] assms(7) by simp
    ultimately have "fst (read_many inflate aheads' ?u2) = Ok qs"
      using read_written [OF usable2 assms(5) W2 _ _ _ _ _ _ assms(14), of inflate ?u2 rest] assms(8) True by auto
    with u1(1) True show ?thesis by (simp add: EnableEncryption_cases(1) [OF s])
  next
    case False
    with u1(1) show ?thesis by (simp add: EnableEncryption_cases(1) [OF s])
  qed
qed

end

section \<open>A connection of the operating system\<close>

text \<open>
  A TCP connection that answers its writes along a plan, the rest in full: each answer takes
  some of the bytes and may report an error.
\<close>

record tcp =
  tcp_out :: bytes
  tcp_plan :: "(nat \<times> err option) list"

definition tcp_write :: "tcp \<Rightarrow> bytes \<Rightarrow> (nat \<times> err option) \<times> tcp" where
  "tcp_write c data =
     (case tcp_plan c of
        [] \<Rightarrow> ((length data, None), c\<lparr>tcp_out := tcp_out c @ data\<rparr>)
      | (n, e) # plan \<Rightarrow>
          ((min n (length data), e), c\<lparr>tcp_out := tcp_out c @ take n data, tcp_plan := plan\<rparr>))"

interpretation tcp: net_conn tcp_write tcp_out "\<lambda>_. True"
  by unfold_locales (auto simp: tcp_write_def min_def split: list.splits if_splits)

section \<open>Properties\<close>

text \<open>
  C8: what is written at one end of a connection is read at the other. A list of payloads is
  written through a transport, with or without compression and encryption, over a
  connection that takes the bytes of each write in pieces of any size. If every write
  succeeds, a peer with the same setup, in step with the sender's cipher, reads exactly these
  payloads, whatever it reads ahead and whatever follows. The hypotheses are the contract of
  \<open>net.Conn\<close>, that zlib restores what it compressed, and packet limits below \<open>2 ^ 31\<close>.
\<close>

theorem transport_roundtrip:
  assumes "net_conn conn_write conn_sent conn_usable" "conn_usable (t_conn t)"
    "write_many deflate conn_write t ps = (Ok (), t')"
    "conn_sent (t_conn t') = conn_sent (t_conn t) @ W" "limits t" "\<forall>p \<in> set ps. zlib_ok deflate inflate p"
    "same_setup t u" "in_step (t_encryption t) (t_encryption u)" "buffered u = []" "conn_in u = W @ rest"
    "length aheads = length ps"
  shows "fst (read_many inflate aheads u) = Ok ps"
  using net_conn.read_written [OF assms(1-5) disjI2 [OF assms(6)] assms(7-)] by auto

text \<open>A block function, keys and a compressor for the example.\<close>

definition example_cipher :: CipherState where
  "example_cipher = \<lparr>cs_block = (\<lambda>s. [s ! 0 + s ! 15 + 7]), encryptIV = replicate 16 3, decryptIV = replicate 16 3\<rparr>"

definition example_sender :: "tcp Transport" where
  "example_sender = (New_Transport \<lparr>tcp_out = [], tcp_plan = [(1, None), (2, None)]\<rparr> [] EOF 100)
     \<lparr>t_encryption := Some example_cipher\<rparr>"

definition example_inflate :: "bytes \<Rightarrow> reader res" where
  "example_inflate z = Ok \<lparr>pending = z, ends_with = EOF\<rparr>"

lemma example_sender_writes: "fst (write_many Ok tcp_write example_sender [[1, 2, 3], [4]]) = Ok ()"
  by code_simp

theorem transport_roundtrip_witness:
  "fst (read_many example_inflate [4, 0]
     (example_sender\<lparr>conn_in := tcp_out (t_conn (snd (write_many Ok tcp_write example_sender [[1, 2, 3], [4]])))\<rparr>))
   = Ok [[1, 2, 3], [4]]"
proof (rule transport_roundtrip [OF tcp.net_conn_axioms, where rest = "[]"])
  show "write_many Ok tcp_write example_sender [[1, 2, 3], [4]] =
      (Ok (), snd (write_many Ok tcp_write example_sender [[1, 2, 3], [4]]))"
    using example_sender_writes by (simp add: prod_eq_iff)
  show "\<forall>p \<in> set [[1, 2, 3], [4]]. zlib_ok Ok example_inflate p"
    by (simp add: zlib_ok_def example_inflate_def)
qed (simp_all add: example_sender_def New_Transport_def limits_def NewFramer_def same_setup_def in_step_def
    example_cipher_def)

text \<open>
  C9: switching encryption on. The sender writes payloads in plain text, enables encryption
  and writes more; the receiver reads as many frames, enables encryption with the same key
  and reads on. If the receiver had already buffered bytes that belong behind the switch,
  \<open>EnableEncryption\<close> refuses and changes nothing; otherwise it reads exactly the payloads
  written after the switch.
\<close>

theorem encryption_switch:
  assumes "net_conn conn_write conn_sent conn_usable" "conn_usable (t_conn t)" "t_encryption t = None"
    "write_many deflate conn_write t ps = (Ok (), t1)" "EnableEncryption aes_NewCipher key iv t1 = (Ok (), t2)"
    "write_many deflate conn_write t2 qs = (Ok (), t3)"
    "conn_sent (t_conn t3) = conn_sent (t_conn t) @ W" "limits t" "\<forall>p \<in> set ps \<union> set qs. zlib_ok deflate inflate p"
    "same_setup t u" "t_encryption u = None" "buffered u = []" "conn_in u = W @ rest"
    "length aheads = length ps" "length aheads' = length qs"
  shows "\<exists>u1. read_many inflate aheads u = (Ok ps, u1) \<and>
    (case EnableEncryption aes_NewCipher key iv u1 of
       (Ok _, u2) \<Rightarrow> fst (read_many inflate aheads' u2) = Ok qs
     | (r, u2) \<Rightarrow> r = Fail ErrBufferedEncryptionTransition \<and> u2 = u1 \<and> buffered u1 \<noteq> [])"
  by (rule net_conn.read_switched [OF assms])

definition example_aes :: "bytes \<Rightarrow> (bytes \<Rightarrow> bytes) res" where
  "example_aes key = Ok (\<lambda>s. [s ! 0 + key ! 0])"

definition example_key :: bytes where
  "example_key = replicate 16 5"

definition switched_sender :: "tcp Transport" where
  "switched_sender =
     snd (write_many Ok tcp_write
       (snd (EnableEncryption example_aes example_key example_key
         (snd (write_many Ok tcp_write (New_Transport \<lparr>tcp_out = [], tcp_plan = [(1, None)]\<rparr> [] EOF 100) [[1, 2]]))))
       [[3, 4, 5]])"

lemma switched_sender_runs:
  "fst (write_many Ok tcp_write (New_Transport \<lparr>tcp_out = [], tcp_plan = [(1, None)]\<rparr> [] EOF 100) [[1, 2]]) = Ok ()"
  "fst (EnableEncryption example_aes example_key example_key
     (snd (write_many Ok tcp_write (New_Transport \<lparr>tcp_out = [], tcp_plan = [(1, None)]\<rparr> [] EOF 100) [[1, 2]]))) = Ok ()"
  "fst (write_many Ok tcp_write
       (snd (EnableEncryption example_aes example_key example_key
         (snd (write_many Ok tcp_write (New_Transport \<lparr>tcp_out = [], tcp_plan = [(1, None)]\<rparr> [] EOF 100) [[1, 2]]))))
       [[3, 4, 5]]) = Ok ()"
  by code_simp+

theorem encryption_switch_witness:
  "\<exists>u1. read_many example_inflate [0]
      (New_Transport \<lparr>tcp_out = [], tcp_plan = []\<rparr> (tcp_out (t_conn switched_sender)) EOF 100) = (Ok [[1, 2]], u1) \<and>
    (case EnableEncryption example_aes example_key example_key u1 of
       (Ok _, u2) \<Rightarrow> fst (read_many example_inflate [9] u2) = Ok [[3, 4, 5]]
     | (r, u2) \<Rightarrow> r = Fail ErrBufferedEncryptionTransition \<and> u2 = u1 \<and> buffered u1 \<noteq> [])"
proof (rule encryption_switch [OF tcp.net_conn_axioms, where deflate = Ok and rest = "[]"])
  show "write_many Ok tcp_write (New_Transport \<lparr>tcp_out = [], tcp_plan = [(1, None)]\<rparr> [] EOF 100) [[1, 2]] =
      (Ok (), snd (write_many Ok tcp_write (New_Transport \<lparr>tcp_out = [], tcp_plan = [(1, None)]\<rparr> [] EOF 100) [[1, 2]]))"
    using switched_sender_runs(1) by (simp add: prod_eq_iff)
  show "EnableEncryption example_aes example_key example_key
     (snd (write_many Ok tcp_write (New_Transport \<lparr>tcp_out = [], tcp_plan = [(1, None)]\<rparr> [] EOF 100) [[1, 2]])) =
     (Ok (), snd (EnableEncryption example_aes example_key example_key
     (snd (write_many Ok tcp_write (New_Transport \<lparr>tcp_out = [], tcp_plan = [(1, None)]\<rparr> [] EOF 100) [[1, 2]]))))"
    using switched_sender_runs(2) by (simp add: prod_eq_iff)
  show "write_many Ok tcp_write
       (snd (EnableEncryption example_aes example_key example_key
         (snd (write_many Ok tcp_write (New_Transport \<lparr>tcp_out = [], tcp_plan = [(1, None)]\<rparr> [] EOF 100) [[1, 2]]))))
       [[3, 4, 5]] = (Ok (), switched_sender)"
    using switched_sender_runs(3) by (simp add: prod_eq_iff switched_sender_def)
qed (simp_all add: New_Transport_def limits_def NewFramer_def same_setup_def zlib_ok_def example_inflate_def)

end
