(* ===== verification/Auth.thy ===== *)
theory Auth
  imports Strings
begin

text \<open>
  Online-mode authentication, \<open>internal/auth\<close>. RSA, SHA-1, the key marshalling, the HTTP
  client and the JSON decoder are parameters. The theorems show that \<open>ServerHash\<close> is the
  signed hexadecimal form of the digest read as a two's complement number, that profile
  UUIDs are read back from their textual form, and what a successful authentication has
  checked.
\<close>

section \<open>Definitions\<close>

definition rsaKeyBits :: nat where "rsaKeyBits = 1024"
definition verifyTokenBytes :: nat where "verifyTokenBytes = 4"
definition sharedSecretSize :: nat where "sharedSecretSize = 16"

record auth_Property =
  ap_Name :: string
  ap_Value :: string
  ap_Signature :: string

record Profile =
  prof_UUID :: bytes
  prof_Username :: string
  prof_Properties :: "auth_Property list"

text \<open>\<open>HasJoined\<close> of a verifier: user name, server hash, address.\<close>

type_synonym Verifier = "string \<Rightarrow> string \<Rightarrow> string \<Rightarrow> Profile res"

record 'k Challenge =
  ch_privateKey :: 'k
  ch_publicKey :: bytes
  ch_verifyToken :: bytes

record 'k Authenticator =
  au_privateKey :: 'k
  au_publicKey :: bytes
  verifier :: Verifier

definition VerifierFunc_HasJoined :: "Verifier \<Rightarrow> Verifier" where
  "VerifierFunc_HasJoined f username serverHash address = f username serverHash address"

text \<open>
  \<open>session_service\<close> is the verifier used when none is given; \<open>rsa_GenerateKey\<close> takes the
  number of bits.
\<close>

definition NewAuthenticator ::
    "(nat \<Rightarrow> 'k res) \<Rightarrow> ('k \<Rightarrow> bytes res) \<Rightarrow> Verifier \<Rightarrow> Verifier option \<Rightarrow> 'k Authenticator res" where
  "NewAuthenticator rsa_GenerateKey x509_MarshalPKIXPublicKey session_service v =
     rbind (rsa_GenerateKey rsaKeyBits) (\<lambda>privateKey.
     rbind (x509_MarshalPKIXPublicKey privateKey) (\<lambda>publicKey.
     let v = (case v of None \<Rightarrow> session_service | Some v \<Rightarrow> v)
     in Ok \<lparr>au_privateKey = privateKey, au_publicKey = publicKey, verifier = v\<rparr>))"

text \<open>\<open>random\<close> gives the requested number of random bytes.\<close>

definition Begin :: "(nat \<Rightarrow> bytes res) \<Rightarrow> 'k Authenticator \<Rightarrow> 'k Challenge res" where
  "Begin random a =
     rbind (random verifyTokenBytes) (\<lambda>verifyToken.
     Ok \<lparr>ch_privateKey = au_privateKey a, ch_publicKey = au_publicKey a, ch_verifyToken = verifyToken\<rparr>)"

definition newChallenge ::
    "(nat \<Rightarrow> 'k res) \<Rightarrow> ('k \<Rightarrow> bytes res) \<Rightarrow> (nat \<Rightarrow> bytes res) \<Rightarrow> 'k Challenge res" where
  "newChallenge rsa_GenerateKey x509_MarshalPKIXPublicKey random =
     rbind (rsa_GenerateKey rsaKeyBits) (\<lambda>privateKey.
     rbind (x509_MarshalPKIXPublicKey privateKey) (\<lambda>publicKey.
     rbind (random verifyTokenBytes) (\<lambda>verifyToken.
     Ok \<lparr>ch_privateKey = privateKey, ch_publicKey = publicKey, ch_verifyToken = verifyToken\<rparr>)))"

definition PublicKey :: "'k Challenge \<Rightarrow> bytes" where
  "PublicKey c = ch_publicKey c"

definition VerifyToken :: "'k Challenge \<Rightarrow> bytes" where
  "VerifyToken c = ch_verifyToken c"

definition Challenge_Decrypt ::
    "('k \<Rightarrow> bytes \<Rightarrow> bytes res) \<Rightarrow> 'k Challenge \<Rightarrow> bytes \<Rightarrow> bytes \<Rightarrow> bytes res" where
  "Challenge_Decrypt rsa_DecryptPKCS1v15 c encryptedSecret encryptedToken =
     rbind (or_fail (rsa_DecryptPKCS1v15 (ch_privateKey c) encryptedSecret) ErrInvalidSharedSecret) (\<lambda>secret.
     if length secret \<noteq> sharedSecretSize then Fail ErrInvalidSharedSecret
     else
     rbind (or_fail (rsa_DecryptPKCS1v15 (ch_privateKey c) encryptedToken) ErrVerifyTokenMismatch) (\<lambda>token.
     if length token \<noteq> length (ch_verifyToken c) \<or> token \<noteq> ch_verifyToken c
     then Fail ErrVerifyTokenMismatch
     else Ok secret))"

subsection \<open>The server hash\<close>

definition hex_digit :: "nat \<Rightarrow> char" where
  "hex_digit n = (if n < 10 then char_of (48 + n) else char_of (87 + n))"

definition hex_EncodeToString :: "bytes \<Rightarrow> string" where
  "hex_EncodeToString bs = concat (map (\<lambda>b. [hex_digit (unat b div 16), hex_digit (unat b mod 16)]) bs)"

text \<open>
  The loop that negates the digest in place, from the last byte to the first; the result is
  the new bytes and the carry.
\<close>

fun negate_loop :: "bytes \<Rightarrow> byte \<Rightarrow> bytes \<times> byte" where
  "negate_loop [] carry = ([], carry)"
| "negate_loop (v # vs) carry =
     (case negate_loop vs carry of
        (rest, carry) \<Rightarrow>
          let nxt = NOT v + carry;
              carry = (if carry = 1 \<and> nxt \<noteq> 0 then 0 else carry)
          in (nxt # rest, carry))"

definition ServerHash :: "(bytes \<Rightarrow> bytes) \<Rightarrow> string \<Rightarrow> bytes \<Rightarrow> bytes \<Rightarrow> string" where
  "ServerHash sha1 serverID sharedSecret publicKey =
     (let digest = sha1 (bytes_of serverID @ sharedSecret @ publicKey);
          negative = (digest ! 0 AND 0x80 \<noteq> 0);
          digest = (if negative then fst (negate_loop digest 1) else digest);
          encoded = dropWhile (\<lambda>c. c = CHR ''0'') (hex_EncodeToString digest);
          encoded = (if encoded = '''' then ''0'' else encoded)
      in if negative then ''-'' @ encoded else encoded)"

definition Authenticate ::
    "('k \<Rightarrow> bytes \<Rightarrow> bytes res) \<Rightarrow> (bytes \<Rightarrow> bytes) \<Rightarrow> 'k Authenticator \<Rightarrow> 'k Challenge \<Rightarrow> string \<Rightarrow> string \<Rightarrow>
     bytes \<Rightarrow> bytes \<Rightarrow> (Profile \<times> bytes) res" where
  "Authenticate rsa_DecryptPKCS1v15 sha1 a challenge username address encryptedSecret encryptedToken =
     rbind (Challenge_Decrypt rsa_DecryptPKCS1v15 challenge encryptedSecret encryptedToken) (\<lambda>secret.
     rbind (verifier a username (ServerHash sha1 '''' secret (ch_publicKey challenge)) address) (\<lambda>profile.
     Ok (profile, secret)))"

subsection \<open>The session service\<close>

definition hex_value :: "char \<Rightarrow> nat option" where
  "hex_value c =
     (let n = of_char c :: nat in
      if 48 \<le> n \<and> n \<le> 57 then Some (n - 48)
      else if 97 \<le> n \<and> n \<le> 102 then Some (n - 87)
      else if 65 \<le> n \<and> n \<le> 70 then Some (n - 55)
      else None)"

fun hex_DecodeString :: "string \<Rightarrow> bytes option" where
  "hex_DecodeString [] = Some []"
| "hex_DecodeString [c] = None"
| "hex_DecodeString (c # d # cs) =
     (case (hex_value c, hex_value d, hex_DecodeString cs) of
        (Some h, Some l, Some bs) \<Rightarrow> Some (of_nat (16 * h + l) # bs)
      | _ \<Rightarrow> None)"

definition parseUUID :: "string \<Rightarrow> bytes res" where
  "parseUUID val =
     (let val = filter (\<lambda>c. c \<noteq> CHR ''-'') val in
      if length val \<noteq> 32 then Fail (ErrText ''invalid Mojang profile UUID'')
      else
        (case hex_DecodeString val of
           None \<Rightarrow> Fail (ErrText ''invalid Mojang profile UUID'')
         | Some decoded \<Rightarrow> Ok decoded))"

text \<open>
  \<open>strings.EqualFold\<close>: byte by byte without case while both strings are ASCII; from the first
  other byte on the Unicode tables decide, a parameter.
\<close>

definition ascii_lower :: "nat \<Rightarrow> nat" where
  "ascii_lower n = (if 65 \<le> n \<and> n \<le> 90 then n + 32 else n)"

fun EqualFold :: "(string \<Rightarrow> string \<Rightarrow> bool) \<Rightarrow> string \<Rightarrow> string \<Rightarrow> bool" where
  "EqualFold unicode_fold [] [] = True"
| "EqualFold unicode_fold (c # s) (d # t) =
     (if (of_char c :: nat) \<ge> 128 \<or> (of_char d :: nat) \<ge> 128 then unicode_fold (c # s) (d # t)
      else ascii_lower (of_char c) = ascii_lower (of_char d) \<and> EqualFold unicode_fold s t)"
| "EqualFold unicode_fold _ _ = False"

definition defaultSessionURL :: string where
  "defaultSessionURL = ''https://sessionserver.mojang.com/session/minecraft/hasJoined''"

definition maxSessionBody :: nat where
  "maxSessionBody = 2 ^ 20"

record session_document =
  doc_ID :: string
  doc_Name :: string
  doc_Properties :: "auth_Property list"

record http_response =
  StatusCode :: int
  http_Status :: string
  http_Body :: bytes

record SessionService =
  URL :: string

text \<open>
  \<open>http_get\<close> performs the request: the endpoint and the query parameters that are set on it.
  \<open>json_Decode\<close> reads one document from the front of its input and returns what is left;
  \<open>json_at_end\<close> says that nothing but space is left.
\<close>

definition HasJoined ::
    "(string \<Rightarrow> (string \<times> string) list \<Rightarrow> http_response res) \<Rightarrow> (bytes \<Rightarrow> (session_document \<times> bytes) res) \<Rightarrow>
     (bytes \<Rightarrow> bool) \<Rightarrow> (string \<Rightarrow> string \<Rightarrow> bool) \<Rightarrow> SessionService \<Rightarrow> Verifier" where
  "HasJoined http_get json_Decode json_at_end unicode_fold s username serverHash address =
     (let endpoint = (if URL s = '''' then defaultSessionURL else URL s);
          query = [(''username'', username), (''serverId'', serverHash)] @
                  (if address \<noteq> '''' then [(''ip'', address)] else []) in
      rbind (http_get endpoint query) (\<lambda>response.
      if StatusCode response = 204 \<or> StatusCode response = 403 then Fail ErrNotJoined
      else if StatusCode response \<noteq> 200
      then Fail (ErrText (''Mojang session server returned '' @ http_Status response))
      else
      rbind (json_Decode (take (maxSessionBody + 1) (http_Body response))) (\<lambda>(document, trailing).
      if \<not> json_at_end trailing then Fail (ErrText ''invalid Mojang session response'')
      else if length (http_Body response) \<ge> maxSessionBody + 1
      then Fail (ErrText ''Mojang session response exceeds limit'')
      else if doc_Name document = '''' \<or> \<not> EqualFold unicode_fold (doc_Name document) username
      then Fail ErrNotJoined
      else
      rbind (parseUUID (doc_ID document)) (\<lambda>uuid.
      Ok \<lparr>prof_UUID = uuid, prof_Username = doc_Name document, prof_Properties = doc_Properties document\<rparr>))))"

section \<open>The digest as a number\<close>

fun be_nat :: "bytes \<Rightarrow> nat" where
  "be_nat [] = 0"
| "be_nat (b # bs) = unat b * 256 ^ length bs + be_nat bs"

text \<open>The two's complement reading of a digest, and the hexadecimal form of an integer.\<close>

definition be_signed :: "bytes \<Rightarrow> int" where
  "be_signed bs =
     (if 2 * be_nat bs < 256 ^ length bs then int (be_nat bs) else int (be_nat bs) - 256 ^ length bs)"

fun hex_nat :: "nat \<Rightarrow> string" where
  "hex_nat n = (if n < 16 then [hex_digit n] else hex_nat (n div 16) @ [hex_digit (n mod 16)])"

declare hex_nat.simps [simp del]

definition hex_int :: "int \<Rightarrow> string" where
  "hex_int i = (if i < 0 then ''-'' @ hex_nat (nat (- i)) else hex_nat (nat i))"

lemma unat_byte: "unat (b :: byte) < 256"
  using unsigned_less [of b, where ?'a = nat] by simp

lemma be_nat_less: "be_nat bs < 256 ^ length bs"
proof (induction bs)
  case (Cons b bs)
  have "unat b * 256 ^ length bs + be_nat bs < 255 * 256 ^ length bs + 256 ^ length bs"
    using unat_byte [of b] Cons by (intro add_le_less_mono mult_right_mono) auto
  then show ?case by simp
qed simp

lemma unat_NOT: "unat (NOT v :: byte) = 255 - unat v"
proof -
  have "v \<le> 255" using unat_byte [of v] by (simp add: word_le_nat_alt)
  moreover have "NOT v = 255 - v" by (simp add: not_eq_complement)
  ultimately show ?thesis by (simp add: unat_sub)
qed

lemma unat_NOT_1: "unat (NOT v + 1 :: byte) = (if v = 0 then 0 else 256 - unat v)"
proof (cases "v = 0")
  case False
  then have "1 + NOT v \<noteq> 0" by (simp add: not_eq_complement)
  then have "unat (1 + NOT v) = Suc (255 - unat v)" using unatSuc unat_NOT by metis
  then show ?thesis using False unat_byte [of v] by (simp add: add.commute)
qed simp

lemma negate_loop_Cons:
  "negate_loop vs 1 = (rest, 1) \<Longrightarrow> negate_loop (v # vs) 1 = ((NOT v + 1) # rest, if v = 0 then 1 else 0)"
  "negate_loop vs 1 = (rest, 0) \<Longrightarrow> negate_loop (v # vs) 1 = (NOT v # rest, 0)"
proof -
  have "NOT v + 1 = 0 \<longleftrightarrow> v = 0" by (simp add: not_eq_complement)
  then show "negate_loop vs 1 = (rest, 1) \<Longrightarrow>
      negate_loop (v # vs) 1 = ((NOT v + 1) # rest, if v = 0 then 1 else 0)"
    by (simp only: negate_loop.simps prod.case Let_def) simp
  show "negate_loop vs 1 = (rest, 0) \<Longrightarrow> negate_loop (v # vs) 1 = (NOT v # rest, 0)"
    by (simp add: Let_def)
qed

lemma negated_digit:
  fixes p :: nat
  shows "v \<noteq> 0 \<Longrightarrow> unat (NOT v + 1 :: byte) * p + unat v * p = 256 * p"
    and "unat (NOT v :: byte) * p + unat v * p = 255 * p"
  using unat_byte [of v] by (simp_all only: unat_NOT_1 unat_NOT distrib_right [symmetric]) simp_all

lemma negate_loop_spec:
  "\<exists>rs. negate_loop bs 1 = (rs, if be_nat bs = 0 then 1 else 0) \<and> length rs = length bs \<and>
      be_nat rs + be_nat bs = (if be_nat bs = 0 then 0 else 256 ^ length bs)"
proof (induction bs)
  case (Cons v vs)
  obtain rest where r: "negate_loop vs 1 = (rest, if be_nat vs = 0 then 1 else 0)" "length rest = length vs"
    "be_nat rest + be_nat vs = (if be_nat vs = 0 then 0 else 256 ^ length vs)"
    using Cons.IH by blast
  consider (zero) "be_nat vs = 0" "v = 0" | (lead) "be_nat vs = 0" "v \<noteq> 0" | (rest) "be_nat vs \<noteq> 0" by blast
  then show ?case
  proof cases
    case zero
    then show ?thesis using r negate_loop_Cons(1) [of vs rest v] by simp
  next
    case lead
    then have "be_nat (v # vs) \<noteq> 0" by (simp add: unat_eq_0)
    moreover have "be_nat ((NOT v + 1) # rest) + be_nat (v # vs) = 256 ^ length (v # vs)"
      using negated_digit(1) [OF lead(2), of "256 ^ length vs"] r lead(1) by simp
    ultimately show ?thesis using r lead negate_loop_Cons(1) [of vs rest v] by auto
  next
    case rest
    then have "be_nat (NOT v # rest) + be_nat (v # vs) = 256 ^ length (v # vs)"
      using negated_digit(2) [of v "256 ^ length vs"] r by simp
    then show ?thesis using r rest negate_loop_Cons(2) [of vs rest v] by auto
  qed
qed simp

section \<open>Hexadecimal digits\<close>

fun value16 :: "nat list \<Rightarrow> nat" where
  "value16 [] = 0"
| "value16 (d # ds) = d * 16 ^ length ds + value16 ds"

lemma value16_snoc: "value16 (ds @ [d]) = value16 ds * 16 + d"
  by (induction ds) (simp_all add: algebra_simps)

definition nibbles :: "bytes \<Rightarrow> nat list" where
  "nibbles bs = concat (map (\<lambda>b. [unat b div 16, unat b mod 16]) bs)"

lemma nibbles_facts:
  "length (nibbles bs) = 2 * length bs" "\<forall>d \<in> set (nibbles bs). d < 16" "value16 (nibbles bs) = be_nat bs"
  "hex_EncodeToString bs = map hex_digit (nibbles bs)"
proof -
  show len: "length (nibbles bs) = 2 * length bs" for bs by (induction bs) (simp_all add: nibbles_def)
  show "\<forall>d \<in> set (nibbles bs). d < 16"
    using unat_byte by (induction bs) (auto simp: nibbles_def less_mult_imp_div_less)
  show "hex_EncodeToString bs = map hex_digit (nibbles bs)"
    by (induction bs) (simp_all add: nibbles_def hex_EncodeToString_def)
  show "value16 (nibbles bs) = be_nat bs"
  proof (induction bs)
    case (Cons b bs)
    have "(256 :: nat) ^ length bs = 16 ^ (2 * length bs)" by (simp add: power_mult)
    moreover have "unat b div 16 * 16 + unat b mod 16 = unat b" by simp
    ultimately have "unat b div 16 * (16 * 16 ^ (2 * length bs)) + unat b mod 16 * 16 ^ (2 * length bs) =
        unat b * 256 ^ length bs"
      by (metis distrib_right mult.assoc)
    then show ?case using Cons len [of bs] by (simp add: nibbles_def)
  qed (simp add: nibbles_def)
qed

lemma of_char_hex_digit: "d < 16 \<Longrightarrow> of_char (hex_digit d) = (if d < 10 then 48 + d else 87 + d)"
  by (simp add: hex_digit_def)

lemma hex_digit_0: "d < 16 \<Longrightarrow> hex_digit d = CHR ''0'' \<longleftrightarrow> d = 0"
  using of_char_hex_digit [of d] of_char_hex_digit [of 0] of_char_eq_iff [of "hex_digit d" "CHR ''0''", where ?'a = nat]
  by (auto split: if_splits)

lemma hex_digit_1: "hex_digit (Suc 0) = CHR ''1''"
  using of_char_hex_digit [of "Suc 0"] of_char_eq_iff [of "hex_digit (Suc 0)" "CHR ''1''", where ?'a = nat] by simp

lemma hex_nat_neq_Nil [simp]: "hex_nat n \<noteq> []"
  by (simp add: hex_nat.simps [of n])

lemma hex_nat_step: "d < 16 \<Longrightarrow> n \<noteq> 0 \<Longrightarrow> hex_nat (n * 16 + d) = hex_nat n @ [hex_digit d]"
  by (subst hex_nat.simps) simp

lemma trimmed_digits:
  "\<forall>d \<in> set ds. d < 16 \<Longrightarrow>
   dropWhile (\<lambda>c. c = CHR ''0'') (map hex_digit ds) = (if value16 ds = 0 then [] else hex_nat (value16 ds))"
proof (induction ds rule: rev_induct)
  case (snoc d ds)
  let ?zero = "\<lambda>c. c = CHR ''0''"
  have d: "d < 16" and IH: "dropWhile ?zero (map hex_digit ds) = (if value16 ds = 0 then [] else hex_nat (value16 ds))"
    using snoc by simp_all
  have all: "(\<forall>c \<in> set (map hex_digit ds). c = CHR ''0'') \<longleftrightarrow> value16 ds = 0"
    unfolding dropWhile_eq_Nil_conv [symmetric] IH by simp
  have single: "hex_nat d = [hex_digit d]" using d by (subst hex_nat.simps) simp
  show ?case
  proof (cases "value16 ds = 0")
    case True
    then have zeros: "\<forall>c \<in> set (map hex_digit ds). c = CHR ''0''" unfolding all .
    have "dropWhile ?zero (map hex_digit ds @ [hex_digit d]) = dropWhile ?zero [hex_digit d]"
      by (rule dropWhile_append2) (rule bspec [OF zeros])
    then show ?thesis using True single hex_digit_0 [OF d] by (simp add: value16_snoc)
  next
    case False
    then obtain c where "c \<in> set (map hex_digit ds)" "\<not> ?zero c" unfolding all [symmetric] by blast
    then have "dropWhile ?zero (map hex_digit ds @ [hex_digit d]) = dropWhile ?zero (map hex_digit ds) @ [hex_digit d]"
      by (rule dropWhile_append1)
    then show ?thesis using False IH hex_nat_step [OF d False] by (simp add: value16_snoc)
  qed
qed simp

lemma trimmed_hex:
  "(let encoded = dropWhile (\<lambda>c. c = CHR ''0'') (hex_EncodeToString bs)
    in if encoded = '''' then ''0'' else encoded) = hex_nat (be_nat bs)"
proof -
  have zero: "hex_nat 0 = ''0''" using hex_digit_0 [of 0] by (subst hex_nat.simps) simp
  have "dropWhile (\<lambda>c. c = CHR ''0'') (hex_EncodeToString bs) = (if be_nat bs = 0 then [] else hex_nat (be_nat bs))"
    using trimmed_digits [OF nibbles_facts(2) [of bs]] nibbles_facts(3,4) [of bs] by simp
  then show ?thesis by (simp add: Let_def zero)
qed

text \<open>The sign bit of the first byte is the sign of the two's complement number.\<close>

lemma byte_sign: "(b :: byte) AND 0x80 \<noteq> 0 \<longleftrightarrow> 128 \<le> unat b"
proof -
  have "bit b 7 \<longleftrightarrow> bit (unat b) 7" by (simp add: bit_unsigned_iff)
  also have "\<dots> \<longleftrightarrow> odd (unat b div 128)" by (simp add: bit_iff_odd)
  finally have "bit b 7 \<longleftrightarrow> odd (unat b div 128)" .
  moreover have "unat b div 128 = 1 \<longleftrightarrow> 128 \<le> unat b" "unat b div 128 = 0 \<or> unat b div 128 = 1"
    using unat_byte [of b] by linarith+
  ultimately show ?thesis using and_exp_eq_0_iff_not_bit [of b 7] by auto
qed

lemma digest_sign:
  "bs \<noteq> [] \<Longrightarrow> bs ! 0 AND 0x80 \<noteq> 0 \<longleftrightarrow> \<not> 2 * be_nat bs < 256 ^ length bs"
proof (cases bs)
  case (Cons b vs)
  define p :: nat where "p = 256 ^ length vs"
  have less: "be_nat vs < p" unfolding p_def by (rule be_nat_less)
  have "128 \<le> unat b \<longleftrightarrow> \<not> 2 * (unat b * p + be_nat vs) < 256 * p"
  proof
    assume "128 \<le> unat b"
    then have "128 * p \<le> unat b * p" by (rule mult_right_mono) simp
    then have "256 * p \<le> 2 * (unat b * p)" by simp
    then show "\<not> 2 * (unat b * p + be_nat vs) < 256 * p" by (simp only: distrib_left not_less trans_le_add1)
  next
    assume h: "\<not> 2 * (unat b * p + be_nat vs) < 256 * p"
    show "128 \<le> unat b"
    proof (rule ccontr)
      assume "\<not> 128 \<le> unat b"
      then have "unat b * p \<le> 127 * p" by simp
      then have "2 * (unat b * p + be_nat vs) < 2 * (127 * p + p)" using less by (intro mult_strict_left_mono add_le_less_mono) simp_all
      then show False using h by simp
    qed
  qed
  then show ?thesis using Cons by (simp add: byte_sign p_def)
qed simp

text \<open>
  C15: the server hash is the hexadecimal form, with a leading minus sign when it is negative
  and without leading zeros, of the SHA-1 digest of server id, shared secret and public key
  read as a two's complement big-endian number.
\<close>

theorem ServerHash_signed_hex:
  assumes "\<And>m. sha1 m \<noteq> []"
  shows "ServerHash sha1 serverID secret key = hex_int (be_signed (sha1 (bytes_of serverID @ secret @ key)))"
proof -
  define digest where "digest = sha1 (bytes_of serverID @ secret @ key)"
  have sign: "digest ! 0 AND 0x80 \<noteq> 0 \<longleftrightarrow> \<not> 2 * be_nat digest < 256 ^ length digest"
    using assms digest_sign [of digest] by (simp add: digest_def)
  show ?thesis
  proof (cases "2 * be_nat digest < 256 ^ length digest")
    case True
    then have "ServerHash sha1 serverID secret key = hex_nat (be_nat digest)"
      using sign trimmed_hex [of digest] by (simp add: ServerHash_def Let_def cong: if_cong split del: if_split flip: digest_def)
    then show ?thesis using True by (simp add: hex_int_def be_signed_def flip: digest_def)
  next
    case False
    then have "be_nat digest \<noteq> 0" by (rule contrapos_nn) simp
    then obtain rs where rs: "fst (negate_loop digest 1) = rs" "be_nat rs + be_nat digest = 256 ^ length digest"
      using negate_loop_spec [of digest] by auto
    then have "ServerHash sha1 serverID secret key = ''-'' @ hex_nat (be_nat rs)"
      using False sign trimmed_hex [of rs] by (simp add: ServerHash_def Let_def cong: if_cong split del: if_split flip: digest_def)
    moreover have "int (be_nat rs) + int (be_nat digest) = 256 ^ length digest"
      using rs(2) by (metis of_nat_add of_nat_power of_nat_numeral)
    then have "be_signed digest = - int (be_nat rs)" using False by (simp add: be_signed_def)
    moreover have "0 < be_nat rs" using rs(2) be_nat_less [of digest] by linarith
    ultimately show ?thesis by (simp add: hex_int_def flip: digest_def)
  qed
qed

theorem ServerHash_signed_hex_witness:
  "ServerHash (\<lambda>m. 255 # take 1 m) '''' [0xf0, 1] [] = ''-10'' \<and>
   ServerHash (\<lambda>m. 255 # take 1 m) '''' [0xf0, 1] [] = hex_int (- 16)"
proof -
  have "bytes_of '''' = []" by (simp add: bytes_of_def)
  then have "ServerHash (\<lambda>m. 255 # take 1 m) '''' [0xf0, 1] [] = hex_int (be_signed [255, 0xf0])"
    using ServerHash_signed_hex [of "\<lambda>m. 255 # take 1 m" "''''" "[0xf0, 1]" "[]"] by simp
  moreover have "be_signed [255, 0xf0] = - 16" by (simp add: be_signed_def)
  moreover have "hex_int (- 16) = ''-10''" by (simp add: hex_int_def hex_nat.simps hex_digit_1 hex_digit_0)
  ultimately show ?thesis by simp
qed

section \<open>Profile identifiers\<close>

lemma hex_value_digit: "d < 16 \<Longrightarrow> hex_value (hex_digit d) = Some d"
  by (simp add: hex_value_def of_char_hex_digit Let_def)

lemma hex_value_less: "hex_value c = Some d \<Longrightarrow> d < 16"
  by (auto simp: hex_value_def Let_def split: if_splits)

lemma hex_roundtrip: "hex_DecodeString (hex_EncodeToString bs) = Some bs"
proof (induction bs)
  case (Cons b bs)
  have "unat b div 16 < 16" using unat_byte [of b] by linarith
  moreover have "word_of_nat (16 * (unat b div 16) + unat b mod 16) = b" by simp
  ultimately show ?case using Cons
    by (simp add: hex_EncodeToString_def hex_value_digit del: mult_div_mod_eq)
qed (simp add: hex_EncodeToString_def)

lemma hex_DecodeString_length: "hex_DecodeString s = Some bs \<Longrightarrow> length s = 2 * length bs"
  by (induction s arbitrary: bs rule: hex_DecodeString.induct) (auto split: option.splits)

lemma parseUUID_Ok: "parseUUID s = Ok u \<Longrightarrow> length u = 16"
  using hex_DecodeString_length by (fastforce simp: parseUUID_def Let_def split: if_splits option.splits)

lemma parseUUID_no_panic [no_panic]: "parseUUID s \<noteq> Panic"
  by (simp add: parseUUID_def Let_def split: option.split)

lemma parseUUID_text:
  assumes "filter (\<lambda>c. c \<noteq> CHR ''-'') s = hex_EncodeToString u" "length u = 16"
  shows "parseUUID s = Ok u"
proof -
  have "length (hex_EncodeToString u) = 32" using assms(2) nibbles_facts(1,4) [of u] by simp
  then show ?thesis using assms(1) by (simp add: parseUUID_def hex_roundtrip)
qed

section \<open>What a successful authentication has checked\<close>

lemma Challenge_Decrypt_Ok:
  "Challenge_Decrypt rsa c es et = Ok secret \<longleftrightarrow>
     rsa (ch_privateKey c) es = Ok secret \<and> length secret = 16 \<and> rsa (ch_privateKey c) et = Ok (ch_verifyToken c)"
  by (auto simp: Challenge_Decrypt_def sharedSecretSize_def res_iff split: if_splits)

text \<open>
  Authentication returns a profile and a secret exactly when the client's secret decrypts to
  sixteen bytes, its token decrypts to the challenge's verify token, and the verifier accepts
  the user name for the hash of that secret and the challenge's key.
\<close>

theorem Authenticate_Ok_iff:
  "Authenticate rsa sha1 a c username address es et = Ok (profile, secret) \<longleftrightarrow>
     rsa (ch_privateKey c) es = Ok secret \<and> length secret = 16 \<and>
     rsa (ch_privateKey c) et = Ok (ch_verifyToken c) \<and>
     verifier a username (ServerHash sha1 '''' secret (ch_publicKey c)) address = Ok profile"
  by (auto simp: Authenticate_def Challenge_Decrypt_Ok res_iff)

text \<open>
  C16: the session service answers with a profile only for a response with status 200 whose body
  is one JSON document of at most a mebibyte that names the player asked for, up to case, and whose
  identifier is a UUID of sixteen bytes; it asks the configured server for that user name and hash.
\<close>

theorem HasJoined_Ok:
  assumes "HasJoined http_get json_Decode json_at_end unicode_fold s username serverHash address = Ok profile"
  shows "\<exists>endpoint query response document trailing.
           http_get endpoint query = Ok response \<and> endpoint \<noteq> '''' \<and>
           map_of query ''username'' = Some username \<and> map_of query ''serverId'' = Some serverHash \<and>
           StatusCode response = 200 \<and> length (http_Body response) \<le> maxSessionBody \<and>
           json_Decode (http_Body response) = Ok (document, trailing) \<and> json_at_end trailing \<and>
           prof_Username profile = doc_Name document \<and> doc_Name document \<noteq> '''' \<and>
           EqualFold unicode_fold (doc_Name document) username \<and>
           parseUUID (doc_ID document) = Ok (prof_UUID profile) \<and> length (prof_UUID profile) = 16 \<and>
           prof_Properties profile = doc_Properties document"
proof -
  let ?endpoint = "if URL s = '''' then defaultSessionURL else URL s"
  let ?query = "[(''username'', username), (''serverId'', serverHash)] @ (if address \<noteq> '''' then [(''ip'', address)] else [])"
  obtain response document trailing uuid where *:
    "http_get ?endpoint ?query = Ok response" "StatusCode response = 200"
    "json_Decode (take (maxSessionBody + 1) (http_Body response)) = Ok (document, trailing)"
    "json_at_end trailing" "\<not> length (http_Body response) \<ge> maxSessionBody + 1"
    "doc_Name document \<noteq> ''''" "EqualFold unicode_fold (doc_Name document) username"
    "parseUUID (doc_ID document) = Ok uuid"
    "profile = \<lparr>prof_UUID = uuid, prof_Username = doc_Name document, prof_Properties = doc_Properties document\<rparr>"
    using assms unfolding HasJoined_def Let_def
    by (auto simp: rbind_eq_Ok simp del: take_all_iff append.simps split: if_split_asm)
  moreover have "?endpoint \<noteq> ''''" by (simp add: defaultSessionURL_def)
  moreover have "map_of ?query ''username'' = Some username" "map_of ?query ''serverId'' = Some serverHash" by simp_all
  moreover have "take (maxSessionBody + 1) (http_Body response) = http_Body response" using *(5) by simp
  ultimately show ?thesis
    using parseUUID_Ok [of "doc_ID document" uuid]
    by (intro exI [of _ ?endpoint] exI [of _ ?query] exI [of _ response] exI [of _ document] exI [of _ trailing]) simp
qed

text \<open>A session server that knows one player, and its answer.\<close>

definition sample_document :: session_document where
  "sample_document =
     \<lparr>doc_ID = ''00000000-0000-0000-0000-000000000001'', doc_Name = ''Bob'', doc_Properties = []\<rparr>"

definition sample_profile :: Profile where
  "sample_profile = \<lparr>prof_UUID = replicate 15 0 @ [1], prof_Username = ''Bob'', prof_Properties = []\<rparr>"

lemma sample_uuid: "parseUUID ''00000000-0000-0000-0000-000000000001'' = Ok (replicate 15 0 @ [1])"
proof (rule parseUUID_text)
  have "hex_EncodeToString (replicate 15 0 @ [1]) = concat (replicate 15 ''00'') @ ''01''"
    by (simp add: hex_EncodeToString_def hex_digit_1 hex_digit_0 [THEN iffD2])
  then show "filter (\<lambda>c. c \<noteq> CHR ''-'') ''00000000-0000-0000-0000-000000000001'' = hex_EncodeToString (replicate 15 0 @ [1])"
    by (simp add: numeral_nat)
qed simp

lemma sample_joined:
  "HasJoined (\<lambda>e q. Ok \<lparr>StatusCode = 200, http_Status = '''', http_Body = [1]\<rparr>)
     (\<lambda>b. Ok (sample_document, [])) (\<lambda>t. t = []) (\<lambda>s t. False) \<lparr>URL = ''''\<rparr> ''bob'' ''h'' '''' = Ok sample_profile"
  by (simp add: HasJoined_def maxSessionBody_def sample_document_def sample_profile_def ascii_lower_def sample_uuid)

theorem HasJoined_Ok_witness:
  "\<exists>endpoint query response document trailing.
     (\<lambda>e q. Ok \<lparr>StatusCode = 200, http_Status = '''', http_Body = [1]\<rparr>) endpoint query = Ok response \<and> (endpoint :: string) \<noteq> '''' \<and>
     map_of query ''username'' = Some ''bob'' \<and> map_of query ''serverId'' = Some ''h'' \<and>
     StatusCode response = 200 \<and> length (http_Body response) \<le> maxSessionBody \<and>
     (\<lambda>b. Ok (sample_document, [])) (http_Body response) = Ok (document, trailing) \<and> trailing = ([] :: bytes) \<and>
     prof_Username sample_profile = doc_Name document \<and> doc_Name document \<noteq> '''' \<and>
     EqualFold (\<lambda>s t. False) (doc_Name document) ''bob'' \<and>
     parseUUID (doc_ID document) = Ok (prof_UUID sample_profile) \<and> length (prof_UUID sample_profile) = 16 \<and>
     prof_Properties sample_profile = doc_Properties document"
  by (rule HasJoined_Ok [OF sample_joined])

end
