(* ===== verification/Link.thy ===== *)
theory Link
  imports Transport Machines
begin

text \<open>
  Conversations over a transport: what the packages that speak the protocol (backend,
  transfer, bridge, server) use of \<open>internal/transport\<close>. The surroundings of a transport (zlib,
  the operating system's connection, how far the buffered reader reads ahead, when another
  goroutine closes the transport) are one record \<open>net\<close>. Deadlines are part of the
  connection: an expired deadline ends the input with an error, so every input is finite.

  The locale \<open>frame_link\<close> is the interface the protocol loops rely on: a received frame uses
  up input, sending does not give any back. A \<open>talk\<close> is a conversation both sides of which
  succeed; the handshake loops are specified by the conversations they accept.
\<close>

section \<open>A transport and its surroundings\<close>

record 'c net =
  net_inflate :: "bytes \<Rightarrow> reader res"
  net_deflate :: "bytes \<Rightarrow> bytes res"
  net_write :: "'c \<Rightarrow> bytes \<Rightarrow> (nat \<times> err option) \<times> 'c"
  net_close :: "'c \<Rightarrow> err option \<times> 'c"
  net_ahead :: "'c Transport \<Rightarrow> nat"
  net_closing :: "'c Transport \<Rightarrow> write_race"

definition net_ReadFrame :: "'c net \<Rightarrow> 'c Transport \<Rightarrow> bytes res \<times> 'c Transport" where
  "net_ReadFrame e t = Transport_ReadFrame (net_inflate e) (net_ahead e t) t"

definition net_WriteFrame :: "'c net \<Rightarrow> 'c Transport \<Rightarrow> bytes \<Rightarrow> unit res \<times> 'c Transport" where
  "net_WriteFrame e t payload = Transport_WriteFrame (net_deflate e) (net_write e) (net_closing e t) t payload"

definition net_Close :: "'c net \<Rightarrow> 'c Transport \<Rightarrow> 'c Transport" where
  "net_Close e t = snd (Transport_Close (net_close e) t)"

text \<open>The bytes of plain text the transport will still deliver.\<close>

definition remaining :: "'c Transport \<Rightarrow> nat" where
  "remaining t = length (pending (view t))"

section \<open>The interface of the protocol loops\<close>

locale frame_link =
  fixes recv :: "'t \<Rightarrow> bytes res \<times> 't"
    and send :: "'t \<Rightarrow> bytes \<Rightarrow> unit res \<times> 't"
    and left :: "'t \<Rightarrow> nat"
  assumes recv_less: "recv t = (Ok payload, t') \<Longrightarrow> left t' < left t"
    and send_left: "send t payload = (r, t') \<Longrightarrow> left t' = left t"

lemma ReadFrame_less:
  "ReadFrame f r = (Ok payload, r') \<Longrightarrow> length (pending r') < length (pending r)"
  using ReadFrame_Ok [of f r payload r'] by auto

lemma compressed_ReadFrame_less:
  assumes "compressed_ReadFrame inflate c r = (Ok payload, r')"
  shows "length (pending r') < length (pending r)"
proof -
  obtain wire where "ReadFrame (wireFramer c) r = (Ok wire, r')"
    using assms by (auto simp: compressed_ReadFrame_def split: prod.splits res.splits)
  then show ?thesis by (rule ReadFrame_less)
qed

lemma net_ReadFrame_less:
  assumes "net_ReadFrame e t = (Ok payload, t')"
  shows "remaining t' < remaining t"
proof -
  define r where "r = (case t_compression t of
      Some c \<Rightarrow> compressed_ReadFrame (net_inflate e) c (view t)
    | None \<Rightarrow> ReadFrame (t_framer t) (view t))"
  have ok: "r = (Ok payload, snd r)"
    and t': "t' = bufio_discard (net_ahead e t) (length (pending (view t)) - length (pending (snd r))) t"
    using assms by (auto simp: net_ReadFrame_def Transport_ReadFrame_def r_def split: prod.splits)
  have "length (pending (snd r)) < length (pending (view t))"
    using ok by (auto simp: r_def intro: ReadFrame_less compressed_ReadFrame_less split: option.splits)
  then show ?thesis unfolding t' remaining_def by (simp add: view_discard)
qed

text \<open>Writing moves the register the transport encrypts from, never the one it decrypts from.\<close>

lemma cipherWriter_Write_decrypt:
  "cipherWriter_Write conn_write w data = (r, w') \<Longrightarrow>
     (case wr_state w of None \<Rightarrow> wr_state w' = None
      | Some s \<Rightarrow> \<exists>s'. wr_state w' = Some s' \<and> decryptIV s' = decryptIV s \<and> cs_block s' = cs_block s)"
  by (auto simp: cipherWriter_Write_def Encrypt_def res_iff split: option.splits res.splits prod.splits)

definition same_decrypt :: "CipherState option \<Rightarrow> CipherState option \<Rightarrow> bool" where
  "same_decrypt e e' =
     (case (e, e') of
        (None, None) \<Rightarrow> True
      | (Some s, Some s') \<Rightarrow> decryptIV s' = decryptIV s \<and> cs_block s' = cs_block s
      | _ \<Rightarrow> False)"

lemma same_decrypt_refl [simp]: "same_decrypt e e"
  by (cases e) (simp_all add: same_decrypt_def)

lemma same_decrypt_trans: "same_decrypt e f \<Longrightarrow> same_decrypt f g \<Longrightarrow> same_decrypt e g"
  by (auto simp: same_decrypt_def split: option.splits)

lemma cipherWriter_Write_same:
  "same_decrypt (wr_state w) (wr_state (snd (cipherWriter_Write conn_write w data)))"
  using cipherWriter_Write_decrypt [of conn_write w data]
  by (cases "cipherWriter_Write conn_write w data") (auto simp: same_decrypt_def split: option.splits)

lemma writeAll_same:
  "same_decrypt (wr_state w) (wr_state (snd (writeAll (cipherWriter_Write conn_write) w data)))"
proof (induction "cipherWriter_Write conn_write" w data rule: writeAll.induct)
  case (1 w data)
  have "same_decrypt (wr_state w) (wr_state (snd (cipherWriter_Write conn_write w data)))"
    by (rule cipherWriter_Write_same)
  with 1 show ?case
    unfolding writeAll.simps [of _ w data]
    by (auto split: prod.splits option.splits intro: same_decrypt_trans)
qed

lemma WriteFrame_same:
  "same_decrypt (wr_state w) (wr_state (snd (WriteFrame f (cipherWriter_Write conn_write) w payload)))"
proof -
  let ?put = "cipherWriter_Write conn_write"
  obtain r w1 where w1: "writeAll ?put w (AppendVarInt [] (of_nat (length payload))) = (r, w1)" by fastforce
  then have "same_decrypt (wr_state w) (wr_state w1)"
    using writeAll_same [of w conn_write "AppendVarInt [] (of_nat (length payload))"] by simp
  moreover have "same_decrypt (wr_state w1) (wr_state (snd (writeAll ?put w1 payload)))" by (rule writeAll_same)
  ultimately show ?thesis using w1 same_decrypt_trans by (cases r) (auto simp: WriteFrame_def)
qed

lemma compressed_WriteFrame_same:
  "same_decrypt (wr_state w) (wr_state (snd (compressed_WriteFrame deflate c (cipherWriter_Write conn_write) w payload)))"
  using WriteFrame_same [of w _ conn_write]
  by (auto simp: compressed_WriteFrame_def split: res.splits)

lemma view_same:
  assumes "same_decrypt (t_encryption t) (t_encryption t')" "conn_in t' = conn_in t" "buffered t' = buffered t"
    "in_err t' = in_err t"
  shows "view t' = view t"
  using assms by (auto simp: view_def decrypted_def same_decrypt_def split: option.splits)

lemma writerLoop_view: "view (snd (writerLoop_step deflate conn_write t payload)) = view t"
proof -
  let ?w = "\<lparr>wr_conn = t_conn t, wr_state = t_encryption t\<rparr>"
  have "same_decrypt (t_encryption t) (t_encryption (snd (writerLoop_step deflate conn_write t payload)))"
    using WriteFrame_same [of ?w "t_framer t" conn_write payload]
      compressed_WriteFrame_same [of ?w deflate _ conn_write payload]
    by (cases "t_compression t") (simp_all add: writerLoop_step_def Let_def split_beta)
  then show ?thesis by (rule view_same) (simp_all add: writerLoop_step_def Let_def split_beta)
qed

lemma view_done [simp]: "view (t\<lparr>t_done := b\<rparr>) = view t"
  by (rule view_same) simp_all

lemma net_WriteFrame_view:
  assumes "net_WriteFrame e t payload = (r, t')"
  shows "view t' = view t"
proof -
  obtain r1 t1 where w: "writerLoop_step (net_deflate e) (net_write e) t payload = (r1, t1)" by fastforce
  then have "view t1 = view t" using writerLoop_view [of "net_deflate e" "net_write e" t payload] by simp
  then show ?thesis using assms w by (auto simp: net_WriteFrame_def Transport_WriteFrame_def split: if_splits)
qed

interpretation nl: frame_link "net_ReadFrame e" "net_WriteFrame e" remaining for e
proof
  show "net_ReadFrame e t = (Ok payload, t') \<Longrightarrow> remaining t' < remaining t" for t payload t'
    by (rule net_ReadFrame_less)
  show "net_WriteFrame e t payload = (r, t') \<Longrightarrow> remaining t' = remaining t" for t payload r t'
    by (simp add: remaining_def net_WriteFrame_view)
qed

section \<open>Loops that handle frames\<close>

text \<open>
  \<open>for { frame, err := t.ReadFrame(); ...; switch ... }\<close>: a handler either returns from the
  function or goes round again with its local variables \<open>s\<close> and the transport.
\<close>

partial_function (option) frame_loop ::
    "('t \<Rightarrow> bytes res \<times> 't) \<Rightarrow> (err \<Rightarrow> 't \<Rightarrow> 'a res) \<Rightarrow> (bytes \<Rightarrow> 's \<Rightarrow> 't \<Rightarrow> ('a res + 's) \<times> 't) \<Rightarrow>
     's \<Rightarrow> 't \<Rightarrow> ('a res \<times> 't) option" where
  "frame_loop recv on_error handle s t =
     (case recv t of
        (Fail e, t) \<Rightarrow> Some (on_error e t, t)
      | (Panic, t) \<Rightarrow> Some (Panic, t)
      | (Ok payload, t) \<Rightarrow>
          (case handle payload s t of
             (Inl r, t) \<Rightarrow> Some (r, t)
           | (Inr s, t) \<Rightarrow> frame_loop recv on_error handle s t))"

declare frame_loop.simps [code]

text \<open>The frames a loop has handled without returning.\<close>

definition served_step ::
    "('t \<Rightarrow> bytes res \<times> 't) \<Rightarrow> (bytes \<Rightarrow> 's \<Rightarrow> 't \<Rightarrow> ('a res + 's) \<times> 't) \<Rightarrow> 's \<times> 't \<Rightarrow> bytes \<Rightarrow> 's \<times> 't \<Rightarrow> bool" where
  "served_step recv handle = (\<lambda>(s, t) payload (s', t'). \<exists>u. recv t = (Ok payload, u) \<and> handle payload s u = (Inr s', t'))"

context frame_link
begin

text \<open>Every loop whose handler gives no input back returns.\<close>

lemma frame_loop_returns:
  assumes "\<And>payload s t r t'. handle payload s t = (r, t') \<Longrightarrow> left t' \<le> left t"
  shows "\<exists>r t'. frame_loop recv on_error handle s t = Some (r, t')"
proof (induction "left t" arbitrary: s t rule: less_induct)
  case less
  obtain x t1 where x: "recv t = (x, t1)" by fastforce
  show ?case
  proof (cases x)
    case (Ok payload)
    obtain y t2 where y: "handle payload s t1 = (y, t2)" by fastforce
    then have "left t2 < left t" using assms [OF y] recv_less x Ok by fastforce
    then show ?thesis
      using less [of t2] x y Ok unfolding frame_loop.simps [of _ _ _ s t] by (cases y) auto
  qed (use x in \<open>simp_all add: frame_loop.simps\<close>)
qed

text \<open>A loop returns what the handler makes of a frame, or what it makes of a failed read.\<close>

lemma frame_loop_served:
  assumes "\<And>payload s t r t'. handle payload s t = (r, t') \<Longrightarrow> left t' \<le> left t"
    and "frame_loop recv on_error handle s t = Some (r, t')"
  shows "\<exists>fs s1 t1. runs (served_step recv handle) (s, t) fs (s1, t1) \<and>
    ((\<exists>payload t2. recv t1 = (Ok payload, t2) \<and> handle payload s1 t2 = (Inl r, t')) \<or>
     (\<exists>e. recv t1 = (Fail e, t') \<and> r = on_error e t') \<or> (recv t1 = (Panic, t') \<and> r = Panic))"
  using assms(2)
proof (induction "left t" arbitrary: s t rule: less_induct)
  case less
  obtain x t1 where x: "recv t = (x, t1)" by fastforce
  show ?case
  proof (cases x)
    case (Ok payload)
    obtain y t2 where y: "handle payload s t1 = (y, t2)" by fastforce
    show ?thesis
    proof (cases y)
      case (Inl r1)
      then have "r1 = r" "t2 = t'" using less.prems x y Ok by (simp_all add: frame_loop.simps [of _ _ _ s t])
      then show ?thesis using x y Ok Inl runs_Nil [of "served_step recv handle" "(s, t)"] by blast
    next
      case (Inr s1)
      then have "left t2 < left t" "frame_loop recv on_error handle s1 t2 = Some (r, t')"
        "served_step recv handle (s, t) payload (s1, t2)"
        using assms(1) [OF y] recv_less x y Ok less.prems
        by (fastforce simp: frame_loop.simps [of _ _ _ s t] served_step_def)+
      then show ?thesis using less.hyps [of t2 s1] runs_Cons [of "served_step recv handle" "(s, t)"] by metis
    qed
  next
    case (Fail e)
    then have "recv t = (Fail e, t')" "r = on_error e t'" using less.prems x by (auto simp: frame_loop.simps [of _ _ _ s t])
    then show ?thesis using runs_Nil [of "served_step recv handle" "(s, t)"] by blast
  next
    case Panic
    then have "recv t = (Panic, t')" "r = Panic" using less.prems x by (simp_all add: frame_loop.simps [of _ _ _ s t])
    then show ?thesis using runs_Nil [of "served_step recv handle" "(s, t)"] by blast
  qed
qed

end

lemma frame_loop_intro:
  "runs (served_step recv handle) st fs st1 \<Longrightarrow>
   frame_loop recv on_error handle (fst st) (snd st) = frame_loop recv on_error handle (fst st1) (snd st1)"
proof (induction rule: runs.induct)
  case (runs_snoc st fs st1 payload st2)
  then have "frame_loop recv on_error handle (fst st1) (snd st1) = frame_loop recv on_error handle (fst st2) (snd st2)"
    by (subst frame_loop.simps) (auto simp: served_step_def split_beta)
  with runs_snoc show ?case by simp
qed simp

section \<open>Conversations\<close>

datatype exchange = Recv bytes | Sent bytes | Compress int

fun exchange_step :: "'c net \<Rightarrow> 'c Transport \<Rightarrow> exchange \<Rightarrow> 'c Transport \<Rightarrow> bool" where
  "exchange_step e t (Recv payload) t' \<longleftrightarrow> net_ReadFrame e t = (Ok payload, t')"
| "exchange_step e t (Sent payload) t' \<longleftrightarrow> net_WriteFrame e t payload = (Ok (), t')"
| "exchange_step e t (Compress n) t' \<longleftrightarrow> EnableCompression n t = (Ok (), t')"

text \<open>The exchanges both sides of which succeed, from one state of the transport to another.\<close>

abbreviation talk :: "'c net \<Rightarrow> 'c Transport \<Rightarrow> exchange list \<Rightarrow> 'c Transport \<Rightarrow> bool" where
  "talk e \<equiv> runs (exchange_step e)"

lemma talk_append: "talk e t (es @ fs) u \<longleftrightarrow> (\<exists>t1. talk e t es t1 \<and> talk e t1 fs u)"
  by (induction es arbitrary: t) (auto simp: runs_Cons_iff)

lemma EnableCompression_view: "EnableCompression n t = (r, t') \<Longrightarrow> view t' = view t"
  by (rule view_same) (auto simp: EnableCompression_def split: res.splits)

text \<open>
  A loop whose handler answers each frame it goes on after with a fixed exchange, and ends on
  frames it accepts with another: its successful runs are exactly the conversations composed
  of these.
\<close>

lemma served_conversation:
  assumes "\<And>payload s t s' t'. handle payload s t = (Inr s', t') \<longleftrightarrow>
      (\<exists>answer. go_on s (payload, answer) s' \<and> talk e t answer t')"
  shows "(\<exists>fs. runs (served_step (net_ReadFrame e) handle) (s, t) fs (s', t')) \<longleftrightarrow>
    (\<exists>es. runs go_on s es s' \<and> talk e t (concat (map (\<lambda>(payload, answer). Recv payload # answer) es)) t')"
    (is "?L s t \<longleftrightarrow> ?R s t")
proof
  have step: "served_step (net_ReadFrame e) handle (s, t) f (s1, t1) \<longleftrightarrow>
      (\<exists>a. go_on s (f, a) s1 \<and> talk e t (Recv f # a) t1)" for s t f s1 t1
    by (auto simp: served_step_def assms runs_Cons_iff)
  assume "?L s t"
  then obtain fs where "runs (served_step (net_ReadFrame e) handle) (s, t) fs (s', t')" ..
  then show "?R s t"
  proof (induction fs arbitrary: s t)
    case (Cons f fs)
    then obtain s1 t1 where 1: "served_step (net_ReadFrame e) handle (s, t) f (s1, t1)"
      and 2: "runs (served_step (net_ReadFrame e) handle) (s1, t1) fs (s', t')"
      by (auto simp: runs_Cons_iff)
    obtain es where "runs go_on s1 es s'" "talk e t1 (concat (map (\<lambda>(payload, answer). Recv payload # answer) es)) t'"
      using Cons.IH [OF 2] by blast
    moreover obtain a where "go_on s (f, a) s1" "talk e t (Recv f # a) t1" using 1 unfolding step by blast
    ultimately show ?case
      by (intro exI [of _ "(f, a) # es"] conjI runs_Cons) (auto simp: talk_append [of _ _ "Recv f # a", simplified])
  qed (auto intro: exI [of _ "[]"])
next
  assume "?R s t"
  then obtain es where "runs go_on s es s'" "talk e t (concat (map (\<lambda>(payload, answer). Recv payload # answer) es)) t'"
    by blast
  then have "runs (served_step (net_ReadFrame e) handle) (s, t) (map fst es) (s', t')"
  proof (induction es arbitrary: s t)
    case (Cons x es)
    obtain f a where x: "x = (f, a)" by fastforce
    obtain s1 t1 where "go_on s (f, a) s1" "runs go_on s1 es s'" "talk e t (Recv f # a) t1"
      "talk e t1 (concat (map (\<lambda>(payload, answer). Recv payload # answer) es)) t'"
      using Cons.prems talk_append [of e t "Recv f # a"] by (auto simp: x runs_Cons_iff)
    with Cons.IH [of s1 t1] show ?case
      by (auto simp: x runs_Cons_iff served_step_def assms)
  qed simp
  then show "?L s t" ..
qed

lemma frame_loop_conversation:
  assumes "\<And>payload s t s' t'. handle payload s t = (Inr s', t') \<longleftrightarrow>
      (\<exists>answer. go_on s (payload, answer) s' \<and> talk e t answer t')"
    and "\<And>payload s t x t'. handle payload s t = (Inl (Ok x), t') \<longleftrightarrow>
      (\<exists>answer. stop s (payload, answer) x \<and> talk e t answer t')"
    and "\<And>payload s t r t'. handle payload s t = (r, t') \<Longrightarrow> remaining t' \<le> remaining t"
    and "\<And>err t x. on_error err t \<noteq> Ok x"
  shows "frame_loop (net_ReadFrame e) on_error handle s t = Some (Ok x, t') \<longleftrightarrow>
    (\<exists>es s1 payload answer. runs go_on s es s1 \<and> stop s1 (payload, answer) x \<and>
       talk e t (concat (map (\<lambda>(payload, answer). Recv payload # answer) es) @ Recv payload # answer) t')"
    (is "?L \<longleftrightarrow> ?R")
proof
  assume L: ?L
  from nl.frame_loop_served [OF _ L] assms(3) obtain fs s1 t1 where
    served: "runs (served_step (net_ReadFrame e) handle) (s, t) fs (s1, t1)"
    and last: "(\<exists>payload t2. net_ReadFrame e t1 = (Ok payload, t2) \<and> handle payload s1 t2 = (Inl (Ok x), t')) \<or>
      (\<exists>err. net_ReadFrame e t1 = (Fail err, t') \<and> Ok x = on_error err t') \<or>
      (net_ReadFrame e t1 = (Panic, t') \<and> Ok x = Panic)"
    by blast
  from last obtain payload t2 where "net_ReadFrame e t1 = (Ok payload, t2)" "handle payload s1 t2 = (Inl (Ok x), t')"
    using assms(4) by (elim disjE exE conjE) (simp_all, metis)
  moreover obtain es where "runs go_on s es s1"
    "talk e t (concat (map (\<lambda>(payload, answer). Recv payload # answer) es)) t1"
    using served served_conversation [of handle go_on e s t s1 t1, OF assms(1)] by blast
  ultimately obtain answer where "runs go_on s es s1" "stop s1 (payload, answer) x"
    "talk e t (concat (map (\<lambda>(payload, answer). Recv payload # answer) es)) t1" "talk e t1 (Recv payload # answer) t'"
    by (auto simp: assms(2) runs_Cons_iff)
  then show ?R unfolding talk_append by blast
next
  assume ?R
  then obtain es s1 payload answer t1 t2 where "runs go_on s es s1" "stop s1 (payload, answer) x"
    "talk e t (concat (map (\<lambda>(payload, answer). Recv payload # answer) es)) t1"
    "net_ReadFrame e t1 = (Ok payload, t2)" "talk e t2 answer t'"
    by (auto simp: talk_append runs_Cons_iff)
  moreover from this obtain fs where "runs (served_step (net_ReadFrame e) handle) (s, t) fs (s1, t1)"
    using served_conversation [of handle go_on e s t s1 t1, OF assms(1)] by blast
  ultimately show ?L
    using frame_loop_intro [of "net_ReadFrame e" handle "(s, t)" fs "(s1, t1)" on_error] assms(2) [of payload s1 t2 x t']
    by (auto simp: frame_loop.simps [of _ _ _ s1 t1])
qed

lemma runs_each: "runs (\<lambda>_ x _. P x) () xs () \<longleftrightarrow> (\<forall>x \<in> set xs. P x)"
  by (induction xs) (auto simp: runs_Cons_iff)

section \<open>No panic\<close>

text \<open>
  Surroundings that keep their contracts: zlib reports errors as values, and a connection
  never claims to have taken more bytes than it was given.
\<close>

definition net_safe :: "'c net \<Rightarrow> bool" where
  "net_safe e \<longleftrightarrow> (\<forall>z. net_inflate e z \<noteq> Panic) \<and> (\<forall>p. net_deflate e p \<noteq> Panic) \<and>
     (\<forall>c data. fst (fst (net_write e c data)) \<le> length data)"

lemma write_loop_count:
  assumes "\<And>c data. fst (fst (conn_write c data)) \<le> length data"
  shows "written \<le> length encrypted \<Longrightarrow> fst (fst (write_loop conn_write c encrypted written)) \<le> length encrypted"
proof (induction "length encrypted - written" arbitrary: c written rule: less_induct)
  case less
  obtain n err c1 where w: "conn_write c (drop written encrypted) = ((n, err), c1)" by (metis surj_pair)
  have n: "n \<le> length encrypted - written" using assms [of c "drop written encrypted"] w by simp
  then show ?case
    using less w by (cases err) (auto simp: write_loop.simps [of conn_write c encrypted written])
qed

lemma cipherWriter_count:
  assumes "\<And>c data. fst (fst (conn_write c data)) \<le> length data"
  shows "fst (fst (cipherWriter_Write conn_write w data)) \<le> length data"
proof (cases "wr_state w")
  case None
  then show ?thesis using assms by (simp add: cipherWriter_Write_def split_beta)
next
  case (Some s)
  obtain encrypted iv where enc: "cfb8_loop (cs_block s) (encryptIV s) data True = (encrypted, iv)" by fastforce
  have "length encrypted = length data" using cfb8_loop_length [of "cs_block s" "encryptIV s" data True] enc by simp
  then show ?thesis
    using Some Encrypt_Ok [OF _ enc, of "replicate (length data) 0"] write_loop_count [of conn_write 0 encrypted "wr_conn w", OF assms]
    by (simp add: cipherWriter_Write_def split_beta)
qed

lemma writeAll_no_panic:
  assumes "\<And>w data. fst (fst (put w data)) \<le> length data"
  shows "fst (writeAll put w data) \<noteq> Panic"
  using assms
proof (induction put w data rule: writeAll.induct)
  case (1 put w data)
  obtain n err w1 where w: "put w data = ((n, err), w1)" by (metis surj_pair)
  then have "n \<le> length data" using 1(2) [of w data] by simp
  then show ?case using 1 w by (cases err) (auto simp: writeAll.simps [of put w data])
qed

lemma WriteFrame_no_panic_any:
  assumes "\<And>w data. fst (fst (put w data)) \<le> length data"
  shows "fst (WriteFrame f put w payload) \<noteq> Panic"
proof -
  have "fst (writeAll put w data) \<noteq> Panic" for w data using assms by (rule writeAll_no_panic)
  then show ?thesis by (auto simp: WriteFrame_def split: prod.splits res.splits) (metis fst_conv)+
qed

lemma net_WriteFrame_no_panic:
  assumes "net_safe e"
  shows "fst (net_WriteFrame e t payload) \<noteq> Panic"
proof -
  have put: "fst (fst (cipherWriter_Write (net_write e) w data)) \<le> length data" for w data
    using assms by (intro cipherWriter_count) (simp add: net_safe_def)
  have plain: "fst (WriteFrame f (cipherWriter_Write (net_write e)) w p) \<noteq> Panic" for f w p
    using put by (rule WriteFrame_no_panic_any)
  have zipped: "fst (compressed_WriteFrame (net_deflate e) c (cipherWriter_Write (net_write e)) w p) \<noteq> Panic" for c w p
    using plain assms by (simp add: compressed_WriteFrame_def net_safe_def split: res.split)
  have "fst (writerLoop_step (net_deflate e) (net_write e) t payload) \<noteq> Panic"
    using plain zipped by (cases "t_compression t") (simp_all add: writerLoop_step_def Let_def split_beta)
  then show ?thesis by (simp add: net_WriteFrame_def Transport_WriteFrame_def split_beta)
qed

lemma ReadFrame_no_panic: "fst (ReadFrame f r) \<noteq> Panic"
  by (auto simp: ReadFrame_def ReadVarInt_eq ReadFull_no_panic split: prod.splits res.splits)

lemma compressed_ReadFrame_no_panic:
  assumes "\<And>z. inflate z \<noteq> Panic"
  shows "fst (compressed_ReadFrame inflate c r) \<noteq> Panic"
proof -
  obtain x r1 where x: "ReadFrame (wireFramer c) r = (x, r1)" by fastforce
  then have "x \<noteq> Panic" using ReadFrame_no_panic [of "wireFramer c" r] by auto
  moreover have "ReadFull zr n \<noteq> (Panic, zr')" for zr n zr' using ReadFull_no_panic [of zr n] by (metis fst_conv)
  ultimately show ?thesis
    using x assms
    by (cases x) (auto simp: compressed_ReadFrame_def res_iff slice_from_def Let_def split: if_splits res.splits prod.splits
        dest: ConsumeVarInt_bound)
qed

lemma net_ReadFrame_no_panic:
  assumes "net_safe e"
  shows "fst (net_ReadFrame e t) \<noteq> Panic"
  using assms ReadFrame_no_panic compressed_ReadFrame_no_panic
  by (cases "t_compression t") (simp_all add: net_ReadFrame_def Transport_ReadFrame_def split_beta net_safe_def)

text \<open>A loop does not panic when neither its reader nor its handler does.\<close>

lemma frame_loop_no_panic:
  assumes "frame_loop (net_ReadFrame e) on_error handle s t = Some (r, t')" "net_safe e"
    "\<And>err t. on_error err t \<noteq> Panic" "\<And>payload s t. fst (handle payload s t) \<noteq> Inl Panic"
    "\<And>payload s t r t'. handle payload s t = (r, t') \<Longrightarrow> remaining t' \<le> remaining t"
  shows "r \<noteq> Panic"
proof
  assume panic: "r = Panic"
  from nl.frame_loop_served [OF _ assms(1)] assms(5) obtain s1 t1 where
    last: "(\<exists>payload t2. net_ReadFrame e t1 = (Ok payload, t2) \<and> handle payload s1 t2 = (Inl r, t')) \<or>
      (\<exists>err. net_ReadFrame e t1 = (Fail err, t') \<and> r = on_error err t') \<or>
      (net_ReadFrame e t1 = (Panic, t') \<and> r = Panic)"
    by blast
  show False
    using last panic assms(3,4) net_ReadFrame_no_panic [OF assms(2), of t1] by (metis fst_conv)
qed

end
