(* ===== verification/Interrupt.thy ===== *)
theory Interrupt
  imports Machines
begin

text \<open>
  \<open>interruptOnDone\<close> of \<open>internal/backend/context.go\<close>: the interrupt that ends a blocked read when
  the context is done, and the function that disarms it. The goroutine of \<open>context.AfterFunc\<close>
  and the caller of the returned function interleave; the steps are those of the source.

  The exchanges with the backend disarm the interrupt before they clear the deadlines of a
  connection that is then handed on. The theorem shows that this is enough: once the
  disarming function has returned the interrupt does not strike, and it always returns.
\<close>

section \<open>Definitions\<close>

text \<open>
  The function given to \<open>context.AfterFunc\<close>: not started, started, past \<open>interrupt()\<close>, past
  \<open>close(done)\<close>; or prevented from starting by \<open>stop()\<close>.
\<close>

datatype after_func = Waiting | Started | Struck | Closed | Stopped

text \<open>The returned function: not called, waiting for \<open>done\<close>, returned; \<open>sync.Once\<close> runs its body once.\<close>

datatype disarm = Idle | Receiving | Disarmed

record interrupter =
  af :: after_func
  dis :: disarm

definition interruptOnDone :: interrupter where
  "interruptOnDone = \<lparr>af = Waiting, dis = Idle\<rparr>"

datatype interrupt_event = ContextDone | CallInterrupt | CloseDone | CallDisarm | ReceiveDone

text \<open>\<open>stop()\<close> reports whether it kept the function from being started.\<close>

fun interrupt_step :: "interrupter \<Rightarrow> interrupt_event \<Rightarrow> interrupter \<Rightarrow> bool" where
  "interrupt_step s ContextDone t \<longleftrightarrow> af s = Waiting \<and> t = s\<lparr>af := Started\<rparr>"
| "interrupt_step s CallInterrupt t \<longleftrightarrow> af s = Started \<and> t = s\<lparr>af := Struck\<rparr>"
| "interrupt_step s CloseDone t \<longleftrightarrow> af s = Struck \<and> t = s\<lparr>af := Closed\<rparr>"
| "interrupt_step s CallDisarm t \<longleftrightarrow>
     (case dis s of
        Idle \<Rightarrow> if af s = Waiting then t = s\<lparr>af := Stopped, dis := Disarmed\<rparr> else t = s\<lparr>dis := Receiving\<rparr>
      | Receiving \<Rightarrow> False
      | Disarmed \<Rightarrow> t = s)"
| "interrupt_step s ReceiveDone t \<longleftrightarrow> dis s = Receiving \<and> af s = Closed \<and> t = s\<lparr>dis := Disarmed\<rparr>"

section \<open>The invariant\<close>

definition interrupt_inv :: "interrupter \<Rightarrow> bool" where
  "interrupt_inv s \<longleftrightarrow> (dis s = Disarmed \<longrightarrow> af s \<in> {Closed, Stopped}) \<and> (dis s = Receiving \<longrightarrow> af s \<in> {Started, Struck, Closed}) \<and>
     (dis s = Idle \<longrightarrow> af s \<noteq> Stopped)"

lemma interrupt_inv_step: "interrupt_inv s \<Longrightarrow> interrupt_step s e t \<Longrightarrow> interrupt_inv t"
  by (cases e; cases "af s") (auto simp: interrupt_inv_def split: disarm.splits if_splits)

interpretation irq: invariant "\<lambda>s. s = interruptOnDone" interrupt_step interrupt_inv
  by unfold_locales (simp add: interrupt_inv_def interruptOnDone_def, rule interrupt_inv_step)

text \<open>A disarmed interrupter stays as it is.\<close>

lemma disarmed_step:
  "interrupt_step s e t \<Longrightarrow> interrupt_inv s \<Longrightarrow> dis s = Disarmed \<Longrightarrow> e = CallDisarm \<and> t = s"
  by (cases e) (auto simp: interrupt_inv_def)

lemma disarmed_runs:
  "runs interrupt_step s es t \<Longrightarrow> interrupt_inv s \<Longrightarrow> dis s = Disarmed \<Longrightarrow> set es \<subseteq> {CallDisarm} \<and> t = s"
  by (induction rule: runs.induct) (auto dest: disarmed_step)

lemma receiving_progress:
  assumes "interrupt_inv s" "dis s = Receiving"
  shows "\<exists>es t. runs interrupt_step s es t \<and> set es \<subseteq> {CallInterrupt, CloseDone, ReceiveDone} \<and> dis t = Disarmed"
proof -
  let ?d = "s\<lparr>af := Closed, dis := Disarmed\<rparr>"
  consider "af s = Started" | "af s = Struck" | "af s = Closed"
    using assms by (auto simp: interrupt_inv_def)
  then show ?thesis
  proof cases
    case 1
    then have "runs interrupt_step s [CallInterrupt, CloseDone, ReceiveDone] ?d"
      using assms(2) by (simp add: runs_Cons_iff)
    then show ?thesis by (intro exI [of _ "[CallInterrupt, CloseDone, ReceiveDone]"] exI [of _ ?d]) simp
  next
    case 2
    then have "runs interrupt_step s [CloseDone, ReceiveDone] ?d" using assms(2) by (simp add: runs_Cons_iff)
    then show ?thesis by (intro exI [of _ "[CloseDone, ReceiveDone]"] exI [of _ ?d]) simp
  next
    case 3
    then have "runs interrupt_step s [ReceiveDone] ?d" using assms(2) by (simp add: runs_Cons_iff)
    then show ?thesis by (intro exI [of _ "[ReceiveDone]"] exI [of _ ?d]) simp
  qed
qed

text \<open>
  C40: the interrupt is never late and disarming never blocks for good. In every interleaving,
  once the function returned by \<open>interruptOnDone\<close> has returned, the interrupt is not called
  any more; and while that function waits, the goroutine it waits for can go on by itself
  until it returns.
\<close>

theorem interrupt_never_late:
  assumes "runs interrupt_step interruptOnDone es s"
  shows "(dis s = Disarmed \<longrightarrow> (\<forall>fs t. runs interrupt_step s fs t \<longrightarrow> CallInterrupt \<notin> set fs)) \<and>
    (dis s = Receiving \<longrightarrow>
      (\<exists>fs t. runs interrupt_step s fs t \<and> set fs \<subseteq> {CallInterrupt, CloseDone, ReceiveDone} \<and> dis t = Disarmed))"
  using irq.inv_reachable [OF refl assms] disarmed_runs [of s] receiving_progress [of s] by fastforce

theorem interrupt_never_late_witness:
  "\<exists>s. runs interrupt_step interruptOnDone [ContextDone, CallDisarm, CallInterrupt] s \<and> dis s = Receiving \<and>
    (\<exists>fs t. runs interrupt_step s fs t \<and> set fs \<subseteq> {CallInterrupt, CloseDone, ReceiveDone} \<and> dis t = Disarmed)"
proof -
  have run: "runs interrupt_step interruptOnDone [ContextDone, CallDisarm, CallInterrupt] \<lparr>af = Struck, dis = Receiving\<rparr>"
    by (simp add: runs_Cons_iff interruptOnDone_def)
  from interrupt_never_late [OF run] run show ?thesis by (intro exI [of _ "\<lparr>af = Struck, dis = Receiving\<rparr>"]) simp
qed

end
