(* ===== verification/Backend.thy ===== *)
theory Backend
  imports Link Login Handshake Forwarding Configuration
begin

text \<open>
  The gateway as a client of the backend server, \<open>internal/backend\<close>: health of the backend,
  dialling, the login exchange with the forwarding response, the configuration exchange that
  is buffered for the player, and the interrupt that a cancelled context delivers.

  The two exchanges are specified by the conversations they accept. The theorems show that
  a run of \<open>CompleteLogin\<close> or \<open>CompleteConfiguration\<close> succeeds exactly on such a conversation,
  with the result it determines, and that both loops return on every input.
\<close>

section \<open>Definitions\<close>

subsection \<open>Health\<close>

datatype HealthState = HealthUnknown | HealthHealthy | HealthUnhealthy

record HealthSnapshot =
  hs_State :: HealthState
  hs_ChangedAt :: time
  hs_LastError :: string

text \<open>The zero value of a \<open>healthState\<close>.\<close>

definition no_health :: HealthSnapshot where
  "no_health = \<lparr>hs_State = HealthUnknown, hs_ChangedAt = 0, hs_LastError = ''''\<rparr>"

definition healthState_get :: "HealthSnapshot \<Rightarrow> HealthSnapshot" where
  "healthState_get h = h"

text \<open>\<open>error_text\<close> is the method \<open>Error\<close> of error values, \<open>now\<close> the reading of the clock.\<close>

definition healthState_set ::
    "(err \<Rightarrow> string) \<Rightarrow> time \<Rightarrow> HealthState \<Rightarrow> err option \<Rightarrow> HealthSnapshot \<Rightarrow> HealthSnapshot" where
  "healthState_set error_text now st e h =
     (let lastError = (case e of None \<Rightarrow> '''' | Some e \<Rightarrow> error_text e) in
      if hs_State h = st \<and> hs_LastError h = lastError then h
      else \<lparr>hs_State = st, hs_ChangedAt = now, hs_LastError = lastError\<rparr>)"

subsection \<open>Dialling\<close>

record DialerConfig =
  dc_Address :: string
  dc_Host :: string
  dc_Port :: uint16
  dc_MaxPacketSize :: int
  dc_ConnectTimeout :: duration

record Dialer =
  d_config :: DialerConfig
  d_health :: HealthSnapshot

definition NewDialer :: "DialerConfig \<Rightarrow> Dialer" where
  "NewDialer config =
     (let config = (if dc_ConnectTimeout config \<le> 0 then config\<lparr>dc_ConnectTimeout := 10 * 1000000000\<rparr> else config)
      in \<lparr>d_config = config, d_health = no_health\<rparr>)"

definition set_health :: "(err \<Rightarrow> string) \<Rightarrow> time \<Rightarrow> HealthState \<Rightarrow> err option \<Rightarrow> Dialer \<Rightarrow> Dialer" where
  "set_health error_text now st e d = d\<lparr>d_health := healthState_set error_text now st e (d_health d)\<rparr>"

text \<open>
  \<open>dial\<close> is \<open>net.Dialer.DialContext\<close> under the connect timeout: the connection, the bytes that
  will arrive on it and the error they end with. The second component of the result is the
  transport the call opened, if any; the caller owns it only when the call succeeds.
\<close>

definition backend_handshake :: "DialerConfig \<Rightarrow> HandshakePacket" where
  "backend_handshake config =
     \<lparr>hs_ProtocolVersion = ProtocolVersion, hs_ServerAddress = dc_Host config, hs_ServerPort = dc_Port config,
      hs_NextState = NextLogin\<rparr>"

definition Dial ::
    "'c net \<Rightarrow> (err \<Rightarrow> string) \<Rightarrow> time \<Rightarrow> (duration \<Rightarrow> string \<Rightarrow> ('c \<times> bytes \<times> err) res) \<Rightarrow> Dialer \<Rightarrow>
     string \<Rightarrow> bytes \<Rightarrow> unit res \<times> 'c Transport option \<times> Dialer" where
  "Dial e error_text now dial d username uid =
     (let failed = (\<lambda>err t. (Fail err, t, set_health error_text now HealthUnhealthy (Some err) d)) in
      if dc_Address (d_config d) = '''' then failed (ErrText ''backend address is empty'') None
      else
        (case dial (dc_ConnectTimeout (d_config d)) (dc_Address (d_config d)) of
           Panic \<Rightarrow> (Panic, None, d)
         | Fail err \<Rightarrow> failed (ErrWrap (''dial backend '' @ dc_Address (d_config d)) err) None
         | Ok (conn, incoming, in_error) \<Rightarrow>
             let t = New_Transport conn incoming in_error (dc_MaxPacketSize (d_config d)) in
             (case net_WriteFrame e t (handshake_Payload (backend_handshake (d_config d))) of
                (Panic, t) \<Rightarrow> (Panic, Some t, d)
              | (Fail err, t) \<Rightarrow> failed (ErrWrap ''write backend handshake'' err) (Some (net_Close e t))
              | (Ok _, t) \<Rightarrow>
                  (case net_WriteFrame e t (StartPayload username uid) of
                     (Panic, t) \<Rightarrow> (Panic, Some t, d)
                   | (Fail err, t) \<Rightarrow> failed (ErrWrap ''write backend login start'' err) (Some (net_Close e t))
                   | (Ok _, t) \<Rightarrow> (Ok (), Some t, d)))))"

definition Health :: "Dialer \<Rightarrow> HealthSnapshot" where
  "Health d = healthState_get (d_health d)"

definition MarkHealthy :: "(err \<Rightarrow> string) \<Rightarrow> time \<Rightarrow> Dialer \<Rightarrow> Dialer" where
  "MarkHealthy error_text now d = set_health error_text now HealthHealthy None d"

definition MarkUnhealthy :: "(err \<Rightarrow> string) \<Rightarrow> time \<Rightarrow> err option \<Rightarrow> Dialer \<Rightarrow> Dialer" where
  "MarkUnhealthy error_text now e d =
     (case e of None \<Rightarrow> d | Some _ \<Rightarrow> set_health error_text now HealthUnhealthy e d)"

subsection \<open>Login\<close>

definition clientboundDisconnectID :: int32 where "clientboundDisconnectID = 0x00"
definition clientboundEncryptionRequestID :: int32 where "clientboundEncryptionRequestID = 0x01"
definition clientboundSetCompressionID :: int32 where "clientboundSetCompressionID = 0x03"

lemmas backend_ids = clientboundDisconnectID_def clientboundEncryptionRequestID_def clientboundSetCompressionID_def

record LoginConfig =
  lc_Timeout :: duration

record LoginResult =
  lr_UUID :: bytes
  lr_Username :: string

text \<open>The body of the loop of \<open>CompleteLogin\<close>: it returns (\<open>Inl\<close>) or goes round again (\<open>Inr\<close>).\<close>

definition login_packet ::
    "'c net \<Rightarrow> (bytes \<Rightarrow> bytes \<Rightarrow> bytes) \<Rightarrow> (string \<Rightarrow> string option) \<Rightarrow> ModernForwarding option \<Rightarrow> PlayerIdentity \<Rightarrow>
     bytes \<Rightarrow> unit \<Rightarrow> 'c Transport \<Rightarrow> (LoginResult res + unit) \<times> 'c Transport" where
  "login_packet e hmac_sha256 json_text forwarder identity payload _ t =
     (case PacketID payload of
        Panic \<Rightarrow> (Inl Panic, t)
      | Fail _ \<Rightarrow> (Inl (Fail ErrUnexpectedLoginPacket), t)
      | Ok (packet_id, body) \<Rightarrow>
          if packet_id = ClientboundPluginRequestID then
            (case ParsePluginRequest payload of
               Panic \<Rightarrow> (Inl Panic, t)
             | Fail _ \<Rightarrow> (Inl (Fail ErrUnexpectedPlugin), t)
             | Ok request \<Rightarrow>
                 (case forwarder of
                    None \<Rightarrow> (Inl (Fail ErrUnexpectedPlugin), t)
                  | Some f \<Rightarrow>
                      if pr_Channel request \<noteq> VelocityChannel then (Inl (Fail ErrUnexpectedPlugin), t)
                      else
                        (case BuildResponse hmac_sha256 f identity of
                           Panic \<Rightarrow> (Inl Panic, t)
                         | Fail err \<Rightarrow> (Inl (Fail (ErrWrap ''build velocity forwarding response'' err)), t)
                         | Ok response \<Rightarrow>
                             (case net_WriteFrame e t (PluginResponsePayload (pr_MessageID request) (Some response)) of
                                (Panic, t) \<Rightarrow> (Inl Panic, t)
                              | (Fail err, t) \<Rightarrow> (Inl (Fail (ErrWrap ''write velocity forwarding response'' err)), t)
                              | (Ok _, t) \<Rightarrow> (Inr (), t)))))
          else if packet_id = ClientboundLoginSuccessID then
            (case ReadUUID payload of
               Panic \<Rightarrow> (Inl Panic, t)
             | Fail _ \<Rightarrow> (Inl (Fail ErrUnexpectedLoginPacket), t)
             | Ok (uid, username) \<Rightarrow>
                 (case net_WriteFrame e t (AppendVarInt [] ServerboundLoginAckID) of
                    (Panic, t) \<Rightarrow> (Inl Panic, t)
                  | (Fail err, t) \<Rightarrow> (Inl (Fail (ErrWrap ''write backend login acknowledgement'' err)), t)
                  | (Ok _, t) \<Rightarrow> (Inl (Ok \<lparr>lr_UUID = uid, lr_Username = username\<rparr>), t)))
          else if packet_id = clientboundDisconnectID then
            (case ParseDisconnectReason json_text payload of
               Ok reason \<Rightarrow>
                 (Inl (Fail (if reason = '''' then ErrBackendDisconnected else ErrWrap reason ErrBackendDisconnected)), t)
             | Fail err \<Rightarrow> (Inl (Fail err), t)
             | Panic \<Rightarrow> (Inl Panic, t))
          else if packet_id = clientboundEncryptionRequestID then (Inl (Fail ErrUnsupportedEncryption), t)
          else if packet_id = clientboundSetCompressionID then
            (case ConsumeVarInt body of
               Panic \<Rightarrow> (Inl Panic, t)
             | Fail _ \<Rightarrow> (Inl (Fail ErrUnexpectedLoginPacket), t)
             | Ok (thr, used) \<Rightarrow>
                 if sint thr < 0 \<or> used \<noteq> length body then (Inl (Fail ErrUnexpectedLoginPacket), t)
                 else
                   (case EnableCompression (sint thr) t of
                      (Panic, t) \<Rightarrow> (Inl Panic, t)
                    | (Fail err, t) \<Rightarrow> (Inl (Fail (ErrWrap ''enable backend compression'' err)), t)
                    | (Ok _, t) \<Rightarrow> (Inr (), t)))
          else (Inl (Fail ErrUnexpectedLoginPacket), t))"

text \<open>
  \<open>ctx_Err\<close> is the error of the context with that timeout at the moment a read fails, if it
  has ended.
\<close>

definition read_failed :: "(duration \<Rightarrow> 'c Transport \<Rightarrow> err option) \<Rightarrow> duration \<Rightarrow> (err \<Rightarrow> err) \<Rightarrow> err \<Rightarrow> 'c Transport \<Rightarrow> 'a res" where
  "read_failed ctx_Err timeout wrap err t = Fail (case ctx_Err timeout t of Some c \<Rightarrow> c | None \<Rightarrow> wrap err)"

definition CompleteLogin ::
    "'c net \<Rightarrow> (bytes \<Rightarrow> bytes \<Rightarrow> bytes) \<Rightarrow> (string \<Rightarrow> string option) \<Rightarrow> (duration \<Rightarrow> 'c Transport \<Rightarrow> err option) \<Rightarrow>
     ModernForwarding option \<Rightarrow> PlayerIdentity \<Rightarrow> LoginConfig \<Rightarrow> 'c Transport \<Rightarrow> (LoginResult res \<times> 'c Transport) option" where
  "CompleteLogin e hmac_sha256 json_text ctx_Err forwarder identity config t =
     (let timeout = (if lc_Timeout config \<le> 0 then 10 * 1000000000 else lc_Timeout config) in
      frame_loop (net_ReadFrame e) (read_failed ctx_Err timeout (ErrWrap ''read backend login packet''))
        (login_packet e hmac_sha256 json_text forwarder identity) () t)"

subsection \<open>Configuration\<close>

record ConfigurationConfig =
  cc_Timeout :: duration
  cc_MaxPackets :: int
  cc_MaxBytes :: int

record ConfigurationResult =
  Packets :: "bytes list"

text \<open>The body of the loop of \<open>CompleteConfiguration\<close>; its variables are the packets and their size.\<close>

definition configuration_packet ::
    "'c net \<Rightarrow> ConfigurationConfig \<Rightarrow> bytes \<Rightarrow> bytes list \<times> int \<Rightarrow> 'c Transport \<Rightarrow>
     (ConfigurationResult res + bytes list \<times> int) \<times> 'c Transport" where
  "configuration_packet e config payload = (\<lambda>(packets, bytesBuffered) t.
     (case PacketID payload of
        Panic \<Rightarrow> (Inl Panic, t)
      | Fail _ \<Rightarrow> (Inl (Fail ErrBackendConfigurationPacket), t)
      | Ok (packet_id, body) \<Rightarrow>
          if packet_id = ClientboundFinishConfigurationID then
            (if length body \<noteq> 0 then (Inl (Fail ErrBackendConfigurationPacket), t)
             else
               (case net_WriteFrame e t FinishAcknowledgedPayload of
                  (Panic, t) \<Rightarrow> (Inl Panic, t)
                | (Fail err, t) \<Rightarrow> (Inl (Fail (ErrWrap ''write backend configuration acknowledgement'' err)), t)
                | (Ok _, t) \<Rightarrow> (Inl (Ok \<lparr>Packets = packets\<rparr>), t)))
          else if packet_id = cfg_ClientboundKeepAliveID then
            (if length body \<noteq> 8 then (Inl (Fail ErrBackendConfigurationPacket), t)
             else
               (case net_WriteFrame e t (AppendVarInt [] cfg_ServerboundKeepAliveID @ body) of
                  (Panic, t) \<Rightarrow> (Inl Panic, t)
                | (Fail err, t) \<Rightarrow> (Inl (Fail (ErrWrap ''write backend configuration keepalive'' err)), t)
                | (Ok _, t) \<Rightarrow> (Inr (packets, bytesBuffered), t)))
          else if packet_id = ClientboundPingID then
            (if length body \<noteq> 4 then (Inl (Fail ErrBackendConfigurationPacket), t)
             else
               (case net_WriteFrame e t (AppendVarInt [] ServerboundPongID @ body) of
                  (Panic, t) \<Rightarrow> (Inl Panic, t)
                | (Fail err, t) \<Rightarrow> (Inl (Fail (ErrWrap ''write backend configuration pong'' err)), t)
                | (Ok _, t) \<Rightarrow> (Inr (packets, bytesBuffered), t)))
          else if packet_id = cfg_ClientboundDisconnectID then (Inl (Fail ErrBackendConfigurationDisconnected), t)
          else if int (length packets) \<ge> cc_MaxPackets config \<or>
              bytesBuffered + int (length payload) > cc_MaxBytes config
          then (Inl (Fail ErrBackendConfigurationTooLarge), t)
          else (Inr (packets @ [payload], bytesBuffered + int (length payload)), t)))"

definition configuration_defaults :: "ConfigurationConfig \<Rightarrow> ConfigurationConfig" where
  "configuration_defaults config =
     (let config = (if cc_Timeout config \<le> 0 then config\<lparr>cc_Timeout := 15 * 1000000000\<rparr> else config);
          config = (if cc_MaxPackets config \<le> 0 then config\<lparr>cc_MaxPackets := 128\<rparr> else config)
      in if cc_MaxBytes config \<le> 0 then config\<lparr>cc_MaxBytes := 8 * 2 ^ 20\<rparr> else config)"

definition CompleteConfiguration ::
    "'c net \<Rightarrow> (err \<Rightarrow> string) \<Rightarrow> (duration \<Rightarrow> 'c Transport \<Rightarrow> err option) \<Rightarrow> ConfigurationConfig \<Rightarrow> 'c Transport \<Rightarrow>
     (ConfigurationResult res \<times> 'c Transport) option" where
  "CompleteConfiguration e error_text ctx_Err config t =
     (let config = configuration_defaults config in
      frame_loop (net_ReadFrame e)
        (read_failed ctx_Err (cc_Timeout config) (\<lambda>err. ErrWrap (error_text err) ErrBackendConfigurationDisconnected))
        (configuration_packet e config) ([], 0) t)"

section \<open>Conversations of the login\<close>

text \<open>
  The frames after which the login goes on: a request for the player's identity that the
  forwarder answers, and a valid compression threshold. Each determines what the gateway
  does next.
\<close>

definition login_continues ::
    "(bytes \<Rightarrow> bytes \<Rightarrow> bytes) \<Rightarrow> ModernForwarding option \<Rightarrow> PlayerIdentity \<Rightarrow> bytes \<Rightarrow> exchange list \<Rightarrow> bool" where
  "login_continues hmac_sha256 forwarder identity payload answer \<longleftrightarrow>
     (\<exists>request f response. ParsePluginRequest payload = Ok request \<and> pr_Channel request = VelocityChannel \<and>
        forwarder = Some f \<and> BuildResponse hmac_sha256 f identity = Ok response \<and>
        answer = [Sent (PluginResponsePayload (pr_MessageID request) (Some response))]) \<or>
     (\<exists>body thr. PacketID payload = Ok (clientboundSetCompressionID, body) \<and>
        ConsumeVarInt body = Ok (thr, length body) \<and> 0 \<le> sint thr \<and> answer = [Compress (sint thr)])"

lemma ParsePluginRequest_id: "ParsePluginRequest payload = Ok request \<Longrightarrow> \<exists>body. PacketID payload = Ok (ClientboundPluginRequestID, body)"
  by (auto simp: ParsePluginRequest_def res_iff split: if_splits)

lemma ReadUUID_id: "ReadUUID payload = Ok r \<Longrightarrow> \<exists>body. PacketID payload = Ok (ClientboundLoginSuccessID, body)"
  by (auto simp: ReadUUID_def res_iff split: if_splits)

lemma BuildResponse_no_panic [simp, no_panic]: "BuildResponse h f i \<noteq> Panic"
  by (simp add: BuildResponse_eq)

lemma talk_single: "talk e t [x] t' \<longleftrightarrow> exchange_step e t x t'"
  by (simp add: runs_Cons_iff)

text \<open>The cases of one round: which frames it goes on after, which end the login.\<close>

lemma login_packet_plugin:
  assumes "PacketID payload = Ok (ClientboundPluginRequestID, body)"
  shows "login_packet e h j fwd i payload s t = (Inr u, t') \<longleftrightarrow>
      (\<exists>answer. login_continues h fwd i payload answer \<and> talk e t answer t')"
    "login_packet e h j fwd i payload s t \<noteq> (Inl (Ok r), t')"
  using assms
  by (auto simp: login_packet_def login_continues_def login_ids backend_ids talk_single
      split: res.splits option.splits prod.splits if_splits)

lemma login_packet_compression:
  assumes "PacketID payload = Ok (clientboundSetCompressionID, body)"
  shows "login_packet e h j fwd i payload s t = (Inr u, t') \<longleftrightarrow>
      (\<exists>answer. login_continues h fwd i payload answer \<and> talk e t answer t')"
    "login_packet e h j fwd i payload s t \<noteq> (Inl (Ok r), t')"
  using assms ParsePluginRequest_id [of payload]
  by (auto simp: login_packet_def login_continues_def login_ids backend_ids talk_single
      split: res.splits option.splits prod.splits if_splits)

lemma login_packet_other:
  assumes "\<And>body. PacketID payload \<noteq> Ok (ClientboundPluginRequestID, body)"
    "\<And>body. PacketID payload \<noteq> Ok (clientboundSetCompressionID, body)"
  shows "login_packet e h j fwd i payload s t \<noteq> (Inr u, t')" "\<not> login_continues h fwd i payload answer"
  using assms ParsePluginRequest_id [of payload]
  by (auto simp: login_packet_def login_continues_def split: res.splits option.splits prod.splits if_splits)

lemma login_packet_Inr:
  "login_packet e h j fwd i payload s t = (Inr u, t') \<longleftrightarrow>
     (\<exists>answer. login_continues h fwd i payload answer \<and> talk e t answer t')"
proof -
  consider (plugin) body where "PacketID payload = Ok (ClientboundPluginRequestID, body)"
    | (compression) body where "PacketID payload = Ok (clientboundSetCompressionID, body)"
    | (other) "\<And>body. PacketID payload \<noteq> Ok (ClientboundPluginRequestID, body)"
        "\<And>body. PacketID payload \<noteq> Ok (clientboundSetCompressionID, body)"
    by blast
  then show ?thesis
  proof cases
    case plugin
    then show ?thesis by (rule login_packet_plugin(1))
  next
    case compression
    then show ?thesis by (rule login_packet_compression(1))
  next
    case other
    have "login_packet e h j fwd i payload s t \<noteq> (Inr u, t')" using other by (rule login_packet_other(1))
    moreover have "\<not> login_continues h fwd i payload answer" for answer using other by (rule login_packet_other(2))
    ultimately show ?thesis by simp
  qed
qed

lemma login_packet_success:
  assumes "PacketID payload = Ok (ClientboundLoginSuccessID, body)"
  shows "login_packet e h j fwd i payload s t = (Inl (Ok r), t') \<longleftrightarrow>
     ReadUUID payload = Ok (lr_UUID r, lr_Username r) \<and> net_WriteFrame e t (AppendVarInt [] ServerboundLoginAckID) = (Ok (), t')"
proof (cases "ReadUUID payload")
  case (Ok x)
  obtain w t1 where "net_WriteFrame e t (AppendVarInt [] ServerboundLoginAckID) = (w, t1)" by fastforce
  with Ok assms show ?thesis
    by (cases x; cases w) (auto simp: login_packet_def login_ids)
qed (use assms in \<open>simp_all add: login_packet_def login_ids\<close>)

lemma login_packet_not_Ok:
  assumes "\<And>body. PacketID payload \<noteq> Ok (ClientboundLoginSuccessID, body)"
  shows "login_packet e h j fwd i payload s t \<noteq> (Inl (Ok r), t')"
proof (cases "PacketID payload")
  case (Ok x)
  obtain packet_id body where x: "x = (packet_id, body)" "packet_id \<noteq> ClientboundLoginSuccessID"
    using assms Ok by (cases x) auto
  consider "packet_id = ClientboundPluginRequestID" | "packet_id = clientboundSetCompressionID"
    | "packet_id \<noteq> ClientboundPluginRequestID" "packet_id \<noteq> clientboundSetCompressionID" by blast
  then show ?thesis
  proof cases
    case 1
    then show ?thesis using x Ok by (intro login_packet_plugin(2)) simp
  next
    case 2
    then show ?thesis using x Ok by (intro login_packet_compression(2)) simp
  next
    case 3
    then show ?thesis
      using x Ok by (cases "ParseDisconnectReason j payload") (simp_all add: login_packet_def)
  qed
qed (simp_all add: login_packet_def)

lemma login_packet_Ok:
  "login_packet e h j fwd i payload s t = (Inl (Ok r), t') \<longleftrightarrow>
     ReadUUID payload = Ok (lr_UUID r, lr_Username r) \<and> net_WriteFrame e t (AppendVarInt [] ServerboundLoginAckID) = (Ok (), t')"
proof (cases "\<exists>body. PacketID payload = Ok (ClientboundLoginSuccessID, body)")
  case True
  then show ?thesis using login_packet_success by blast
next
  case False
  then have "login_packet e h j fwd i payload s t \<noteq> (Inl (Ok r), t')" by (intro login_packet_not_Ok) blast
  moreover have "ReadUUID payload \<noteq> Ok (lr_UUID r, lr_Username r)" using False ReadUUID_id by blast
  ultimately show ?thesis by simp
qed

lemma login_packet_view:
  assumes "login_packet e h j fwd i payload s t = (r, t')"
  shows "view t' = view t"
proof (cases "PacketID payload")
  case (Ok x)
  obtain packet_id body where x: "x = (packet_id, body)" by (cases x) auto
  note wr = net_WriteFrame_view [of e t] EnableCompression_view [of _ t]
  consider "packet_id = ClientboundPluginRequestID" | "packet_id = clientboundSetCompressionID"
    | "packet_id = ClientboundLoginSuccessID"
    | "packet_id \<noteq> ClientboundPluginRequestID" "packet_id \<noteq> clientboundSetCompressionID"
      "packet_id \<noteq> ClientboundLoginSuccessID" by blast
  then show ?thesis
  proof cases
    case 1
    with assms Ok x wr show ?thesis
      by (auto simp: login_packet_def split: res.splits option.splits prod.splits if_splits)
  next
    case 2
    with assms Ok x wr show ?thesis
      by (auto simp: login_packet_def login_ids backend_ids split: res.splits prod.splits if_splits)
  next
    case 3
    with assms Ok x wr show ?thesis
      by (auto simp: login_packet_def login_ids split: res.splits prod.splits)
  next
    case 4
    with assms Ok x show ?thesis
      by (cases "ParseDisconnectReason j payload") (simp_all add: login_packet_def split: if_splits)
  qed
qed (use assms in \<open>simp_all add: login_packet_def\<close>)

lemma read_failed_not_Ok: "read_failed ctx_Err timeout wrap err t \<noteq> Ok x"
  by (simp add: read_failed_def)

lemma CompleteLogin_conversations:
  "CompleteLogin e h j ctx_Err fwd i config t = Some (Ok r, t') \<longleftrightarrow>
     (\<exists>es success. (\<forall>(payload, answer) \<in> set es. login_continues h fwd i payload answer) \<and>
        ReadUUID success = Ok (lr_UUID r, lr_Username r) \<and>
        talk e t (concat (map (\<lambda>(payload, answer). Recv payload # answer) es) @
          [Recv success, Sent (AppendVarInt [] ServerboundLoginAckID)]) t')"
proof -
  let ?go = "\<lambda>_ x _. login_continues h fwd i (fst x) (snd x)"
  let ?stop = "\<lambda>_ x r. ReadUUID (fst x) = Ok (lr_UUID r, lr_Username r) \<and> snd x = [Sent (AppendVarInt [] ServerboundLoginAckID)]"
  have "frame_loop (net_ReadFrame e) (read_failed ctx_Err timeout wrap) (login_packet e h j fwd i) () t = Some (Ok r, t') \<longleftrightarrow>
      (\<exists>es s1 payload answer. runs ?go () es s1 \<and> ?stop s1 (payload, answer) r \<and>
         talk e t (concat (map (\<lambda>(payload, answer). Recv payload # answer) es) @ Recv payload # answer) t')" for timeout wrap
    by (rule frame_loop_conversation)
      (auto simp: login_packet_Inr login_packet_Ok talk_single read_failed_not_Ok remaining_def dest: login_packet_view)
  then show ?thesis
    unfolding CompleteLogin_def Let_def by (simp add: runs_each case_prod_beta)
qed

section \<open>Conversations of the configuration\<close>

text \<open>
  A keepalive and a ping are answered with their own body; the packets that are not part of
  the exchange itself are kept for the player.
\<close>

definition config_buffered :: "bytes \<Rightarrow> bool" where
  "config_buffered payload \<longleftrightarrow>
     (\<exists>packet_id body. PacketID payload = Ok (packet_id, body) \<and>
        packet_id \<notin> {ClientboundFinishConfigurationID, cfg_ClientboundKeepAliveID, ClientboundPingID, cfg_ClientboundDisconnectID})"

definition config_answers :: "bytes \<Rightarrow> exchange list \<Rightarrow> bool" where
  "config_answers payload answer \<longleftrightarrow>
     (\<exists>body. PacketID payload = Ok (cfg_ClientboundKeepAliveID, body) \<and> length body = 8 \<and>
        answer = [Sent (AppendVarInt [] cfg_ServerboundKeepAliveID @ body)]) \<or>
     (\<exists>body. PacketID payload = Ok (ClientboundPingID, body) \<and> length body = 4 \<and>
        answer = [Sent (AppendVarInt [] ServerboundPongID @ body)]) \<or>
     config_buffered payload \<and> answer = []"

definition config_continues ::
    "ConfigurationConfig \<Rightarrow> bytes list \<times> int \<Rightarrow> bytes \<times> exchange list \<Rightarrow> bytes list \<times> int \<Rightarrow> bool" where
  "config_continues config s x s' \<longleftrightarrow>
     config_answers (fst x) (snd x) \<and>
     (if config_buffered (fst x)
      then int (length (fst s)) < cc_MaxPackets config \<and> snd s + int (length (fst x)) \<le> cc_MaxBytes config \<and>
           s' = (fst s @ [fst x], snd s + int (length (fst x)))
      else s' = s)"

lemma configuration_packet_finish:
  assumes "PacketID payload = Ok (ClientboundFinishConfigurationID, body)"
  shows "configuration_packet e config payload s t = (Inl (Ok r), t') \<longleftrightarrow>
      body = [] \<and> Packets r = fst s \<and> net_WriteFrame e t FinishAcknowledgedPayload = (Ok (), t')"
    "configuration_packet e config payload s t \<noteq> (Inr s', t')" "\<not> config_continues config s (payload, answer) s'"
  using assms
  by (auto simp: configuration_packet_def config_continues_def config_answers_def config_buffered_def configuration_ids
      split: res.splits prod.splits)

lemma configuration_packet_other:
  assumes "\<And>body. PacketID payload \<noteq> Ok (ClientboundFinishConfigurationID, body)"
  shows "configuration_packet e config payload s t \<noteq> (Inl (Ok r), t')"
  using assms by (auto simp: configuration_packet_def split: res.splits prod.splits if_splits)

lemma configuration_packet_answered:
  assumes "PacketID payload = Ok (packet_id, body)" "packet_id = cfg_ClientboundKeepAliveID \<or> packet_id = ClientboundPingID"
  shows "configuration_packet e config payload s t = (Inr s', t') \<longleftrightarrow>
    (\<exists>answer. config_continues config s (payload, answer) s' \<and> talk e t answer t')"
  using assms
  by (auto simp: configuration_packet_def config_continues_def config_answers_def config_buffered_def configuration_ids
      talk_single split: res.splits prod.splits)

lemma configuration_packet_kept:
  assumes "config_buffered payload"
  shows "configuration_packet e config payload s t = (Inr s', t') \<longleftrightarrow>
    (\<exists>answer. config_continues config s (payload, answer) s' \<and> talk e t answer t')"
  using assms
  by (auto simp: configuration_packet_def config_continues_def config_answers_def config_buffered_def configuration_ids
      split: prod.splits)

lemma configuration_packet_refused:
  assumes "\<not> config_buffered payload"
    "\<And>body. PacketID payload \<noteq> Ok (cfg_ClientboundKeepAliveID, body)" "\<And>body. PacketID payload \<noteq> Ok (ClientboundPingID, body)"
  shows "configuration_packet e config payload s t \<noteq> (Inr s', t')" "\<not> config_continues config s (payload, answer) s'"
  using assms
  by (auto simp: configuration_packet_def config_continues_def config_answers_def config_buffered_def configuration_ids
      split: res.splits prod.splits)

lemma configuration_packet_Inr:
  "configuration_packet e config payload s t = (Inr s', t') \<longleftrightarrow>
    (\<exists>answer. config_continues config s (payload, answer) s' \<and> talk e t answer t')"
proof -
  consider (answered) packet_id body where "PacketID payload = Ok (packet_id, body)"
      "packet_id = cfg_ClientboundKeepAliveID \<or> packet_id = ClientboundPingID"
    | (kept) "config_buffered payload"
    | (refused) "\<not> config_buffered payload" "\<And>body. PacketID payload \<noteq> Ok (cfg_ClientboundKeepAliveID, body)"
        "\<And>body. PacketID payload \<noteq> Ok (ClientboundPingID, body)"
    by blast
  then show ?thesis
  proof cases
    case answered
    then show ?thesis by (rule configuration_packet_answered)
  next
    case kept
    then show ?thesis by (rule configuration_packet_kept)
  next
    case refused
    have "configuration_packet e config payload s t \<noteq> (Inr s', t')"
      using refused by (rule configuration_packet_refused(1))
    moreover have "\<not> config_continues config s (payload, answer) s'" for answer
      using refused by (rule configuration_packet_refused(2))
    ultimately show ?thesis by simp
  qed
qed

lemma configuration_packet_Ok:
  "configuration_packet e config payload s t = (Inl (Ok r), t') \<longleftrightarrow>
     PacketID payload = Ok (ClientboundFinishConfigurationID, []) \<and> Packets r = fst s \<and>
     net_WriteFrame e t FinishAcknowledgedPayload = (Ok (), t')"
proof (cases "\<exists>body. PacketID payload = Ok (ClientboundFinishConfigurationID, body)")
  case True
  then obtain body where b: "PacketID payload = Ok (ClientboundFinishConfigurationID, body)" ..
  show ?thesis unfolding configuration_packet_finish(1) [OF b] b by auto
next
  case False
  then have "configuration_packet e config payload s t \<noteq> (Inl (Ok r), t')" by (intro configuration_packet_other) blast
  then show ?thesis using False by simp
qed

lemma configuration_packet_view:
  assumes "configuration_packet e config payload s t = (r, t')"
  shows "view t' = view t"
  using assms net_WriteFrame_view [of e t]
  by (auto simp: configuration_packet_def split: res.splits prod.splits if_splits)

lemma runs_snoc_iff: "runs step s (es @ [x]) u \<longleftrightarrow> (\<exists>t. runs step s es t \<and> step t x u)"
  by (auto intro: runs_snoc dest: runs_snocD)

text \<open>What the loop has kept after any rounds it went on after.\<close>

lemma config_continues_runs:
  assumes "0 \<le> cc_MaxPackets config" "0 \<le> cc_MaxBytes config"
  shows "runs (config_continues config) ([], 0) es s \<longleftrightarrow>
    (\<forall>(payload, answer) \<in> set es. config_answers payload answer) \<and>
    s = (filter config_buffered (map fst es), int (sum_list (map length (filter config_buffered (map fst es))))) \<and>
    int (length (fst s)) \<le> cc_MaxPackets config \<and> snd s \<le> cc_MaxBytes config"
proof (induction es arbitrary: s rule: rev_induct)
  case Nil
  then show ?case using assms by auto
next
  case (snoc x es)
  define K where "K = filter config_buffered (map fst es)"
  define A where "A \<longleftrightarrow> (\<forall>(payload, answer) \<in> set es. config_answers payload answer)"
  define n where "n = int (sum_list (map length K))"
  have IH: "runs (config_continues config) ([], 0) es u \<longleftrightarrow>
      A \<and> u = (K, n) \<and> int (length (fst u)) \<le> cc_MaxPackets config \<and> snd u \<le> cc_MaxBytes config" for u
    using snoc.IH [of u] unfolding A_def K_def n_def by blast
  have "runs (config_continues config) ([], 0) (es @ [x]) s \<longleftrightarrow>
      (\<exists>u. runs (config_continues config) ([], 0) es u \<and> config_continues config u x s)"
    by (rule runs_snoc_iff)
  also have "\<dots> \<longleftrightarrow> A \<and> int (length K) \<le> cc_MaxPackets config \<and> n \<le> cc_MaxBytes config \<and> config_continues config (K, n) x s"
    unfolding IH by auto
  also have "\<dots> \<longleftrightarrow> A \<and> config_answers (fst x) (snd x) \<and>
      s = (if config_buffered (fst x) then (K @ [fst x], n + int (length (fst x))) else (K, n)) \<and>
      int (length (fst s)) \<le> cc_MaxPackets config \<and> snd s \<le> cc_MaxBytes config"
    by (auto simp: config_continues_def)
  finally have eq: "runs (config_continues config) ([], 0) (es @ [x]) s \<longleftrightarrow> A \<and> config_answers (fst x) (snd x) \<and>
      s = (if config_buffered (fst x) then (K @ [fst x], n + int (length (fst x))) else (K, n)) \<and>
      int (length (fst s)) \<le> cc_MaxPackets config \<and> snd s \<le> cc_MaxBytes config" .
  show ?case unfolding eq A_def n_def K_def by (simp add: case_prod_beta) blast
qed

lemma configuration_defaults_positive:
  "0 < cc_MaxPackets (configuration_defaults config)" "0 < cc_MaxBytes (configuration_defaults config)"
  by (simp_all add: configuration_defaults_def Let_def)

lemma CompleteConfiguration_conversations:
  "CompleteConfiguration e text ctx_Err config t = Some (Ok r, t') \<longleftrightarrow>
     (\<exists>es finish. (\<forall>(payload, answer) \<in> set es. config_answers payload answer) \<and>
        PacketID finish = Ok (ClientboundFinishConfigurationID, []) \<and>
        Packets r = filter config_buffered (map fst es) \<and>
        int (length (Packets r)) \<le> cc_MaxPackets (configuration_defaults config) \<and>
        int (sum_list (map length (Packets r))) \<le> cc_MaxBytes (configuration_defaults config) \<and>
        talk e t (concat (map (\<lambda>(payload, answer). Recv payload # answer) es) @
          [Recv finish, Sent FinishAcknowledgedPayload]) t')"
proof -
  let ?config = "configuration_defaults config"
  let ?stop = "\<lambda>s x r. PacketID (fst x) = Ok (ClientboundFinishConfigurationID, []) \<and> Packets r = fst s \<and>
      snd x = [Sent FinishAcknowledgedPayload]"
  have "frame_loop (net_ReadFrame e) (read_failed ctx_Err timeout wrap) (configuration_packet e ?config) ([], 0) t = Some (Ok r, t') \<longleftrightarrow>
      (\<exists>es s1 payload answer. runs (config_continues ?config) ([], 0) es s1 \<and> ?stop s1 (payload, answer) r \<and>
         talk e t (concat (map (\<lambda>(payload, answer). Recv payload # answer) es) @ Recv payload # answer) t')" for timeout wrap
    by (rule frame_loop_conversation)
      (auto simp: configuration_packet_Inr configuration_packet_Ok talk_single read_failed_not_Ok remaining_def
        dest: configuration_packet_view)
  moreover have "runs (config_continues ?config) ([], 0) es s1 \<longleftrightarrow>
      (\<forall>(payload, answer) \<in> set es. config_answers payload answer) \<and>
      s1 = (filter config_buffered (map fst es), int (sum_list (map length (filter config_buffered (map fst es))))) \<and>
      int (length (fst s1)) \<le> cc_MaxPackets ?config \<and> snd s1 \<le> cc_MaxBytes ?config" for es s1
    using configuration_defaults_positive [of config] by (intro config_continues_runs) simp_all
  ultimately show ?thesis
    unfolding CompleteConfiguration_def Let_def by (auto 0 3)
qed

section \<open>No panic\<close>

lemma EnableCompression_no_panic: "fst (EnableCompression n t) \<noteq> Panic"
  by (simp add: EnableCompression_def NewCompressionState_def Let_def)

lemma login_packet_no_panic:
  assumes "net_safe e"
  shows "fst (login_packet e h j fwd i payload s t) \<noteq> Inl Panic"
proof (cases "PacketID payload")
  case (Ok x)
  obtain packet_id body where x: "x = (packet_id, body)" by (cases x) auto
  have wr: "fst (net_WriteFrame e t p) \<noteq> Panic" for p using assms by (rule net_WriteFrame_no_panic)
  consider "packet_id = ClientboundPluginRequestID" | "packet_id = clientboundSetCompressionID"
    | "packet_id = ClientboundLoginSuccessID"
    | "packet_id \<noteq> ClientboundPluginRequestID" "packet_id \<noteq> clientboundSetCompressionID"
      "packet_id \<noteq> ClientboundLoginSuccessID" by blast
  then show ?thesis
  proof cases
    case 1
    then show ?thesis
      using Ok x wr
      by (auto simp: login_packet_def split: res.splits option.splits prod.splits) (metis fst_conv)
  next
    case 2
    then show ?thesis
      using Ok x EnableCompression_no_panic [of _ t]
      by (auto simp: login_packet_def login_ids backend_ids split: res.splits prod.splits) (metis fst_conv)
  next
    case 3
    then show ?thesis
      using Ok x wr by (auto simp: login_packet_def login_ids split: res.splits prod.splits) (metis fst_conv)
  next
    case 4
    then show ?thesis
      using Ok x by (auto simp: login_packet_def split: res.split)
  qed
qed (simp_all add: login_packet_def)

lemma configuration_packet_no_panic:
  assumes "net_safe e"
  shows "fst (configuration_packet e config payload s t) \<noteq> Inl Panic"
proof -
  have wr: "net_WriteFrame e t p \<noteq> (Panic, t')" for p t'
    using net_WriteFrame_no_panic [OF assms, of t p] by (metis fst_conv)
  then show ?thesis
    by (auto simp: configuration_packet_def split: res.splits prod.splits)
qed

lemma exchanges_no_panic:
  assumes "net_safe e"
  shows "CompleteLogin e h j ctx_Err fwd i config t = Some (r, t') \<Longrightarrow> r \<noteq> Panic"
    "CompleteConfiguration e text ctx_Err config' t = Some (q, t') \<Longrightarrow> q \<noteq> Panic"
proof -
  have failed: "read_failed ctx_Err timeout wrap err t \<noteq> Panic" for timeout wrap err t by (simp add: read_failed_def)
  show "CompleteLogin e h j ctx_Err fwd i config t = Some (r, t') \<Longrightarrow> r \<noteq> Panic"
    unfolding CompleteLogin_def Let_def
    by (erule frame_loop_no_panic [OF _ assms])
      (auto simp: failed login_packet_no_panic [OF assms] remaining_def dest: login_packet_view)
  show "CompleteConfiguration e text ctx_Err config' t = Some (q, t') \<Longrightarrow> q \<noteq> Panic"
    unfolding CompleteConfiguration_def Let_def
    by (erule frame_loop_no_panic [OF _ assms])
      (auto simp: failed configuration_packet_no_panic [OF assms] remaining_def dest: configuration_packet_view)
qed

lemma Dial_no_panic:
  assumes "net_safe e" "\<And>timeout address. dial timeout address \<noteq> Panic"
  shows "fst (Dial e text now dial d username uid) \<noteq> Panic"
proof -
  have wr: "net_WriteFrame e t p \<noteq> (Panic, t')" for t p t'
    using net_WriteFrame_no_panic [OF assms(1), of t p] by (metis fst_conv)
  show ?thesis
    using assms(2) wr by (auto simp: Dial_def Let_def split: res.splits prod.splits)
qed

lemma login_returns: "\<exists>r t'. CompleteLogin e h j ctx_Err fwd i config t = Some (r, t')"
  unfolding CompleteLogin_def Let_def
  by (rule nl.frame_loop_returns) (auto simp: remaining_def dest: login_packet_view)

lemma configuration_returns: "\<exists>r t'. CompleteConfiguration e text ctx_Err config t = Some (r, t')"
  unfolding CompleteConfiguration_def Let_def
  by (rule nl.frame_loop_returns) (auto simp: remaining_def dest: configuration_packet_view)

section \<open>Properties of the exchanges\<close>

text \<open>
  C22: the backend login as a protocol. \<open>CompleteLogin\<close> succeeds exactly on a conversation in which
  the backend asks for the player's identity on the Velocity channel, each request answered
  with the signed identity under its message id, or sets a compression threshold, which takes
  effect before the next frame, any number of times and in any order, and then reports success,
  which is acknowledged; the result is the UUID and the name of that report.
\<close>

theorem CompleteLogin_conversation:
  "CompleteLogin e hmac_sha256 json_text ctx_Err forwarder identity config t = Some (Ok r, t') \<longleftrightarrow>
     (\<exists>es success. list_all (\<lambda>(payload, answer). login_continues hmac_sha256 forwarder identity payload answer) es \<and>
        ReadUUID success = Ok (lr_UUID r, lr_Username r) \<and>
        talk e t (concat (map (\<lambda>(payload, answer). Recv payload # answer) es) @
          [Recv success, Sent (AppendVarInt [] ServerboundLoginAckID)]) t')"
  unfolding CompleteLogin_conversations list_all_iff by simp

text \<open>
  C23: the backend configuration as a protocol, within its limits. \<open>CompleteConfiguration\<close> succeeds
  exactly on a conversation in which keepalives and pings are answered with their own
  bodies and that ends with the acknowledged finish packet; the result holds the other
  packets, unchanged and in order, no more of them and no more bytes than configured.
\<close>

theorem CompleteConfiguration_conversation:
  "CompleteConfiguration e error_text ctx_Err config t = Some (Ok r, t') \<longleftrightarrow>
     (\<exists>es finish. list_all (\<lambda>(payload, answer). config_answers payload answer) es \<and>
        PacketID finish = Ok (ClientboundFinishConfigurationID, []) \<and>
        Packets r = filter config_buffered (map fst es) \<and>
        int (length (Packets r)) \<le> cc_MaxPackets (configuration_defaults config) \<and>
        int (sum_list (map length (Packets r))) \<le> cc_MaxBytes (configuration_defaults config) \<and>
        talk e t (concat (map (\<lambda>(payload, answer). Recv payload # answer) es) @
          [Recv finish, Sent FinishAcknowledgedPayload]) t')"
  unfolding CompleteConfiguration_conversations list_all_iff by simp

section \<open>The announcement to the backend\<close>

lemma net_write_many:
  "(\<And>t. net_closing e t = NotClosed) \<Longrightarrow> net_WriteFrame e t p = (Ok (), t1) \<Longrightarrow> net_WriteFrame e t1 q = (Ok (), t2) \<Longrightarrow>
     write_many (net_deflate e) (net_write e) t [p, q] = (Ok (), t2)"
  by (simp add: net_WriteFrame_def)

lemma Dial_Ok:
  assumes "Dial e error_text now dial d username uid = (Ok (), opened, d')"
  shows "\<exists>conn incoming in_error t1 t2.
    dial (dc_ConnectTimeout (d_config d)) (dc_Address (d_config d)) = Ok (conn, incoming, in_error) \<and>
    net_WriteFrame e (New_Transport conn incoming in_error (dc_MaxPacketSize (d_config d)))
      (handshake_Payload (backend_handshake (d_config d))) = (Ok (), t1) \<and>
    net_WriteFrame e t1 (StartPayload username uid) = (Ok (), t2) \<and> opened = Some t2 \<and> d' = d"
  using assms by (auto simp: Dial_def Let_def split: if_splits res.splits prod.splits)

lemma Dial_Fail:
  assumes "Dial e error_text now dial d username uid = (Fail err, opened, d')"
  shows "d' = set_health error_text now HealthUnhealthy (Some err) d"
    "opened = None \<or> (\<exists>t. opened = Some (net_Close e t))"
  using assms by (auto simp: Dial_def Let_def split: if_splits res.splits prod.splits)

lemma net_Close_done: "t_done (net_Close e t)"
  by (auto simp: net_Close_def Transport_Close_def split: prod.split)

lemma NewFramer_limit: "m < 2 ^ 31 \<Longrightarrow> limits (New_Transport c i err m)"
  by (simp add: limits_def New_Transport_def NewFramer_def DefaultMaxPacketSize_def)

text \<open>
  What the backend hears first. When \<open>Dial\<close> succeeds, the backend at the other end of the
  connection reads two frames: a handshake for protocol 765 with the configured host and port
  that asks for login, and the login start with the player's name and UUID. The connection
  keeps the contract of \<open>net.Conn\<close> and may take the bytes in pieces of any size.
\<close>

theorem Dial_announces:
  assumes "net_conn (net_write e) sent usable" "\<And>t. net_closing e t = NotClosed" "usable conn"
    "dial (dc_ConnectTimeout (d_config d)) (dc_Address (d_config d)) = Ok (conn, incoming, in_error)"
    "dc_MaxPacketSize (d_config d) < 2 ^ 31" "string_fits 255 (dc_Host (d_config d))"
    "validUsername username" "length uid = 16"
    "Dial e error_text now dial d username uid = (Ok (), Some t, d')" "sent (t_conn t) = sent conn @ W"
  shows "\<exists>p q. fst (read_many inflate [a, b] (New_Transport peer (W @ rest) err (dc_MaxPacketSize (d_config d)))) = Ok [p, q] \<and>
    handshake_Parse p = Ok \<lparr>hs_ProtocolVersion = 765, hs_ServerAddress = dc_Host (d_config d),
      hs_ServerPort = dc_Port (d_config d), hs_NextState = NextLogin\<rparr> \<and>
    ParseStart q = Ok \<lparr>ls_Username = username, ls_UUID = uid\<rparr>"
proof -
  let ?m = "dc_MaxPacketSize (d_config d)"
  let ?p = "handshake_Payload (backend_handshake (d_config d))" and ?q = "StartPayload username uid"
  obtain t1 where "net_WriteFrame e (New_Transport conn incoming in_error ?m) ?p = (Ok (), t1)"
    "net_WriteFrame e t1 ?q = (Ok (), t)"
    using Dial_Ok [OF assms(9)] assms(4) by auto
  then have sent: "write_many (net_deflate e) (net_write e) (New_Transport conn incoming in_error ?m) [?p, ?q] = (Ok (), t)"
    by (rule net_write_many [OF assms(2)])
  let ?u = "New_Transport peer (W @ rest) err ?m"
  have "\<exists>u'. read_many inflate [a, b] ?u = (Ok [?p, ?q], u') \<and> same_setup ?u u' \<and>
      pending (view u') = drop (length W) (decrypted ?u (W @ rest))"
    by (rule net_conn.read_written [OF assms(1) _ sent _ NewFramer_limit [OF assms(5)]])
      (use assms(3,10) in \<open>simp_all add: New_Transport_def same_setup_def in_step_def\<close>)
  then have "fst (read_many inflate [a, b] ?u) = Ok [?p, ?q]" by (metis fst_conv)
  moreover have "handshake_Parse ?p = Ok (backend_handshake (d_config d))"
    using assms(6) by (intro handshake_roundtrip) (simp_all add: backend_handshake_def)
  ultimately show ?thesis
    using ParseStart_roundtrip [OF assms(7,8)] by (auto simp: backend_handshake_def ProtocolVersion_def)
qed

text \<open>A backend on a connection that takes writes in pieces.\<close>

definition plain_net :: "tcp net" where
  "plain_net = \<lparr>net_inflate = (\<lambda>z. Ok \<lparr>pending = z, ends_with = EOF\<rparr>), net_deflate = Ok, net_write = tcp_write,
     net_close = (\<lambda>c. (None, c)), net_ahead = (\<lambda>t. 3), net_closing = (\<lambda>t. NotClosed)\<rparr>"

definition sample_conn :: tcp where
  "sample_conn = \<lparr>tcp_out = [], tcp_plan = [(1, None), (2, None)]\<rparr>"

definition sample_dialer :: Dialer where
  "sample_dialer = NewDialer \<lparr>dc_Address = ''b:1'', dc_Host = ''h'', dc_Port = 25565, dc_MaxPacketSize = 100, dc_ConnectTimeout = 0\<rparr>"

definition sample_uid :: bytes where
  "sample_uid = replicate 16 7"

definition sample_dial :: "duration \<Rightarrow> string \<Rightarrow> (tcp \<times> bytes \<times> err) res" where
  "sample_dial timeout address = Ok (sample_conn, [], EOF)"

definition sample_result :: "unit res \<times> tcp Transport option \<times> Dialer" where
  "sample_result = Dial plain_net (\<lambda>e. '''') 0 sample_dial sample_dialer ''Bob'' sample_uid"

definition sample_dialled :: "tcp Transport" where
  "sample_dialled = (case sample_result of (_, Some t, _) \<Rightarrow> t | _ \<Rightarrow> New_Transport sample_conn [] EOF 1)"

lemma sample_dial_Ok: "fst sample_result = Ok ()"
  by code_simp

lemma sample_dial_result:
  "Dial plain_net (\<lambda>e. '''') 0 sample_dial sample_dialer ''Bob'' sample_uid = (Ok (), Some sample_dialled, snd (snd sample_result))"
proof -
  define opened d where "opened = fst (snd sample_result)" and "d = snd (snd sample_result)"
  then have r: "sample_result = (Ok (), opened, d)" unfolding sample_dial_Ok [symmetric] by (simp only: prod.collapse)
  then have "Dial plain_net (\<lambda>e. '''') 0 sample_dial sample_dialer ''Bob'' sample_uid = (Ok (), opened, d)"
    by (simp only: sample_result_def)
  from Dial_Ok [OF this] obtain t where "opened = Some t" by blast
  then show ?thesis unfolding sample_dialled_def sample_result_def [symmetric] r by simp
qed

theorem Dial_announces_witness:
  "\<exists>p q. fst (read_many (\<lambda>z. Ok \<lparr>pending = z, ends_with = EOF\<rparr>) [0, 5]
      (New_Transport () (tcp_out (t_conn sample_dialled) @ []) EOF (dc_MaxPacketSize (d_config sample_dialer)))) = Ok [p, q] \<and>
    handshake_Parse p = Ok \<lparr>hs_ProtocolVersion = 765, hs_ServerAddress = dc_Host (d_config sample_dialer),
      hs_ServerPort = dc_Port (d_config sample_dialer), hs_NextState = NextLogin\<rparr> \<and>
    ParseStart q = Ok \<lparr>ls_Username = ''Bob'', ls_UUID = sample_uid\<rparr>"
proof (rule Dial_announces [where sent = tcp_out and usable = "\<lambda>_. True", OF _ _ _ _ _ _ _ _ sample_dial_result])
  show "net_conn (net_write plain_net) tcp_out (\<lambda>_. True)"
    using tcp.net_conn_axioms by (simp add: plain_net_def)
  have "string_fits 16 ''h''" by (rule validUsername_fits) code_simp
  then show "string_fits 255 (dc_Host (d_config sample_dialer))"
    by (simp add: string_fits_def sample_dialer_def NewDialer_def)
  show "validUsername ''Bob''" by code_simp
  show "sample_dial (dc_ConnectTimeout (d_config sample_dialer)) (dc_Address (d_config sample_dialer)) = Ok (sample_conn, [], EOF)"
    by (simp add: sample_dial_def)
  show "net_closing plain_net t = NotClosed" for t by (simp add: plain_net_def)
  show "dc_MaxPacketSize (d_config sample_dialer) < 2 ^ 31" by (simp add: sample_dialer_def NewDialer_def)
  show "length sample_uid = 16" by code_simp
  show "tcp_out (t_conn sample_dialled) = tcp_out sample_conn @ tcp_out (t_conn sample_dialled)"
    by (simp add: sample_conn_def)
qed simp

end
