(* ===== verification/Handover.thy ===== *)
theory Handover
  imports Backend Session
begin

text \<open>
  The transfer of a player to the backend, \<open>internal/transfer\<close>: \<open>Prepare\<close> takes the session behind
  the barrier and completes login and configuration at the backend, a \<open>Prepared\<close> transfer is
  finalised once by release, rollback or the barrier timeout, and \<open>ReplayPayloads\<close> turns the
  released inputs into packets for the backend.

  The session and the prepared transfer are shared by the event loop, the goroutine that
  prepares and the timer. Every method holds the mutex of the transfer, except while it
  writes to the client: what the others do meanwhile is a parameter there.
\<close>

section \<open>Definitions\<close>

record TransferConfig =
  tc_MaxPendingCommands :: int
  tc_BarrierTimeout :: duration
  tc_Login :: LoginConfig
  tc_Configuration :: ConfigurationConfig

record Coordinator =
  co_dialer :: "Dialer option"
  co_forwarder :: "ModernForwarding option"
  co_config :: TransferConfig

text \<open>\<open>pr_done\<close> is the channel \<open>done\<close>: nil, or whether it is closed.\<close>

record 'c Prepared =
  pr_backend :: "'c Transport option"
  pr_packets :: "bytes list"
  pr_finalized :: bool
  pr_done :: "bool option"
  pr_finalErr :: "err option"

definition NewCoordinator :: "Dialer option \<Rightarrow> ModernForwarding option \<Rightarrow> TransferConfig \<Rightarrow> Coordinator" where
  "NewCoordinator dialer forwarder config = \<lparr>co_dialer = dialer, co_forwarder = forwarder, co_config = config\<rparr>"

definition BackendHealth :: "Coordinator option \<Rightarrow> HealthSnapshot" where
  "BackendHealth c =
     (case c of
        None \<Rightarrow> no_health
      | Some c \<Rightarrow> (case co_dialer c of None \<Rightarrow> no_health | Some d \<Rightarrow> Health d))"

subsection \<open>Preparing\<close>

text \<open>
  The surroundings of \<open>Prepare\<close>: clocks, the system calls of the backend exchanges, and what the
  event loop does to the session while dialling and login, and the configuration, are under way.
\<close>

record 'c prepare_env =
  pe_net :: "'c net"
  pe_error_text :: "err \<Rightarrow> string"
  pe_hmac :: "bytes \<Rightarrow> bytes \<Rightarrow> bytes"
  pe_json_text :: "string \<Rightarrow> string option"
  pe_ctx_Err :: "duration \<Rightarrow> 'c Transport \<Rightarrow> err option"
  pe_dial :: "duration \<Rightarrow> string \<Rightarrow> ('c \<times> bytes \<times> err) res"
  pe_now :: time
  pe_health_now :: time
  pe_during_login :: "Session \<Rightarrow> Session"
  pe_during_configuration :: "Session \<Rightarrow> Session"

definition close_opt :: "'c net \<Rightarrow> 'c Transport option \<Rightarrow> 'c Transport option" where
  "close_opt e t = map_option (net_Close e) t"

text \<open>\<open>rollback\<close>: closes the backend connection, rolls the session back and returns the error.\<close>

definition prepare_rollback ::
    "'c net \<Rightarrow> 'a res \<Rightarrow> 'c Transport option \<Rightarrow> Coordinator \<Rightarrow> Session \<Rightarrow>
     ('a res \<times> 'c Transport option \<times> Coordinator \<times> Session) option" where
  "prepare_rollback e r t c s = Some (r, close_opt e t, c, snd (RollbackTransfer s))"

definition mark_unhealthy :: "'c prepare_env \<Rightarrow> err \<Rightarrow> Dialer \<Rightarrow> Dialer" where
  "mark_unhealthy env err d =
     (if errors_Is err ContextCanceled then d
      else MarkUnhealthy (pe_error_text env) (pe_health_now env) (Some err) d)"

text \<open>
  The result, the connection it opened (closed again when it fails), the coordinator with
  the health it recorded, and the session. \<open>None\<close> would be an exchange that does not end; a
  dial that succeeds has opened a connection.
\<close>

definition Prepare ::
    "'c prepare_env \<Rightarrow> Coordinator \<Rightarrow> Session \<Rightarrow> PlayerIdentity \<Rightarrow> int64 list \<Rightarrow>
     ('c Prepared res \<times> 'c Transport option \<times> Coordinator \<times> Session) option" where
  "Prepare env c s identity oldKeepAlives =
     (case (co_dialer c, co_forwarder c) of
        (Some d, Some f) \<Rightarrow>
          (case BeginTransfer s (pe_now env) oldKeepAlives (tc_MaxPendingCommands (co_config c)) of
             (Fail err, s) \<Rightarrow> Some (Fail err, None, c, s)
           | (Panic, s) \<Rightarrow> Some (Panic, None, c, s)
           | (Ok _, s) \<Rightarrow>
          (case AdvanceBarrier s BarrierBackendLogin of
             (Fail err, s) \<Rightarrow> prepare_rollback (pe_net env) (Fail err) None c s
           | (Panic, s) \<Rightarrow> Some (Panic, None, c, s)
           | (Ok _, s) \<Rightarrow>
          (case Dial (pe_net env) (pe_error_text env) (pe_health_now env) (pe_dial env) d (Username identity) (UUID identity) of
             (Panic, opened, d) \<Rightarrow> Some (Panic, opened, c\<lparr>co_dialer := Some d\<rparr>, s)
           | (Fail err, opened, d) \<Rightarrow>
               (case prepare_rollback (pe_net env) (Fail err) None (c\<lparr>co_dialer := Some d\<rparr>) (pe_during_login env s) of
                  Some (r, _, c, s) \<Rightarrow> Some (r, opened, c, s)
                | None \<Rightarrow> None)
           | (Ok _, None, d) \<Rightarrow> Some (Panic, None, c, s)
           | (Ok _, Some t, d) \<Rightarrow>
          (case CompleteLogin (pe_net env) (pe_hmac env) (pe_json_text env) (pe_ctx_Err env) (Some f) identity
                  (tc_Login (co_config c)) t of
             None \<Rightarrow> None
           | Some (Panic, t) \<Rightarrow> Some (Panic, Some t, c, s)
           | Some (Fail err, t) \<Rightarrow>
               prepare_rollback (pe_net env) (Fail err) (Some t) (c\<lparr>co_dialer := Some (mark_unhealthy env err d)\<rparr>)
                 (pe_during_login env s)
           | Some (Ok _, t) \<Rightarrow>
          (case AdvanceBarrier (pe_during_login env s) BarrierBackendConfiguration of
             (Fail err, s) \<Rightarrow> prepare_rollback (pe_net env) (Fail err) (Some t) c s
           | (Panic, s) \<Rightarrow> Some (Panic, Some t, c, s)
           | (Ok _, s) \<Rightarrow>
          (case CompleteConfiguration (pe_net env) (pe_error_text env) (pe_ctx_Err env) (tc_Configuration (co_config c)) t of
             None \<Rightarrow> None
           | Some (Panic, t) \<Rightarrow> Some (Panic, Some t, c, s)
           | Some (Fail err, t) \<Rightarrow>
               prepare_rollback (pe_net env) (Fail err) (Some t) (c\<lparr>co_dialer := Some (mark_unhealthy env err d)\<rparr>)
                 (pe_during_configuration env s)
           | Some (Ok configuration, t) \<Rightarrow>
               let c = c\<lparr>co_dialer := Some (MarkHealthy (pe_error_text env) (pe_health_now env) d)\<rparr> in
          (case AdvanceBarrier (pe_during_configuration env s) BarrierAwaitingClientConfigurationStart of
             (Fail err, s) \<Rightarrow> prepare_rollback (pe_net env) (Fail err) (Some t) c s
           | (Panic, s) \<Rightarrow> Some (Panic, Some t, c, s)
           | (Ok _, s) \<Rightarrow>
               Some (Ok \<lparr>pr_backend = Some t, pr_packets = Packets configuration, pr_finalized = False,
                       pr_done = Some False, pr_finalErr = None\<rparr>, Some t, c, s))))))))
      | _ \<Rightarrow> Some (Fail (ErrText ''transfer coordinator is not configured''), None, c, s))"

subsection \<open>Finalising\<close>

text \<open>Closing a nil or a closed channel panics.\<close>

definition close_channel :: "bool option \<Rightarrow> bool option res" where
  "close_channel ch = (if ch = Some False then Ok (Some True) else Panic)"

text \<open>\<open>if p.done != nil { close(p.done) }\<close>\<close>

definition close_done :: "'c Prepared \<Rightarrow> 'c Prepared res" where
  "close_done p =
     (if pr_done p = None then Ok p
      else rbind (close_channel (pr_done p)) (\<lambda>ch. Ok (p\<lparr>pr_done := ch\<rparr>)))"

text \<open>
  The barrier timer strikes. The result is the connection it closed, with the transfer and
  the session.
\<close>

definition Prepared_timeout ::
    "'c net \<Rightarrow> 'c Prepared \<Rightarrow> Session \<Rightarrow> 'c Transport option res \<times> 'c Prepared \<times> Session" where
  "Prepared_timeout e p s =
     (if pr_finalized p then (Ok None, p, s)
      else
        let closed = close_opt e (pr_backend p);
            p = p\<lparr>pr_finalized := True, pr_finalErr := Some ErrTransferTimedOut, pr_backend := None\<rparr>;
            s = snd (RollbackTransfer s)
        in (case close_channel (pr_done p) of
              Ok ch \<Rightarrow> (Ok closed, p\<lparr>pr_done := ch\<rparr>, s)
            | Fail err \<Rightarrow> (Fail err, p, s)
            | Panic \<Rightarrow> (Panic, p, s)))"

definition Prepared_Err :: "'c Prepared \<Rightarrow> err option" where
  "Prepared_Err p = pr_finalErr p"

definition Done :: "'c Prepared \<Rightarrow> bool option" where
  "Done p = pr_done p"

definition ConfigurationPackets :: "'c Prepared \<Rightarrow> bytes list" where
  "ConfigurationPackets p = pr_packets p"

text \<open>The check both locked sections of \<open>BeginClientConfiguration\<close> and \<open>WriteClientConfiguration\<close> make.\<close>

definition check_phase :: "'c Prepared \<Rightarrow> Session \<Rightarrow> BarrierPhase \<Rightarrow> unit res" where
  "check_phase p s ph =
     (if pr_finalized p then Fail ErrTransferAlreadyFinalized
      else
        rbind (Session_BarrierPhase s) (\<lambda>current.
        if current \<noteq> ph then Fail ErrBarrierNotReady else Ok ()))"

text \<open>\<open>others\<close> is what the other goroutines do while the packet is written.\<close>

definition BeginClientConfiguration ::
    "'d net \<Rightarrow> ('c Prepared \<times> Session \<Rightarrow> 'c Prepared \<times> Session) \<Rightarrow> 'c Prepared \<Rightarrow> Session \<Rightarrow> 'd Transport \<Rightarrow>
     unit res \<times> 'c Prepared \<times> Session \<times> 'd Transport" where
  "BeginClientConfiguration e others p s client =
     (case check_phase p s BarrierAwaitingClientConfigurationStart of
        Fail err \<Rightarrow> (Fail err, p, s, client)
      | Panic \<Rightarrow> (Panic, p, s, client)
      | Ok _ \<Rightarrow>
          (case net_WriteFrame e client StartConfigurationPayload of
             (Fail err, client) \<Rightarrow> (Fail err, p, s, client)
           | (Panic, client) \<Rightarrow> (Panic, p, s, client)
           | (Ok _, client) \<Rightarrow>
               (case others (p, s) of
                  (p, s) \<Rightarrow> (check_phase p s BarrierAwaitingClientConfigurationStart, p, s, client))))"

fun write_packets :: "'d net \<Rightarrow> 'd Transport \<Rightarrow> bytes list \<Rightarrow> unit res \<times> 'd Transport" where
  "write_packets e client [] = (Ok (), client)"
| "write_packets e client (packet # packets) =
     (case net_WriteFrame e client packet of
        (Ok _, client) \<Rightarrow> write_packets e client packets
      | (r, client) \<Rightarrow> (r, client))"

definition WriteClientConfiguration ::
    "'d net \<Rightarrow> ('c Prepared \<times> Session \<Rightarrow> 'c Prepared \<times> Session) \<Rightarrow> 'c Prepared \<Rightarrow> Session \<Rightarrow> 'd Transport \<Rightarrow>
     unit res \<times> 'c Prepared \<times> Session \<times> 'd Transport" where
  "WriteClientConfiguration e others p s client =
     (case check_phase p s BarrierClientConfiguration of
        Fail err \<Rightarrow> (Fail err, p, s, client)
      | Panic \<Rightarrow> (Panic, p, s, client)
      | Ok _ \<Rightarrow>
          (case write_packets e client (pr_packets p @ [FinishPayload]) of
             (Fail err, client) \<Rightarrow> (Fail err, p, s, client)
           | (Panic, client) \<Rightarrow> (Panic, p, s, client)
           | (Ok _, client) \<Rightarrow>
               (case others (p, s) of
                  (p, s) \<Rightarrow>
                    (case check_phase p s BarrierClientConfiguration of
                       Fail err \<Rightarrow> (Fail err, p, s, client)
                     | Panic \<Rightarrow> (Panic, p, s, client)
                     | Ok _ \<Rightarrow>
                         (case AdvanceBarrier s BarrierAwaitingClientConfigurationFinish of
                            (r, s) \<Rightarrow> (r, p, s, client))))))"

definition AcknowledgeClientStart :: "'c Prepared \<Rightarrow> Session \<Rightarrow> unit res \<times> Session" where
  "AcknowledgeClientStart p s =
     (if pr_finalized p then (Fail ErrTransferAlreadyFinalized, s) else AdvanceBarrier s BarrierClientConfiguration)"

definition AcknowledgeClientConfiguration :: "'c Prepared \<Rightarrow> Session \<Rightarrow> unit res \<times> Session" where
  "AcknowledgeClientConfiguration p s =
     (if pr_finalized p then (Fail ErrTransferAlreadyFinalized, s) else AdvanceBarrier s BarrierReady)"

definition Release ::
    "'c Prepared \<Rightarrow> Session \<Rightarrow> (Replay \<times> 'c Transport option) res \<times> 'c Prepared \<times> Session" where
  "Release p s =
     (if pr_finalized p then (Fail ErrTransferAlreadyFinalized, p, s)
      else
        (case ReleaseTransfer s of
           (Fail err, s) \<Rightarrow> (Fail err, p, s)
         | (Panic, s) \<Rightarrow> (Panic, p, s)
         | (Ok replay, s) \<Rightarrow>
             let p = p\<lparr>pr_finalized := True\<rparr> in
             (case close_done p of
                Ok p \<Rightarrow> (Ok (replay, pr_backend p), p\<lparr>pr_backend := None\<rparr>, s)
              | Fail err \<Rightarrow> (Fail err, p, s)
              | Panic \<Rightarrow> (Panic, p, s))))"

text \<open>The second component is the connection it closed.\<close>

definition Rollback ::
    "'c net \<Rightarrow> 'c Prepared \<Rightarrow> Session \<Rightarrow> unit res \<times> 'c Transport option \<times> 'c Prepared \<times> Session" where
  "Rollback e p s =
     (if pr_finalized p then (Fail ErrTransferAlreadyFinalized, None, p, s)
      else
        (case close_done (p\<lparr>pr_finalized := True\<rparr>) of
           Ok p \<Rightarrow>
             (case RollbackTransfer s of
                (r, s) \<Rightarrow> (r, close_opt e (pr_backend p), p\<lparr>pr_backend := None\<rparr>, s))
         | Fail err \<Rightarrow> (Fail err, None, p\<lparr>pr_finalized := True\<rparr>, s)
         | Panic \<Rightarrow> (Panic, None, p\<lparr>pr_finalized := True\<rparr>, s)))"

subsection \<open>The replay\<close>

definition ReplayPayloads :: "Replay \<Rightarrow> bytes list" where
  "ReplayPayloads replay =
     (let payloads = [];
          payloads = (case rp_Position replay of
              None \<Rightarrow> payloads
            | Some p \<Rightarrow> payloads @ [ServerboundPositionLookPayload (pos_X p) (pos_Y p) (pos_Z p) (pos_Yaw p) (pos_Pitch p) (pos_OnGround p)])
      in foldl (\<lambda>payloads command. payloads @ [PlayerCommandPayload (EntityID command) (ActionID command) (CommandData command)])
           payloads (rp_Commands replay))"

section \<open>Calls on a prepared transfer\<close>

text \<open>
  The locked sections the goroutines run on a prepared transfer and its session, with what
  they return: the finalising calls, the acknowledgements, the second section of
  \<open>WriteClientConfiguration\<close>, and the calls the event loop makes on the session itself.
\<close>

datatype 'c prepared_call =
    PTimeout "'c Transport option res"
  | PRelease "(Replay \<times> 'c Transport option) res"
  | PRollback "unit res" "'c Transport option"
  | PAckStart "unit res"
  | PAckConfiguration "unit res"
  | PWritten "unit res"
  | PSession session_call

inductive prepared_step :: "'c net \<Rightarrow> 'c Prepared \<times> Session \<Rightarrow> 'c prepared_call \<Rightarrow> 'c Prepared \<times> Session \<Rightarrow> bool" for e where
  "Prepared_timeout e p s = (r, p', s') \<Longrightarrow> prepared_step e (p, s) (PTimeout r) (p', s')"
| "Release p s = (q, p', s') \<Longrightarrow> prepared_step e (p, s) (PRelease q) (p', s')"
| "Rollback e p s = (r', closed, p', s') \<Longrightarrow> prepared_step e (p, s) (PRollback r' closed) (p', s')"
| "AcknowledgeClientStart p s = (r', s') \<Longrightarrow> prepared_step e (p, s) (PAckStart r') (p, s')"
| "AcknowledgeClientConfiguration p s = (r', s') \<Longrightarrow> prepared_step e (p, s) (PAckConfiguration r') (p, s')"
| "check_phase p s BarrierClientConfiguration = Ok () \<Longrightarrow> AdvanceBarrier s BarrierAwaitingClientConfigurationFinish = (r', s') \<Longrightarrow>
     prepared_step e (p, s) (PWritten r') (p, s')"
| "check_phase p s BarrierClientConfiguration = Fail err \<Longrightarrow> prepared_step e (p, s) (PWritten (Fail err)) (p, s)"
| "session_step s c s' \<Longrightarrow> barrier_call c \<Longrightarrow> prepared_step e (p, s) (PSession c) (p, s')"

text \<open>The connection a call hands out to the caller, and the connection it closes.\<close>

fun handed :: "'c prepared_call \<Rightarrow> 'c Transport list" where
  "handed (PRelease (Ok (replay, Some t))) = [t]"
| "handed _ = []"

fun closed_by :: "'c prepared_call \<Rightarrow> 'c Transport list" where
  "closed_by (PTimeout (Ok (Some t))) = [t]"
| "closed_by (PRollback r (Some t)) = [t]"
| "closed_by _ = []"

fun panicked :: "'c prepared_call \<Rightarrow> bool" where
  "panicked (PTimeout r) = (r = Panic)"
| "panicked (PRelease r) = (r = Panic)"
| "panicked (PRollback r closed) = (r = Panic)"
| "panicked (PAckStart r) = (r = Panic)"
| "panicked (PAckConfiguration r) = (r = Panic)"
| "panicked (PWritten r) = (r = Panic)"
| "panicked (PSession c) = False"

text \<open>A transfer that is open owns its connection and an open channel; a finalised one neither.\<close>

definition transfer_open :: "'c Transport \<Rightarrow> 'c Prepared \<Rightarrow> bool" where
  "transfer_open t p \<longleftrightarrow> \<not> pr_finalized p \<and> pr_done p = Some False \<and> pr_backend p = Some t \<and> pr_finalErr p = None"

definition transfer_final :: "'c Prepared \<Rightarrow> bool" where
  "transfer_final p \<longleftrightarrow> pr_finalized p \<and> pr_done p = Some True \<and> pr_backend p = None"

lemma session_ops_no_panic [simp, no_panic]:
  "fst (AdvanceBarrier s ph) \<noteq> Panic" "fst (ReleaseTransfer s) \<noteq> Panic" "fst (RollbackTransfer s) \<noteq> Panic"
  "fst (BeginTransfer s now ids k) \<noteq> Panic" "Session_BarrierPhase s \<noteq> Panic"
  by (auto simp: AdvanceBarrier_def ReleaseTransfer_def RollbackTransfer_def BeginTransfer_def transitionLocked_def
      Session_BarrierPhase_def Let_def split: option.splits)

lemma session_ops_no_panic_pair:
  "AdvanceBarrier s ph = (r, s') \<Longrightarrow> r \<noteq> Panic" "ReleaseTransfer s = (q, s') \<Longrightarrow> q \<noteq> Panic"
  "RollbackTransfer s = (r, s') \<Longrightarrow> r \<noteq> Panic" "BeginTransfer s now ids k = (r, s') \<Longrightarrow> r \<noteq> Panic"
  using session_ops_no_panic by (metis fst_conv)+

text \<open>One call on an open transfer: it stays open, or this call finalises it.\<close>

lemma open_step:
  assumes "prepared_step e (p, s) c (p', s')" "transfer_open t p"
  shows "\<not> panicked c"
    "transfer_open t p' \<and> handed c = [] \<and> closed_by c = [] \<or>
     transfer_final p' \<and> (handed c = [t] \<and> closed_by c = [] \<or> handed c = [] \<and> closed_by c = [net_Close e t])"
proof -
  note defs = transfer_open_def transfer_final_def Prepared_timeout_def Release_def Rollback_def AcknowledgeClientStart_def
    AcknowledgeClientConfiguration_def close_done_def close_channel_def close_opt_def Let_def
  from assms show "\<not> panicked c"
    by (cases rule: prepared_step.cases) (auto simp: defs split: res.splits prod.splits dest: session_ops_no_panic_pair)
  from assms show "transfer_open t p' \<and> handed c = [] \<and> closed_by c = [] \<or>
     transfer_final p' \<and> (handed c = [t] \<and> closed_by c = [] \<or> handed c = [] \<and> closed_by c = [net_Close e t])"
    by (cases rule: prepared_step.cases) (auto simp: defs split: res.splits prod.splits)
qed

lemma final_step:
  assumes "prepared_step e (p, s) c (p', s')" "transfer_final p"
  shows "\<not> panicked c" "p' = p \<and> handed c = [] \<and> closed_by c = []"
proof -
  note defs = transfer_final_def Prepared_timeout_def Release_def Rollback_def AcknowledgeClientStart_def
    AcknowledgeClientConfiguration_def check_phase_def
  from assms show "\<not> panicked c" by (cases rule: prepared_step.cases) (auto simp: defs)
  from assms show "p' = p \<and> handed c = [] \<and> closed_by c = []"
    by (cases rule: prepared_step.cases) (auto simp: defs)
qed

definition behind_barrier :: "Session \<Rightarrow> bool" where
  "behind_barrier s \<longleftrightarrow> state s = StateTransferBarrier \<and> barrier s \<noteq> None"

text \<open>What the calls leave the session in: behind the barrier, released, or back in Limbo.\<close>

lemma session_sections:
  assumes "behind_barrier s"
  shows "AdvanceBarrier s ph = (r, s') \<Longrightarrow> behind_barrier s'"
    "RollbackTransfer s = (r, s') \<Longrightarrow> r = Ok () \<and> state s' = StateLimboPlay"
    "ReleaseTransfer s = (Ok q, s') \<Longrightarrow> state s' = StateBackendPlay"
    "ReleaseTransfer s = (Fail err, s') \<Longrightarrow> s' = s"
    "HandleBarrierInput s i = (d, s') \<Longrightarrow> behind_barrier s'"
  using assms
  by (auto simp: behind_barrier_def AdvanceBarrier_def RollbackTransfer_def ReleaseTransfer_def HandleBarrierInput_def
      split: if_splits option.splits prod.splits)

lemma barrier_call_step:
  assumes "session_step s c s'" "barrier_call c"
  shows "behind_barrier s \<Longrightarrow> behind_barrier s'" "state s \<noteq> StateTransferBarrier \<Longrightarrow> s' = s"
proof -
  show "behind_barrier s \<Longrightarrow> behind_barrier s'"
    using assms by (cases c) (auto dest: session_sections)
  show "state s \<noteq> StateTransferBarrier \<Longrightarrow> s' = s"
    using assms by (cases c) (auto simp: HandleBarrierInput_def AdvanceBarrier_def)
qed

definition session_after :: "'c prepared_call list \<Rightarrow> Session \<Rightarrow> bool" where
  "session_after es s \<longleftrightarrow>
     (if concat (map handed es) \<noteq> [] then state s = StateBackendPlay
      else if concat (map closed_by es) \<noteq> [] then state s = StateLimboPlay
      else behind_barrier s)"

lemma open_step_session:
  assumes "prepared_step e (p, s) c (p', s')" "transfer_open t p" "behind_barrier s"
  shows "session_after [c] s'"
  using assms
proof (cases rule: prepared_step.cases)
  case (1 r)
  then show ?thesis
    using assms(2,3) session_sections(2) [OF assms(3)]
    by (cases "RollbackTransfer s")
      (auto simp: Prepared_timeout_def transfer_open_def close_channel_def close_opt_def session_after_def Let_def)
next
  case (2 q)
  then show ?thesis
    using assms(2,3) session_sections(3,4) [OF assms(3)] session_ops_no_panic_pair(2)
    by (auto simp: Release_def transfer_open_def close_channel_def close_done_def session_after_def Let_def
        split: res.splits prod.splits)
next
  case (3 r' closed)
  then show ?thesis
    using assms(2,3) session_sections(2) [OF assms(3)]
    by (cases "RollbackTransfer s")
      (auto simp: Rollback_def transfer_open_def close_channel_def close_done_def close_opt_def session_after_def Let_def)
next
  case (4 r')
  then show ?thesis
    using assms session_sections(1) [OF assms(3)]
    by (auto simp: AcknowledgeClientStart_def transfer_open_def session_after_def)
next
  case (5 r')
  then show ?thesis
    using assms session_sections(1) [OF assms(3)]
    by (auto simp: AcknowledgeClientConfiguration_def transfer_open_def session_after_def)
next
  case (6 r')
  then show ?thesis using session_sections(1) [OF assms(3)] by (auto simp: session_after_def)
next
  case (7 err)
  then show ?thesis using assms(3) by (simp add: session_after_def)
next
  case (8 c)
  then show ?thesis using barrier_call_step(1) assms(3) by (auto simp: session_after_def)
qed

lemma final_step_session:
  assumes "prepared_step e (p, s) c (p', s')" "transfer_final p" "state s \<noteq> StateTransferBarrier"
  shows "s' = s"
  using assms
proof (cases rule: prepared_step.cases)
  case (6 r')
  then show ?thesis using assms(2) by (simp add: check_phase_def transfer_final_def)
next
  case (8 c)
  then show ?thesis using barrier_call_step(2) assms(3) by blast
qed (auto simp: Prepared_timeout_def Release_def Rollback_def AcknowledgeClientStart_def AcknowledgeClientConfiguration_def
      transfer_final_def)

definition transfer_fate :: "'c net \<Rightarrow> 'c Transport \<Rightarrow> 'c prepared_call list \<Rightarrow> 'c Prepared \<times> Session \<Rightarrow> bool" where
  "transfer_fate e t es = (\<lambda>(p, s).
     transfer_open t p \<and> behind_barrier s \<and> concat (map handed es) = [] \<and> concat (map closed_by es) = [] \<or>
     transfer_final p \<and> state s = StateBackendPlay \<and> concat (map handed es) = [t] \<and> concat (map closed_by es) = [] \<or>
     transfer_final p \<and> state s = StateLimboPlay \<and> concat (map handed es) = [] \<and> concat (map closed_by es) = [net_Close e t])"

lemma transfer_fate_step:
  assumes "transfer_fate e t es (p, s)" "prepared_step e (p, s) c (p', s')"
  shows "transfer_fate e t (es @ [c]) (p', s') \<and> \<not> panicked c"
proof (cases "transfer_final p")
  case True
  then have "p' = p \<and> handed c = [] \<and> closed_by c = []" "\<not> panicked c" "state s \<noteq> StateTransferBarrier"
    using final_step [OF assms(2)] assms(1) by (auto simp: transfer_fate_def transfer_open_def transfer_final_def)
  with final_step_session [OF assms(2) True] assms(1) show ?thesis by (simp add: transfer_fate_def)
next
  case False
  then have open1: "transfer_open t p" "behind_barrier s" "concat (map handed es) = []" "concat (map closed_by es) = []"
    using assms(1) by (auto simp: transfer_fate_def)
  from open_step [OF assms(2) open1(1)] open_step_session [OF assms(2) open1(1,2)] open1(3,4) show ?thesis
    by (auto simp: transfer_fate_def session_after_def)
qed

lemma transfer_fate_runs:
  "runs (prepared_step e) ps es ps' \<Longrightarrow> transfer_fate e t [] ps \<Longrightarrow> transfer_fate e t es ps' \<and> list_all (\<lambda>c. \<not> panicked c) es"
proof (induction rule: runs.induct)
  case (runs_snoc ps es ps1 c ps2)
  then show ?case using transfer_fate_step [of e t es "fst ps1" "snd ps1" c "fst ps2" "snd ps2"] by simp
qed simp

text \<open>
  C17: a transfer is finalised once, and its connection has one owner. Whatever order the event
  loop, the acknowledgements, release, rollback and the barrier timer run in, no call panics
  (the channel is closed once); and either the transfer is open, owns the backend connection
  and the session is behind the barrier, or exactly one call has finalised it: a release, which
  handed the open connection out and left the session in Backend Play, or a rollback or
  timeout, which closed it and left the session in Limbo Play.
\<close>

theorem transfer_finalised_once:
  assumes "runs (prepared_step e) (p0, s0) es (p, s)" "transfer_open t p0" "behind_barrier s0"
  shows "list_all (\<lambda>c. \<not> panicked c) es \<and>
    (\<not> pr_finalized p \<and> pr_backend p = Some t \<and> state s = StateTransferBarrier \<and>
       concat (map handed es) = [] \<and> concat (map closed_by es) = [] \<or>
     pr_finalized p \<and> pr_backend p = None \<and> state s = StateBackendPlay \<and>
       concat (map handed es) = [t] \<and> concat (map closed_by es) = [] \<or>
     pr_finalized p \<and> pr_backend p = None \<and> state s = StateLimboPlay \<and>
       concat (map handed es) = [] \<and> concat (map closed_by es) = [net_Close e t])"
  using transfer_fate_runs [OF assms(1)] assms(2,3)
  by (auto simp: transfer_fate_def transfer_open_def transfer_final_def behind_barrier_def)

definition sample_transport :: "tcp Transport" where
  "sample_transport = New_Transport sample_conn [] EOF 100"

definition sample_prepared :: "tcp Prepared" where
  "sample_prepared = \<lparr>pr_backend = Some sample_transport, pr_packets = [[7, 1]], pr_finalized = False,
     pr_done = Some False, pr_finalErr = None\<rparr>"

definition sample_session :: Session where
  "sample_session = \<lparr>state = StateTransferBarrier,
     barrier = Some (newBarrier 0 [] 4\<lparr>phase := BarrierAwaitingClientConfigurationStart\<rparr>)\<rparr>"

theorem transfer_finalised_once_witness:
  "\<exists>p s. runs (prepared_step plain_net) (sample_prepared, sample_session)
      [PAckStart (Ok ()), PTimeout (Ok (Some (net_Close plain_net sample_transport))),
       PRelease (Fail ErrTransferAlreadyFinalized)] (p, s) \<and>
    pr_finalized p \<and> state s = StateLimboPlay"
proof -
  let ?es = "[PAckStart (Ok ()), PTimeout (Ok (Some (net_Close plain_net sample_transport))),
    PRelease (Fail ErrTransferAlreadyFinalized)]"
  have "\<exists>p s. runs (prepared_step plain_net) (sample_prepared, sample_session) ?es (p, s)"
    by (simp add: runs_Cons_iff prepared_step.simps sample_prepared_def sample_session_def AcknowledgeClientStart_def
        AdvanceBarrier_def barrier_phases Prepared_timeout_def close_channel_def close_opt_def Release_def Let_def)
  then obtain p s where run: "runs (prepared_step plain_net) (sample_prepared, sample_session) ?es (p, s)" by blast
  have "transfer_open sample_transport sample_prepared" "behind_barrier sample_session"
    by (simp_all add: transfer_open_def sample_prepared_def behind_barrier_def sample_session_def)
  from transfer_finalised_once [OF run this] run show ?thesis by auto
qed

section \<open>Preparing a transfer\<close>

text \<open>What the event loop does to the session while a transfer is being prepared: it handles inputs.\<close>

fun input_call :: "session_call \<Rightarrow> bool" where
  "input_call (CallHandleInput i d e) = True"
| "input_call _ = False"

definition inputs_only :: "(Session \<Rightarrow> Session) \<Rightarrow> bool" where
  "inputs_only f \<longleftrightarrow> (\<forall>s. \<exists>es. runs session_step s es (f s) \<and> list_all input_call es)"

definition at_phase :: "BarrierPhase \<Rightarrow> Session \<Rightarrow> bool" where
  "at_phase ph s \<longleftrightarrow> behind_barrier s \<and> Session_BarrierPhase s = Ok ph"

lemma input_at_phase:
  assumes "HandleBarrierInput s i = (d, s')" "at_phase ph s"
  shows "at_phase ph s'"
  using assms
  by (auto simp: at_phase_def behind_barrier_def Session_BarrierPhase_def HandleBarrierInput_def barrier_handle_def Let_def
      split: InputKind.splits if_splits option.splits prod.splits)

lemma inputs_at_phase:
  "runs session_step s es s' \<Longrightarrow> list_all input_call es \<Longrightarrow> at_phase ph s \<Longrightarrow> at_phase ph s'"
proof (induction rule: runs.induct)
  case (runs_snoc s es s1 c s2)
  then show ?case by (cases c) (auto intro: input_at_phase)
qed simp

lemma inputs_only_at_phase: "inputs_only f \<Longrightarrow> at_phase ph s \<Longrightarrow> at_phase ph (f s)"
  unfolding inputs_only_def using inputs_at_phase by blast

lemma advance_at_phase:
  assumes "at_phase ph s"
  shows "\<exists>s'. AdvanceBarrier s (ph + 1) = (Ok (), s') \<and> at_phase (ph + 1) s'"
proof -
  obtain b where "state s = StateTransferBarrier" "barrier s = Some b" "phase b = ph"
    using assms by (auto simp: at_phase_def behind_barrier_def Session_BarrierPhase_def)
  then show ?thesis
    by (intro exI [of _ "s\<lparr>barrier := Some (b\<lparr>phase := ph + 1\<rparr>)\<rparr>"])
      (simp add: at_phase_def behind_barrier_def Session_BarrierPhase_def AdvanceBarrier_def)
qed

lemma begin_at_phase: "BeginTransfer s now ids k = (Ok (), s') \<Longrightarrow> at_phase BarrierDraining s'"
  by (auto simp: BeginTransfer_def transitionLocked_def at_phase_def behind_barrier_def Session_BarrierPhase_def
      newBarrier_def Let_def split: if_splits)

lemma rollback_at_phase: "at_phase ph s \<Longrightarrow> RollbackTransfer s = (Ok (), \<lparr>state = StateLimboPlay, barrier = None\<rparr>)"
  by (auto simp: at_phase_def behind_barrier_def RollbackTransfer_def)

lemma BeginTransfer_cases:
  "(\<exists>s'. BeginTransfer s now ids k = (Ok (), s')) \<longleftrightarrow> canTransition (state s) StateTransferBarrier"
  "BeginTransfer s now ids k = (Fail err, s') \<Longrightarrow> s' = s \<and> \<not> canTransition (state s) StateTransferBarrier"
  by (auto simp: BeginTransfer_def transitionLocked_def Let_def split: if_splits)

lemma phase_successors:
  "BarrierBackendLogin = BarrierDraining + 1" "BarrierBackendConfiguration = BarrierBackendLogin + 1"
  "BarrierAwaitingClientConfigurationStart = BarrierBackendConfiguration + 1"
  by (simp_all add: barrier_phases)

lemma advance_phases:
  "at_phase BarrierDraining s \<Longrightarrow> \<exists>s'. AdvanceBarrier s BarrierBackendLogin = (Ok (), s') \<and> at_phase BarrierBackendLogin s'"
  "at_phase BarrierBackendLogin s \<Longrightarrow>
     \<exists>s'. AdvanceBarrier s BarrierBackendConfiguration = (Ok (), s') \<and> at_phase BarrierBackendConfiguration s'"
  "at_phase BarrierBackendConfiguration s \<Longrightarrow>
     \<exists>s'. AdvanceBarrier s BarrierAwaitingClientConfigurationStart = (Ok (), s') \<and>
       at_phase BarrierAwaitingClientConfigurationStart s'"
  using advance_at_phase unfolding phase_successors by blast+

text \<open>The outcomes of a preparation that got behind the barrier.\<close>

definition prepared_well ::
    "'c prepare_env \<Rightarrow> Coordinator \<Rightarrow> PlayerIdentity \<Rightarrow> 'c Prepared \<Rightarrow> 'c Transport option \<Rightarrow> Coordinator \<Rightarrow> Session \<Rightarrow> bool" where
  "prepared_well env c identity p opened c' s' \<longleftrightarrow>
     (\<exists>d f t0 t1 t lr. co_dialer c = Some d \<and> co_forwarder c = Some f \<and> opened = Some t \<and> transfer_open t p \<and>
        Dial (pe_net env) (pe_error_text env) (pe_health_now env) (pe_dial env) d (Username identity) (UUID identity) =
          (Ok (), Some t0, d) \<and>
        CompleteLogin (pe_net env) (pe_hmac env) (pe_json_text env) (pe_ctx_Err env) (Some f) identity
          (tc_Login (co_config c)) t0 = Some (Ok lr, t1) \<and>
        CompleteConfiguration (pe_net env) (pe_error_text env) (pe_ctx_Err env) (tc_Configuration (co_config c)) t1 =
          Some (Ok \<lparr>Packets = pr_packets p\<rparr>, t)) \<and>
     at_phase BarrierAwaitingClientConfigurationStart s' \<and> hs_State (BackendHealth (Some c')) = HealthHealthy"

definition prepare_undone :: "'c Transport option \<Rightarrow> Session \<Rightarrow> bool" where
  "prepare_undone opened s' \<longleftrightarrow>
     (case opened of None \<Rightarrow> True | Some t \<Rightarrow> t_done t) \<and> s' = \<lparr>state = StateLimboPlay, barrier = None\<rparr>"

lemma set_health_state [simp]: "hs_State (d_health (set_health text now st e d)) = st"
  by (simp add: set_health_def healthState_set_def Let_def)

lemma Prepare_behind_barrier:
  assumes "net_safe (pe_net env)" "\<And>timeout address. pe_dial env timeout address \<noteq> Panic"
    "inputs_only (pe_during_login env)" "inputs_only (pe_during_configuration env)"
    "co_dialer c = Some d" "co_forwarder c = Some f"
    "BeginTransfer s (pe_now env) olds (tc_MaxPendingCommands (co_config c)) = (Ok (), s1)"
  shows "\<exists>r opened c' s'. Prepare env c s identity olds = Some (r, opened, c', s') \<and>
    (case r of Ok p \<Rightarrow> prepared_well env c identity p opened c' s' | Fail err \<Rightarrow> prepare_undone opened s' | Panic \<Rightarrow> False)"
proof -
  let ?e = "pe_net env"
  let ?dial = "Dial ?e (pe_error_text env) (pe_health_now env) (pe_dial env) d (Username identity) (UUID identity)"
  let ?login = "CompleteLogin ?e (pe_hmac env) (pe_json_text env) (pe_ctx_Err env) (Some f) identity (tc_Login (co_config c))"
  let ?config = "CompleteConfiguration ?e (pe_error_text env) (pe_ctx_Err env) (tc_Configuration (co_config c))"
  obtain s2 where s2: "AdvanceBarrier s1 BarrierBackendLogin = (Ok (), s2)" "at_phase BarrierBackendLogin s2"
    using advance_phases(1) [OF begin_at_phase [OF assms(7)]] by blast
  have s3: "at_phase BarrierBackendLogin (pe_during_login env s2)" using inputs_only_at_phase [OF assms(3) s2(2)] .
  obtain s4 where s4: "AdvanceBarrier (pe_during_login env s2) BarrierBackendConfiguration = (Ok (), s4)"
    "at_phase BarrierBackendConfiguration s4"
    using advance_phases(2) [OF s3] by blast
  have s5: "at_phase BarrierBackendConfiguration (pe_during_configuration env s4)"
    using inputs_only_at_phase [OF assms(4) s4(2)] .
  obtain s6 where s6: "AdvanceBarrier (pe_during_configuration env s4) BarrierAwaitingClientConfigurationStart = (Ok (), s6)"
    "at_phase BarrierAwaitingClientConfigurationStart s6"
    using advance_phases(3) [OF s5] by blast
  note start = Prepare_def assms(5-7) s2(1) prepare_rollback_def prepare_undone_def close_opt_def net_Close_done
  obtain x opened d1 where dial: "?dial = (x, opened, d1)" by (metis surj_pair)
  have "fst ?dial \<noteq> Panic" using assms(1,2) by (rule Dial_no_panic)
  then have "x \<noteq> Panic" unfolding dial by simp
  then consider (refused) err where "x = Fail err" | (dialled) t0 where "x = Ok ()" "opened = Some t0" "d1 = d"
    using Dial_Ok [of ?e "pe_error_text env" "pe_health_now env" "pe_dial env" d "Username identity" "UUID identity" opened d1] dial
    by (cases x) auto
  then show ?thesis
  proof cases
    case refused
    have "case opened of None \<Rightarrow> True | Some t \<Rightarrow> t_done t"
      using Dial_Fail(2) dial refused net_Close_done by (fastforce split: option.split)
    with refused show ?thesis using dial rollback_at_phase [OF s3] by (simp add: start)
  next
    case dialled
    obtain x1 t1 where login: "?login t0 = Some (x1, t1)" using login_returns by blast
    have "x1 \<noteq> Panic" using exchanges_no_panic(1) [OF assms(1) login] .
    then consider (failed) err where "x1 = Fail err" | (in_login) lr where "x1 = Ok lr" by (cases x1) auto
    then show ?thesis
    proof cases
      case failed
      with dialled show ?thesis using dial login rollback_at_phase [OF s3] by (simp add: start)
    next
      case in_login
      obtain x2 t2 where config: "?config t1 = Some (x2, t2)" using configuration_returns by blast
      have "x2 \<noteq> Panic" using exchanges_no_panic(2) [OF assms(1) config] .
      then consider (failed) err where "x2 = Fail err" | (ready) cr where "x2 = Ok cr" by (cases x2) auto
      then show ?thesis
      proof cases
        case failed
        with dialled in_login show ?thesis
          using dial login config s4(1) rollback_at_phase [OF s5] by (simp add: start)
      next
        case ready
        have "\<lparr>Packets = Packets cr\<rparr> = cr" by simp
        with ready dialled in_login show ?thesis
          using dial login config s4(1) s6
          by (simp add: start prepared_well_def transfer_open_def BackendHealth_def Health_def healthState_get_def MarkHealthy_def
              Let_def)
      qed
    qed
  qed
qed

lemma enters_barrier: "canTransition s StateTransferBarrier \<longleftrightarrow> s \<in> {StateLimboPlay, StateBackendPlay}"
  by (cases s) (simp_all add: canTransition_def)

text \<open>
  C18: preparing a transfer succeeds whole or leaves nothing behind. It always returns and never
  panics. On success the backend connection went through dialling, login and configuration, the
  transfer is open and owns it, its packets are those of the configuration, the session waits
  for the client to start configuration and the backend is recorded healthy. On failure every connection it
  opened is closed and the session is in Limbo with no barrier, also when the transfer began in Backend
  Play; a session that waited in Limbo is as it was before the call. When the coordinator is not configured,
  or the session is in neither Limbo nor Backend Play, nothing has changed. The client's inputs may arrive at any
  time meanwhile.
\<close>

theorem Prepare_outcome:
  assumes "net_safe (pe_net env)" "\<And>timeout address. pe_dial env timeout address \<noteq> Panic"
    "inputs_only (pe_during_login env)" "inputs_only (pe_during_configuration env)"
  shows "\<exists>r opened c' s'. Prepare env c s identity olds = Some (r, opened, c', s') \<and>
    (case r of
       Ok p \<Rightarrow> prepared_well env c identity p opened c' s'
     | Fail err \<Rightarrow>
         if co_dialer c = None \<or> co_forwarder c = None \<or> state s \<notin> {StateLimboPlay, StateBackendPlay}
         then opened = None \<and> c' = c \<and> s' = s
         else prepare_undone opened s' \<and> (state s = StateLimboPlay \<and> barrier s = None \<longrightarrow> s' = s)
     | Panic \<Rightarrow> False)"
proof (cases "co_dialer c = None \<or> co_forwarder c = None")
  case True
  then show ?thesis by (cases "co_dialer c"; cases "co_forwarder c") (simp_all add: Prepare_def)
next
  case False
  then obtain d f where df: "co_dialer c = Some d" "co_forwarder c = Some f" by auto
  let ?begun = "BeginTransfer s (pe_now env) olds (tc_MaxPendingCommands (co_config c))"
  show ?thesis
  proof (cases "canTransition (state s) StateTransferBarrier")
    case True
    then obtain s1 where "?begun = (Ok (), s1)"
      using BeginTransfer_cases(1) by blast
    from Prepare_behind_barrier [OF assms df this] obtain r opened c' s' where
      r: "Prepare env c s identity olds = Some (r, opened, c', s')"
      and outcome: "case r of Ok p \<Rightarrow> prepared_well env c identity p opened c' s'
        | Fail err \<Rightarrow> prepare_undone opened s' | Panic \<Rightarrow> False" by blast
    have "prepare_undone opened s' \<Longrightarrow> state s = StateLimboPlay \<and> barrier s = None \<longrightarrow> s' = s"
      by (simp add: prepare_undone_def)
    with r outcome True df show ?thesis by (cases r) (simp_all add: enters_barrier)
  next
    case False
    then obtain err s1 where "?begun = (Fail err, s1)"
      by (simp add: BeginTransfer_def transitionLocked_def)
    with BeginTransfer_cases(2) [OF this] df False show ?thesis by (simp add: Prepare_def enters_barrier)
  qed
qed

text \<open>A backend that accepts the login, sends one packet of configuration and finishes.\<close>

definition sample_env :: "tcp prepare_env" where
  "sample_env =
     \<lparr>pe_net = plain_net, pe_error_text = (\<lambda>e. ''e''), pe_hmac = (\<lambda>k m. replicate 32 0), pe_json_text = (\<lambda>m. None),
      pe_ctx_Err = (\<lambda>timeout t. None),
      pe_dial = (\<lambda>timeout address. Ok (sample_conn,
        frame (SuccessProfilePayload sample_uid ''Bob'' []) @ frame [5, 1, 2] @ frame FinishPayload, EOF)),
      pe_now = 0, pe_health_now = 0, pe_during_login = (\<lambda>s. s), pe_during_configuration = (\<lambda>s. s)\<rparr>"

definition sample_coordinator :: Coordinator where
  "sample_coordinator = NewCoordinator (Some sample_dialer) (Some \<lparr>secret = [1]\<rparr>)
     \<lparr>tc_MaxPendingCommands = 4, tc_BarrierTimeout = 0, tc_Login = \<lparr>lc_Timeout = 0\<rparr>,
      tc_Configuration = \<lparr>cc_Timeout = 0, cc_MaxPackets = 0, cc_MaxBytes = 0\<rparr>\<rparr>"

definition sample_identity :: PlayerIdentity where
  "sample_identity = \<lparr>Address = ''10.0.0.1'', UUID = sample_uid, Username = ''Bob'', Properties = []\<rparr>"

lemma sample_prepare_packets:
  "(case Prepare sample_env sample_coordinator limbo_session sample_identity [1] of
      Some (Ok p, _) \<Rightarrow> pr_packets p = [[5, 1, 2]]
    | _ \<Rightarrow> False)"
  by code_simp

theorem Prepare_outcome_witness:
  "\<exists>p opened c' s'. Prepare sample_env sample_coordinator limbo_session sample_identity [1] = Some (Ok p, opened, c', s') \<and>
     pr_packets p = [[5, 1, 2]] \<and> prepared_well sample_env sample_coordinator sample_identity p opened c' s'"
proof -
  have idle: "inputs_only (\<lambda>s. s)"
    unfolding inputs_only_def by (intro allI exI [of _ "[]"]) simp
  have "\<exists>r opened c' s'. Prepare sample_env sample_coordinator limbo_session sample_identity [1] = Some (r, opened, c', s') \<and>
    (case r of
       Ok p \<Rightarrow> prepared_well sample_env sample_coordinator sample_identity p opened c' s'
     | Fail err \<Rightarrow>
         if co_dialer sample_coordinator = None \<or> co_forwarder sample_coordinator = None \<or>
            state limbo_session \<notin> {StateLimboPlay, StateBackendPlay}
         then opened = None \<and> c' = sample_coordinator \<and> s' = limbo_session
         else prepare_undone opened s' \<and>
           (state limbo_session = StateLimboPlay \<and> barrier limbo_session = None \<longrightarrow> s' = limbo_session)
     | Panic \<Rightarrow> False)"
    by (rule Prepare_outcome)
      (simp_all add: sample_env_def plain_net_def net_safe_def tcp_write_def idle min_def split: list.split)
  then obtain r opened c' s' where
    r: "Prepare sample_env sample_coordinator limbo_session sample_identity [1] = Some (r, opened, c', s')"
    and outcome: "case r of Ok p \<Rightarrow> prepared_well sample_env sample_coordinator sample_identity p opened c' s'
      | Fail err \<Rightarrow> True | Panic \<Rightarrow> False"
    by (fastforce split: res.splits)
  obtain p where "r = Ok p" "pr_packets p = [[5, 1, 2]]"
    using sample_prepare_packets unfolding r by (cases r) simp_all
  with r outcome show ?thesis by auto
qed

section \<open>The replay at the backend\<close>

lemma ReplayPayloads_eq:
  "ReplayPayloads replay =
     (case rp_Position replay of
        None \<Rightarrow> []
      | Some p \<Rightarrow> [ServerboundPositionLookPayload (pos_X p) (pos_Y p) (pos_Z p) (pos_Yaw p) (pos_Pitch p) (pos_OnGround p)]) @
     map (\<lambda>c. PlayerCommandPayload (EntityID c) (ActionID c) (CommandData c)) (rp_Commands replay)"
proof -
  have "foldl (\<lambda>payloads c. payloads @ [f c]) acc cs = acc @ map f cs" for f :: "PlayerCommand \<Rightarrow> bytes" and acc cs
    by (induction cs arbitrary: acc) simp_all
  then show ?thesis by (simp add: ReplayPayloads_def Let_def split: option.split)
qed

text \<open>Inputs as the packet parsers produce them: finite coordinates, command fields in range.\<close>

definition position_finite :: "Position \<Rightarrow> bool" where
  "position_finite p \<longleftrightarrow> finite64 (pos_X p) \<and> finite64 (pos_Y p) \<and> finite64 (pos_Z p) \<and> finite32 (pos_Yaw p) \<and> finite32 (pos_Pitch p)"

definition command_valid :: "PlayerCommand \<Rightarrow> bool" where
  "command_valid c \<longleftrightarrow> 0 \<le> sint (EntityID c) \<and> 0 \<le> sint (ActionID c) \<and> sint (ActionID c) \<le> 8 \<and> 0 \<le> sint (CommandData c)"

definition input_valid :: "Input \<Rightarrow> bool" where
  "input_valid i =
     (case Kind i of
        InputMovement \<Rightarrow> position_finite (in_Position i)
      | InputPlayerCommand \<Rightarrow> command_valid (Command i)
      | _ \<Rightarrow> True)"

lemma spec_position_finite:
  "list_all input_valid ins \<Longrightarrow> spec_position ins = Some p \<Longrightarrow> position_finite p"
proof (induction ins arbitrary: p rule: rev_induct)
  case Nil
  then show ?case by (simp add: spec_position_def movements_def)
next
  case (snoc i ins)
  show ?case
  proof (cases "Kind i = InputMovement")
    case True
    then have "position_finite (in_Position i)" using snoc.prems(1) by (simp add: input_valid_def)
    then show ?thesis
      using snoc True by (auto simp: spec_position_snoc position_finite_def split: option.splits if_splits)
  next
    case False
    then show ?thesis using snoc by (simp add: spec_position_snoc)
  qed
qed

lemma spec_commands_valid:
  assumes "list_all input_valid ins"
  shows "list_all command_valid (spec_commands k ins)"
proof -
  have "list_all command_valid (map Command (filter (\<lambda>i. Kind i = InputPlayerCommand) ins))"
    using assms by (auto simp: list_all_iff input_valid_def)
  then show ?thesis unfolding spec_commands_def list_all_iff using in_set_takeD by fastforce
qed

definition movement_of :: "Position \<Rightarrow> Movement" where
  "movement_of p = \<lparr>mv_X = pos_X p, mv_Y = pos_Y p, mv_Z = pos_Z p, mv_Yaw = pos_Yaw p, mv_Pitch = pos_Pitch p,
     mv_OnGround = pos_OnGround p, mv_HasLook = True\<rparr>"

lemma replay_decodes:
  assumes "BeginTransfer s now ids k = (Ok (), s0)" "runs session_step s0 es t" "list_all barrier_call es"
    "list_all input_valid (inputs_of es)" "ReleaseTransfer t = (Ok replay, t')"
  shows "\<exists>moves cmds. ReplayPayloads replay = moves @ cmds \<and>
    map DecodeMovement moves =
      (case spec_position (inputs_of es) of None \<Rightarrow> [] | Some p \<Rightarrow> [Ok (movement_of p)]) \<and>
    map ParsePlayerCommand cmds = map Ok (spec_commands k (inputs_of es))"
proof -
  have "t = up now ids k es" using barrier_runs_up [OF assms(1-3)] .
  then have replay: "replay = \<lparr>rp_Position = spec_position (inputs_of es), rp_Commands = spec_commands k (inputs_of es)\<rparr>"
    using assms(5) by (simp add: ReleaseTransfer_up split: if_splits)
  have "map ParsePlayerCommand (map (\<lambda>c. PlayerCommandPayload (EntityID c) (ActionID c) (CommandData c))
      (spec_commands k (inputs_of es))) = map Ok (spec_commands k (inputs_of es))"
    using spec_commands_valid [OF assms(4), of k]
    by (auto simp: list_all_iff command_valid_def ParsePlayerCommand_roundtrip)
  moreover have "spec_position (inputs_of es) = Some p \<Longrightarrow>
      DecodeMovement (ServerboundPositionLookPayload (pos_X p) (pos_Y p) (pos_Z p) (pos_Yaw p) (pos_Pitch p) (pos_OnGround p)) =
      Ok (movement_of p)" for p
    using spec_position_finite [OF assms(4)] by (simp add: position_finite_def DecodeMovement_position_look movement_of_def)
  ultimately show ?thesis
    by (intro exI [of _ "case spec_position (inputs_of es) of None \<Rightarrow> []
          | Some p \<Rightarrow> [ServerboundPositionLookPayload (pos_X p) (pos_Y p) (pos_Z p) (pos_Yaw p) (pos_Pitch p) (pos_OnGround p)]"]
        exI [of _ "map (\<lambda>c. PlayerCommandPayload (EntityID c) (ActionID c) (CommandData c)) (spec_commands k (inputs_of es))"])
      (simp add: ReplayPayloads_eq replay split: option.split)
qed

text \<open>
  The backend sees what the player did. The payloads of a released transfer are, in the
  backend's parsers, one movement to the player's last position, facing where the player last
  looked, if the player moved at all, followed by the player's first commands up to the
  limit, in order and nothing else.
\<close>

theorem replay_reaches_backend:
  assumes "BeginTransfer s now ids k = (Ok (), s0)" "runs session_step s0 es t" "list_all barrier_call es"
    "list_all input_valid (inputs_of es)" "ReleaseTransfer t = (Ok replay, t')"
  shows "\<exists>moves cmds. ReplayPayloads replay = moves @ cmds \<and>
    map DecodeMovement moves =
      (case spec_position (inputs_of es) of None \<Rightarrow> [] | Some p \<Rightarrow> [Ok (movement_of p)]) \<and>
    map ParsePlayerCommand cmds = map Ok (spec_commands k (inputs_of es))"
  using assms by (rule replay_decodes)

theorem replay_reaches_backend_witness:
  "\<exists>replay moves cmds. ReplayPayloads replay = moves @ cmds \<and>
    map DecodeMovement moves = [Ok (movement_of (zero_Position\<lparr>pos_X := 7\<rparr>))] \<and>
    map ParsePlayerCommand cmds = [Ok \<lparr>EntityID = 1, ActionID = 2, CommandData = 3\<rparr>]"
proof -
  obtain s0 t where run: "BeginTransfer limbo_session 10 [42] 2 = (Ok (), s0)" "runs session_step s0 example_calls t"
    using example_run by blast
  have "t = up 10 [42] 2 example_calls" using barrier_runs_up [OF run example_history(1)] .
  then obtain replay t' where release: "ReleaseTransfer t = (Ok replay, t')"
    by (simp add: ReleaseTransfer_up example_history(2) BarrierReady_def)
  have valid: "list_all input_valid (inputs_of example_calls)"
    by (simp add: example_calls_def inputs_of_def input_valid_def example_input_def position_finite_def finite64_def finite32_def
        zero_Position_def command_valid_def)
  obtain moves cmds where m: "ReplayPayloads replay = moves @ cmds"
    "map DecodeMovement moves = (case spec_position (inputs_of example_calls) of None \<Rightarrow> [] | Some p \<Rightarrow> [Ok (movement_of p)])"
    "map ParsePlayerCommand cmds = map Ok (spec_commands 2 (inputs_of example_calls))"
    using replay_reaches_backend [OF run example_history(1) valid release] by blast
  show ?thesis
    using m unfolding example_history option.case list.map
    by (intro exI [of _ replay] exI [of _ moves] exI [of _ cmds] conjI)
qed

end
