(* ===== verification/Bridge.thy ===== *)
theory Bridge
  imports Link Play "HOL-Library.Multiset"
begin

text \<open>
  The play bridge, \<open>internal/bridge/play.go\<close>: it forwards packets between the player and the
  backend and lets a keepalive answer through only when the backend has asked for it. The
  \<open>select\<close> of \<open>RunPlay\<close> is a sequence of events in the order it takes them: the context ends, the
  backend's reader delivers what it read next, or the player's reader delivers a frame.

  The theorems show that packets pass unchanged and in order in both directions, and that
  every keepalive answer that reaches the backend answers a request of its own. The interrupt
  that ends blocked reads and writes with the context is a small machine of its own.
\<close>

section \<open>Definitions\<close>

text \<open>\<open>bridge.Config\<close> has one field; zero and negative values mean sixteen.\<close>

definition MaxPendingKeepAlives :: "int \<Rightarrow> int" where
  "MaxPendingKeepAlives n = (if n \<le> 0 then 16 else n)"

record ('b, 'c) bridge =
  br_backend :: "'b Transport"
  br_client :: "'c Transport"
  pendingKeepAlives :: "int64 set"

text \<open>\<open>ctx\<close> is the context's error at that moment, if it has ended.\<close>

datatype bridge_event =
    ContextEnds err
  | BackendFrame "err option"
  | ClientFrame "bytes res" "err option"

definition bridge_read_failed :: "err option \<Rightarrow> string \<Rightarrow> err \<Rightarrow> err" where
  "bridge_read_failed ctx what err = (case ctx of Some c \<Rightarrow> c | None \<Rightarrow> ErrWrap what err)"

text \<open>A frame from the backend: the keepalive it may be is noted, the frame goes to the player.\<close>

definition forward_to_client ::
    "'c net \<Rightarrow> int \<Rightarrow> bytes \<Rightarrow> ('b, 'c) bridge \<Rightarrow> unit res \<times> ('b, 'c) bridge" where
  "forward_to_client ec maxPending payload s =
     (case PacketID payload of
        Fail err \<Rightarrow> (Fail err, s)
      | Panic \<Rightarrow> (Panic, s)
      | Ok (packet_id, body) \<Rightarrow>
          if packet_id = ClientboundKeepAliveID \<and> (length body \<noteq> 8 \<or> int (card (pendingKeepAlives s)) \<ge> maxPending)
          then (Fail ErrKeepAliveLimit, s)
          else
            (case (if packet_id = ClientboundKeepAliveID
                   then rbind (Uint64 body) (\<lambda>i. Ok (s\<lparr>pendingKeepAlives := insert i (pendingKeepAlives s)\<rparr>))
                   else Ok s) of
               Fail err \<Rightarrow> (Fail err, s)
             | Panic \<Rightarrow> (Panic, s)
             | Ok s \<Rightarrow>
                 (case net_WriteFrame ec (br_client s) payload of
                    (Ok _, t) \<Rightarrow> (Ok (), s\<lparr>br_client := t\<rparr>)
                  | (Fail err, t) \<Rightarrow> (Fail (ErrWrap ''write client play packet'' err), s\<lparr>br_client := t\<rparr>)
                  | (Panic, t) \<Rightarrow> (Panic, s\<lparr>br_client := t\<rparr>))))"

definition forward_to_backend ::
    "'b net \<Rightarrow> bytes \<Rightarrow> ('b, 'c) bridge \<Rightarrow> unit res \<times> ('b, 'c) bridge" where
  "forward_to_backend eb payload s =
     (case PacketID payload of
        Fail err \<Rightarrow> (Fail err, s)
      | Panic \<Rightarrow> (Panic, s)
      | Ok (packet_id, _) \<Rightarrow>
          (case (if packet_id = ServerboundKeepAliveID
                 then rbind (ParseKeepAlive payload) (\<lambda>i.
                        if i \<notin> pendingKeepAlives s then Fail ErrUnexpectedBackendKeepAlive
                        else Ok (s\<lparr>pendingKeepAlives := pendingKeepAlives s - {i}\<rparr>))
                 else Ok s) of
             Fail err \<Rightarrow> (Fail err, s)
           | Panic \<Rightarrow> (Panic, s)
           | Ok s \<Rightarrow>
               (case net_WriteFrame eb (br_backend s) payload of
                  (Ok _, t) \<Rightarrow> (Ok (), s\<lparr>br_backend := t\<rparr>)
                | (Fail err, t) \<Rightarrow> (Fail (ErrWrap ''write backend play packet'' err), s\<lparr>br_backend := t\<rparr>)
                | (Panic, t) \<Rightarrow> (Panic, s\<lparr>br_backend := t\<rparr>))))"

definition bridge_handle ::
    "'b net \<Rightarrow> 'c net \<Rightarrow> int \<Rightarrow> bridge_event \<Rightarrow> ('b, 'c) bridge \<Rightarrow> unit res \<times> ('b, 'c) bridge" where
  "bridge_handle eb ec maxPending ev s =
     (case ev of
        ContextEnds err \<Rightarrow> (Fail err, s)
      | BackendFrame ctx \<Rightarrow>
          (case net_ReadFrame eb (br_backend s) of
             (Ok payload, t) \<Rightarrow> forward_to_client ec maxPending payload (s\<lparr>br_backend := t\<rparr>)
           | (Fail err, t) \<Rightarrow> (Fail (bridge_read_failed ctx ''read backend play packet'' err), s\<lparr>br_backend := t\<rparr>)
           | (Panic, t) \<Rightarrow> (Panic, s\<lparr>br_backend := t\<rparr>))
      | ClientFrame (Ok payload) ctx \<Rightarrow> forward_to_backend eb payload s
      | ClientFrame (Fail err) ctx \<Rightarrow> (Fail (bridge_read_failed ctx ''read client play packet'' err), s)
      | ClientFrame Panic ctx \<Rightarrow> (Panic, s))"

text \<open>
  The loop over the events: it returns with the first that does not succeed; \<open>None\<close> is a bridge
  that is still running when the events end.
\<close>

fun RunPlay_loop ::
    "'b net \<Rightarrow> 'c net \<Rightarrow> int \<Rightarrow> bridge_event list \<Rightarrow> ('b, 'c) bridge \<Rightarrow> unit res option \<times> ('b, 'c) bridge" where
  "RunPlay_loop eb ec maxPending [] s = (None, s)"
| "RunPlay_loop eb ec maxPending (ev # evs) s =
     (case bridge_handle eb ec maxPending ev s of
        (Ok _, s) \<Rightarrow> RunPlay_loop eb ec maxPending evs s
      | (r, s) \<Rightarrow> (Some r, s))"

definition RunPlay ::
    "'b net \<Rightarrow> 'c net \<Rightarrow> int \<Rightarrow> bridge_event list \<Rightarrow> 'c Transport \<Rightarrow> 'b Transport \<Rightarrow> unit res option \<times> ('b, 'c) bridge" where
  "RunPlay eb ec config evs client backend =
     RunPlay_loop eb ec (MaxPendingKeepAlives config) evs
       \<lparr>br_backend = backend, br_client = client, pendingKeepAlives = {}\<rparr>"

text \<open>
  \<open>interruptOnDone\<close>: a goroutine waits for the context or for the returned function, which closes
  \<open>interrupt\<close>. When it takes the context it lets the deadlines of the transports expire one after
  the other, passing over those that are nil.
\<close>

datatype watcher = Watching | Expiring nat | WatchEnded

record bridge_interrupt =
  bi_watcher :: watcher
  bi_closed :: bool
  bi_expired :: "nat set"

datatype watch_event = WatchContextDone | ExpireNext | WatchStopped | StopInterrupt

definition bridge_interruptOnDone :: bridge_interrupt where
  "bridge_interruptOnDone = \<lparr>bi_watcher = Watching, bi_closed = False, bi_expired = {}\<rparr>"

fun watch_step :: "'t option list \<Rightarrow> bridge_interrupt \<Rightarrow> watch_event \<Rightarrow> bridge_interrupt \<Rightarrow> bool" where
  "watch_step transports w WatchContextDone v \<longleftrightarrow> bi_watcher w = Watching \<and> v = w\<lparr>bi_watcher := Expiring 0\<rparr>"
| "watch_step transports w ExpireNext v \<longleftrightarrow>
     (\<exists>k. bi_watcher w = Expiring k \<and>
       v = (if k \<ge> length transports then w\<lparr>bi_watcher := WatchEnded\<rparr>
            else if transports ! k = None then w\<lparr>bi_watcher := Expiring (k + 1)\<rparr>
            else w\<lparr>bi_watcher := Expiring (k + 1), bi_expired := insert k (bi_expired w)\<rparr>))"
| "watch_step transports w WatchStopped v \<longleftrightarrow>
     bi_watcher w = Watching \<and> bi_closed w \<and> v = w\<lparr>bi_watcher := WatchEnded\<rparr>"
| "watch_step transports w StopInterrupt v \<longleftrightarrow> \<not> bi_closed w \<and> v = w\<lparr>bi_closed := True\<rparr>"

section \<open>What the bridge has forwarded\<close>

text \<open>The frames received from the backend and sent to it, in order.\<close>

fun received :: "exchange list \<Rightarrow> bytes list" where
  "received [] = []"
| "received (Recv f # xs) = f # received xs"
| "received (_ # xs) = received xs"

fun sent_frames :: "exchange list \<Rightarrow> bytes list" where
  "sent_frames [] = []"
| "sent_frames (Sent f # xs) = f # sent_frames xs"
| "sent_frames (_ # xs) = sent_frames xs"

text \<open>The player's frames among the events.\<close>

fun client_payloads :: "bridge_event list \<Rightarrow> bytes list" where
  "client_payloads [] = []"
| "client_payloads (ClientFrame (Ok payload) ctx # evs) = payload # client_payloads evs"
| "client_payloads (_ # evs) = client_payloads evs"

text \<open>The identifiers the backend asked for, and those the player's answers carried to it.\<close>

definition keepalive_requests :: "bytes list \<Rightarrow> int64 list" where
  "keepalive_requests fs =
     concat (map (\<lambda>f. case PacketID f of
         Ok (packet_id, body) \<Rightarrow>
           if packet_id = ClientboundKeepAliveID then (case Uint64 body of Ok i \<Rightarrow> [i] | _ \<Rightarrow> []) else []
       | _ \<Rightarrow> []) fs)"

definition keepalive_answers :: "bytes list \<Rightarrow> int64 list" where
  "keepalive_answers fs = concat (map (\<lambda>f. case ParseKeepAlive f of Ok i \<Rightarrow> [i] | _ \<Rightarrow> []) fs)"

lemma received_append [simp]: "received (xs @ ys) = received xs @ received ys"
  by (induction xs rule: received.induct) simp_all

lemma sent_frames_append [simp]: "sent_frames (xs @ ys) = sent_frames xs @ sent_frames ys"
  by (induction xs rule: sent_frames.induct) simp_all

lemma client_payloads_append [simp]: "client_payloads (es @ fs) = client_payloads es @ client_payloads fs"
  by (induction es rule: client_payloads.induct) simp_all

lemma keepalive_ids_append [simp]:
  "keepalive_requests (fs @ gs) = keepalive_requests fs @ keepalive_requests gs"
  "keepalive_answers (fs @ gs) = keepalive_answers fs @ keepalive_answers gs"
  "keepalive_requests [] = []" "keepalive_answers [] = []"
  by (simp_all add: keepalive_requests_def keepalive_answers_def)

section \<open>One event\<close>

lemma forward_to_client_Ok:
  assumes "forward_to_client ec m payload s = (Ok (), s')"
  shows "br_backend s' = br_backend s \<and> net_WriteFrame ec (br_client s) payload = (Ok (), br_client s') \<and>
    (keepalive_requests [payload] = [] \<and> pendingKeepAlives s' = pendingKeepAlives s \<or>
     (\<exists>i. keepalive_requests [payload] = [i] \<and> int (card (pendingKeepAlives s)) < m \<and>
        pendingKeepAlives s' = insert i (pendingKeepAlives s)))"
proof -
  obtain packet_id body where p: "PacketID payload = Ok (packet_id, body)"
    using assms by (auto simp: forward_to_client_def split: res.splits)
  show ?thesis
  proof (cases "packet_id = ClientboundKeepAliveID")
    case True
    then have len: "length body = 8" and m: "int (card (pendingKeepAlives s)) < m"
      using assms p by (auto simp: forward_to_client_def split: if_splits)
    then obtain i where i: "Uint64 body = Ok i" by (simp add: Uint64_def)
    then have "forward_to_client ec m payload s =
      (case net_WriteFrame ec (br_client s) payload of
         (Ok _, t) \<Rightarrow> (Ok (), s\<lparr>pendingKeepAlives := insert i (pendingKeepAlives s), br_client := t\<rparr>)
       | (Fail err, t) \<Rightarrow> (Fail (ErrWrap ''write client play packet'' err),
           s\<lparr>pendingKeepAlives := insert i (pendingKeepAlives s), br_client := t\<rparr>)
       | (Panic, t) \<Rightarrow> (Panic, s\<lparr>pendingKeepAlives := insert i (pendingKeepAlives s), br_client := t\<rparr>))"
      using p True len m by (simp add: forward_to_client_def split: prod.split res.split)
    then show ?thesis using assms p True i m by (auto simp: keepalive_requests_def split: prod.splits res.splits)
  next
    case False
    then show ?thesis using assms p by (auto simp: forward_to_client_def keepalive_requests_def split: prod.splits res.splits)
  qed
qed

lemma forward_to_backend_Ok:
  assumes "forward_to_backend eb payload s = (Ok (), s')"
  shows "br_client s' = br_client s \<and> net_WriteFrame eb (br_backend s) payload = (Ok (), br_backend s') \<and>
    (keepalive_answers [payload] = [] \<and> pendingKeepAlives s' = pendingKeepAlives s \<or>
     (\<exists>i \<in> pendingKeepAlives s. keepalive_answers [payload] = [i] \<and>
        pendingKeepAlives s' = pendingKeepAlives s - {i}))"
proof -
  obtain packet_id body where p: "PacketID payload = Ok (packet_id, body)"
    using assms by (auto simp: forward_to_backend_def split: res.splits)
  show ?thesis
  proof (cases "packet_id = ServerboundKeepAliveID")
    case True
    then obtain i where i: "ParseKeepAlive payload = Ok i"
      using assms p by (cases "ParseKeepAlive payload") (auto simp: forward_to_backend_def)
    then have "i \<in> pendingKeepAlives s"
      using assms p True by (auto simp: forward_to_backend_def split: if_splits)
    then show ?thesis using assms p True i
      by (auto simp: forward_to_backend_def keepalive_answers_def split: prod.splits res.splits)
  next
    case False
    then have "keepalive_answers [payload] = []"
      using p by (auto simp: keepalive_answers_def ParseKeepAlive_def guard_def split: res.splits)
    then show ?thesis using assms p False by (auto simp: forward_to_backend_def split: prod.splits res.splits)
  qed
qed

text \<open>The events that the loop goes on after.\<close>

definition bridge_step :: "'b net \<Rightarrow> 'c net \<Rightarrow> int \<Rightarrow> ('b, 'c) bridge \<Rightarrow> bridge_event \<Rightarrow> ('b, 'c) bridge \<Rightarrow> bool" where
  "bridge_step eb ec m s ev s' \<longleftrightarrow> bridge_handle eb ec m ev s = (Ok (), s')"

lemma RunPlay_loop_runs:
  "case RunPlay_loop eb ec m evs s of (r, s') \<Rightarrow>
     \<exists>n s1. n \<le> length evs \<and> runs (bridge_step eb ec m) s (take n evs) s1 \<and>
       (case r of None \<Rightarrow> n = length evs \<and> s' = s1
        | Some x \<Rightarrow> n < length evs \<and> x \<noteq> Ok () \<and> bridge_handle eb ec m (evs ! n) s1 = (x, s'))"
proof (induction evs arbitrary: s)
  case (Cons ev evs)
  obtain x s1 where x: "bridge_handle eb ec m ev s = (x, s1)" by fastforce
  show ?case
  proof (cases "x = Ok ()")
    case True
    obtain r s' where r: "RunPlay_loop eb ec m evs s1 = (r, s')" by fastforce
    then obtain n s2 where "n \<le> length evs" "runs (bridge_step eb ec m) s1 (take n evs) s2"
      "case r of None \<Rightarrow> n = length evs \<and> s' = s2
       | Some x \<Rightarrow> n < length evs \<and> x \<noteq> Ok () \<and> bridge_handle eb ec m (evs ! n) s2 = (x, s')"
      using Cons.IH [of s1] by auto
    moreover have "bridge_step eb ec m s ev s1" using x True by (simp add: bridge_step_def)
    ultimately show ?thesis
      using x r True by (cases r) (auto intro!: exI [of _ "Suc n"] exI [of _ s2] runs_Cons)
  next
    case False
    then show ?thesis using x by (cases x) (auto intro!: exI [of _ 0])
  qed
qed simp

section \<open>Any number of events\<close>

definition forwarded ::
    "'b net \<Rightarrow> 'c net \<Rightarrow> 'b Transport \<Rightarrow> 'c Transport \<Rightarrow> bridge_event list \<Rightarrow> exchange list \<Rightarrow> ('b, 'c) bridge \<Rightarrow> bool" where
  "forwarded eb ec backend client evs xs s \<longleftrightarrow>
     length xs = length evs \<and> talk eb backend xs (br_backend s) \<and>
     talk ec client (map Sent (received xs)) (br_client s) \<and> sent_frames xs = client_payloads evs"

definition keepalives_matched :: "int \<Rightarrow> exchange list \<Rightarrow> int64 set \<Rightarrow> bool" where
  "keepalives_matched m xs p \<longleftrightarrow> finite p \<and> int (card p) \<le> m \<and>
     mset (keepalive_answers (sent_frames xs)) + mset_set p \<subseteq># mset (keepalive_requests (received xs))"

lemma bridge_stepE:
  assumes "bridge_step eb ec m s ev s'"
  obtains (backend) ctx payload t where "ev = BackendFrame ctx" "net_ReadFrame eb (br_backend s) = (Ok payload, t)"
      "forward_to_client ec m payload (s\<lparr>br_backend := t\<rparr>) = (Ok (), s')"
    | (client) ctx payload where "ev = ClientFrame (Ok payload) ctx" "forward_to_backend eb payload s = (Ok (), s')"
  using assms
  by (cases ev) (auto simp: bridge_step_def bridge_handle_def split: prod.splits res.splits)

lemma mset_set_insert_le: "finite p \<Longrightarrow> mset_set (insert i p) \<subseteq># add_mset i (mset_set p)"
  by (cases "i \<in> p") (simp_all add: insert_absorb)

lemma keepalives_request:
  assumes "keepalives_matched m xs p" "keepalive_requests [payload] = [i]" "int (card p) < m"
  shows "keepalives_matched m (xs @ [Recv payload]) (insert i p)"
proof -
  have "int (card (insert i p)) \<le> m" using assms(1,3) card_insert_le_m1 by (auto simp: keepalives_matched_def card_insert_if)
  moreover have "mset (keepalive_answers (sent_frames xs)) + mset_set (insert i p) \<subseteq>#
      add_mset i (mset (keepalive_requests (received xs)))"
    using assms(1) mset_set_insert_le [of p i]
    by (auto simp: keepalives_matched_def intro: subset_mset.order_trans
        [OF subset_mset.add_left_mono [of "mset_set (insert i p)" "add_mset i (mset_set p)"]])
  ultimately show ?thesis using assms(1,2) by (simp add: keepalives_matched_def)
qed

lemma keepalives_answer:
  assumes "keepalives_matched m xs p" "keepalive_answers [payload] = [i]" "i \<in> p"
  shows "keepalives_matched m (xs @ [Sent payload]) (p - {i})"
proof -
  have p: "mset_set p = add_mset i (mset_set (p - {i}))"
    using assms(1,3) by (simp add: keepalives_matched_def mset_set.remove)
  have "mset (keepalive_answers (sent_frames (xs @ [Sent payload]))) + mset_set (p - {i}) =
      mset (keepalive_answers (sent_frames xs)) + mset_set p"
    unfolding p using assms(2) by simp
  moreover have "card (p - {i}) \<le> card p" by (rule card_Diff1_le)
  ultimately show ?thesis using assms(1) unfolding keepalives_matched_def by (simp add: add.assoc)
qed

lemma keepalives_other:
  "keepalives_matched m xs p \<Longrightarrow> keepalive_requests [payload] = [] \<Longrightarrow> keepalives_matched m (xs @ [Recv payload]) p"
  "keepalives_matched m xs p \<Longrightarrow> keepalive_answers [payload] = [] \<Longrightarrow> keepalives_matched m (xs @ [Sent payload]) p"
  by (simp_all add: keepalives_matched_def)


lemma take_snoc: "take n (xs @ [x]) = (if n \<le> length xs then take n xs else xs @ [x])"
  by auto

lemma bridge_runs_forwarded:
  "runs (bridge_step eb ec m) s evs s' \<Longrightarrow> keepalives_matched m [] (pendingKeepAlives s) \<Longrightarrow>
     \<exists>xs. forwarded eb ec (br_backend s) (br_client s) evs xs s' \<and> keepalives_matched m xs (pendingKeepAlives s') \<and>
       (\<forall>n. mset (keepalive_answers (sent_frames (take n xs))) \<subseteq># mset (keepalive_requests (received (take n xs))))"
    (is "_ \<Longrightarrow> _ \<Longrightarrow> \<exists>xs. ?F s evs xs s' \<and> ?K xs s' \<and> (\<forall>n. ?Q (take n xs))")
proof (induction rule: runs.induct)
  case (runs_snoc s evs s1 ev s2)
  then obtain xs where F: "?F s evs xs s1" and K: "?K xs s1" and Q: "\<forall>n. ?Q (take n xs)" by blast
  from \<open>bridge_step eb ec m s1 ev s2\<close> obtain x where x: "?F s (evs @ [ev]) (xs @ [x]) s2" "?K (xs @ [x]) s2"
  proof (cases rule: bridge_stepE)
    case (backend ctx payload t)
    note c = forward_to_client_Ok [OF backend(3)]
    have "talk eb (br_backend s) (xs @ [Recv payload]) (br_backend s2)"
      using F backend(2) c by (auto simp: forwarded_def intro: runs.runs_snoc)
    moreover have "talk ec (br_client s) (map Sent (received xs) @ [Sent payload]) (br_client s2)"
      using F c by (auto simp: forwarded_def intro: runs.runs_snoc)
    ultimately have "?F s (evs @ [ev]) (xs @ [Recv payload]) s2" using F backend(1) by (simp add: forwarded_def)
    moreover have "?K (xs @ [Recv payload]) s2" using K c keepalives_request keepalives_other(1) by fastforce
    ultimately show ?thesis using that by blast
  next
    case (client ctx payload)
    note c = forward_to_backend_Ok [OF client(2)]
    have "talk eb (br_backend s) (xs @ [Sent payload]) (br_backend s2)"
      using F c by (auto simp: forwarded_def intro: runs.runs_snoc)
    then have "?F s (evs @ [ev]) (xs @ [Sent payload]) s2" using F c client(1) by (simp add: forwarded_def)
    moreover have "?K (xs @ [Sent payload]) s2" using K c keepalives_answer keepalives_other(2) by fastforce
    ultimately show ?thesis using that by blast
  qed
  moreover have "?Q (xs @ [x])"
    using x(2) unfolding keepalives_matched_def by (meson mset_subset_eq_add_left subset_mset.order_trans)
  then have "\<forall>n. ?Q (take n (xs @ [x]))" using Q unfolding take_snoc by auto
  ultimately show ?case by blast
qed (auto simp: forwarded_def intro!: exI [of _ "[]"])


section \<open>The interrupt\<close>

text \<open>
  A transport is interrupted only when the goroutine has taken the context, and once that
  goroutine has ended every transport that is not nil has been, or none.
\<close>

definition live_before :: "'t option list \<Rightarrow> nat \<Rightarrow> nat set" where
  "live_before transports k = {i. i < k \<and> i < length transports \<and> transports ! i \<noteq> None}"

lemma live_before_step:
  "live_before transports 0 = {}"
  "live_before transports (Suc k) =
     (if k < length transports \<and> transports ! k \<noteq> None then insert k (live_before transports k) else live_before transports k)"
  by (auto simp: live_before_def less_Suc_eq)

lemma live_before_all:
  "k \<ge> length transports \<Longrightarrow> live_before transports k = live_before transports (length transports)"
  by (auto simp: live_before_def)

definition watch_inv :: "'t option list \<Rightarrow> bridge_interrupt \<Rightarrow> bool" where
  "watch_inv transports w \<longleftrightarrow>
     (case bi_watcher w of
        Watching \<Rightarrow> bi_expired w = {}
      | Expiring k \<Rightarrow> bi_expired w = live_before transports k
      | WatchEnded \<Rightarrow> bi_expired w = live_before transports (length transports) \<or> bi_closed w \<and> bi_expired w = {})"

lemma watch_inv_step: "watch_inv transports w \<Longrightarrow> watch_step transports w ev v \<Longrightarrow> watch_inv transports v"
  by (cases ev; cases "bi_watcher w") (auto simp: watch_inv_def live_before_step dest: live_before_all split: if_splits)

interpretation wi: invariant "\<lambda>w. w = bridge_interruptOnDone" "watch_step transports" "watch_inv transports" for transports
  by unfold_locales (simp add: watch_inv_def bridge_interruptOnDone_def, rule watch_inv_step)

lemma interrupt_all_or_none:
  assumes "runs (watch_step transports) bridge_interruptOnDone evs w" "bi_watcher w = WatchEnded"
  shows "bi_expired w = {i. i < length transports \<and> transports ! i \<noteq> None} \<or> bi_closed w \<and> bi_expired w = {}"
  using wi.inv_reachable [OF refl assms(1)] assms(2) by (simp add: watch_inv_def live_before_def)

section \<open>Properties\<close>

text \<open>
  C25: the bridge is faithful. Whatever the backend and the player send, and however their frames
  interleave, every frame read from the backend up to the event at which \<open>RunPlay\<close> returns has
  been written to the player unchanged and in order, and every frame of the player to the
  backend; there are never more keepalives outstanding than configured; and at every moment
  the answers passed to the backend are among the requests it had made by then, each request
  answered at most once.
\<close>

theorem bridge_faithful:
  "case RunPlay eb ec config evs client backend of (r, s) \<Rightarrow>
     \<exists>n xs s1. n \<le> length evs \<and> length xs = n \<and> talk eb backend xs (br_backend s1) \<and>
       talk ec client (map Sent (received xs)) (br_client s1) \<and> sent_frames xs = client_payloads (take n evs) \<and>
       int (card (pendingKeepAlives s1)) \<le> MaxPendingKeepAlives config \<and>
       (\<forall>k. mset (keepalive_answers (sent_frames (take k xs))) \<subseteq># mset (keepalive_requests (received (take k xs)))) \<and>
       (case r of None \<Rightarrow> n = length evs \<and> s = s1
        | Some x \<Rightarrow> n < length evs \<and> x \<noteq> Ok () \<and>
            bridge_handle eb ec (MaxPendingKeepAlives config) (evs ! n) s1 = (x, s))"
proof -
  let ?m = "MaxPendingKeepAlives config"
  let ?s0 = "\<lparr>br_backend = backend, br_client = client, pendingKeepAlives = {}\<rparr>"
  obtain r s where r: "RunPlay_loop eb ec ?m evs ?s0 = (r, s)" by fastforce
  obtain n s1 where n: "n \<le> length evs" "runs (bridge_step eb ec ?m) ?s0 (take n evs) s1"
    and last: "case r of None \<Rightarrow> n = length evs \<and> s = s1
      | Some x \<Rightarrow> n < length evs \<and> x \<noteq> Ok () \<and> bridge_handle eb ec ?m (evs ! n) s1 = (x, s)"
    using RunPlay_loop_runs [where eb = eb and ec = ec and m = ?m and evs = evs and s = ?s0] r by auto
  have "keepalives_matched ?m [] (pendingKeepAlives ?s0)"
    by (simp add: keepalives_matched_def MaxPendingKeepAlives_def)
  from bridge_runs_forwarded [OF n(2) this] n(1) last show ?thesis
    unfolding RunPlay_def r forwarded_def keepalives_matched_def prod.case by (auto simp: min_absorb2)
qed

end
