(* ===== verification/Registrar.thy ===== *)
theory Registrar
  imports Handover Limiter Queue BotFilter Status Auth
begin

text \<open>
  The bookkeeping of \<open>internal/server/server.go\<close>: the configuration and its defaults, the
  registers of connections, sessions, transports and admission channels, the limits on
  connections, and the counters behind the metrics. Connections are the keys of the registers;
  sessions, transports and channels are the pointers stored there. Every operation holds the
  server's mutex, so the goroutines interleave between operations; the machine at the end has
  one step for each of them.

  The theorems show that the limits hold at every moment, that the counts of each address are
  exact, and that every accepted connection is accounted for.
\<close>

section \<open>Definitions\<close>

subsection \<open>Configuration\<close>

text \<open>
  What the server asks of a challenge hook besides \<open>Verify\<close>: two methods a hook may have, found by
  a type assertion.
\<close>

record challenge_hook =
  hook_RequiredKeepAlives :: "(PlayerIdentity \<Rightarrow> int) option"
  hook_KeepAliveInterval :: "(PlayerIdentity \<Rightarrow> duration) option"

record ('q, 'f, 'k) ServerConfig =
  sc_MaxConnections :: int
  sc_MaxConnectionsPerIP :: int
  sc_MaxPacketSize :: int
  sc_HandshakeTimeout :: duration
  sc_StatusTimeout :: duration
  sc_LoginTimeout :: duration
  sc_WriteTimeout :: duration
  sc_KeepAliveInterval :: duration
  sc_KeepAliveTimeout :: duration
  sc_Status :: StatusResponse
  sc_TransferCoordinator :: "Coordinator option"
  sc_AdmissionQueue :: "('q, 'f) FIFO option"
  sc_QueueStatusInterval :: duration
  sc_LoginRateLimit :: int
  sc_LoginRateWindow :: duration
  sc_ChallengeHook :: "challenge_hook option"
  sc_ChallengeTimeout :: duration
  sc_BotFilter :: "Manager option"
  sc_OnlineAuthenticator :: "'k Authenticator option"

definition positive_or :: "int \<Rightarrow> int \<Rightarrow> int" where
  "positive_or n d = (if n \<le> 0 then d else n)"

definition server_defaults :: "('q, 'f, 'k) ServerConfig \<Rightarrow> ('q, 'f, 'k) ServerConfig" where
  "server_defaults config = config\<lparr>
     sc_MaxConnections := positive_or (sc_MaxConnections config) 10000,
     sc_MaxPacketSize := positive_or (sc_MaxPacketSize config) DefaultMaxPacketSize,
     sc_MaxConnectionsPerIP := positive_or (sc_MaxConnectionsPerIP config) 16,
     sc_HandshakeTimeout := positive_or (sc_HandshakeTimeout config) (seconds 10),
     sc_StatusTimeout := positive_or (sc_StatusTimeout config) (seconds 10),
     sc_LoginTimeout := positive_or (sc_LoginTimeout config) (seconds 30),
     sc_WriteTimeout := positive_or (sc_WriteTimeout config) (seconds 10),
     sc_KeepAliveInterval := positive_or (sc_KeepAliveInterval config) (seconds 15),
     sc_KeepAliveTimeout := positive_or (sc_KeepAliveTimeout config) (seconds 30),
     sc_QueueStatusInterval := positive_or (sc_QueueStatusInterval config) (seconds 1),
     sc_LoginRateLimit := positive_or (sc_LoginRateLimit config) 10,
     sc_LoginRateWindow := positive_or (sc_LoginRateWindow config) (seconds 10),
     sc_ChallengeTimeout := positive_or (sc_ChallengeTimeout config) (seconds 10)\<rparr>"

subsection \<open>The server\<close>

text \<open>\<open>sem\<close> is the number of tokens in the buffered channel.\<close>

record ('n, 's, 't, 'a, 'q, 'f, 'k) Server =
  srv_config :: "('q, 'f, 'k) ServerConfig"
  srv_sem :: nat
  srv_conns :: "'n set"
  srv_sessions :: "'n \<rightharpoonup> 's"
  srv_clients :: "'n \<rightharpoonup> 't"
  srv_admissions :: "'n \<rightharpoonup> 'a"
  srv_ipConnections :: "string \<rightharpoonup> nat"
  srv_loginLimiter :: Limiter
  srv_accepted :: uint64
  srv_rejectedCap :: uint64
  srv_rejectedIP :: uint64
  srv_rateLimited :: uint64

definition New_Server :: "('q, 'f, 'k) ServerConfig \<Rightarrow> ('n, 's, 't, 'a, 'q, 'f, 'k) Server" where
  "New_Server config =
     (let config = server_defaults config in
      \<lparr>srv_config = config, srv_sem = 0, srv_conns = {}, srv_sessions = Map.empty, srv_clients = Map.empty,
       srv_admissions = Map.empty, srv_ipConnections = Map.empty,
       srv_loginLimiter = New_Limiter (sc_LoginRateLimit config) (sc_LoginRateWindow config),
       srv_accepted = 0, srv_rejectedCap = 0, srv_rejectedIP = 0, srv_rateLimited = 0\<rparr>)"

text \<open>\<open>net.SplitHostPort\<close>; \<open>None\<close> is its error.\<close>

fun last_index :: "char \<Rightarrow> string \<Rightarrow> nat option" where
  "last_index c [] = None"
| "last_index c (x # xs) =
     (case last_index c xs of Some i \<Rightarrow> Some (i + 1) | None \<Rightarrow> if x = c then Some 0 else None)"

fun first_index :: "char \<Rightarrow> string \<Rightarrow> nat option" where
  "first_index c [] = None"
| "first_index c (x # xs) = (if x = c then Some 0 else map_option Suc (first_index c xs))"

definition SplitHostPort :: "string \<Rightarrow> (string \<times> string) option" where
  "SplitHostPort hostport =
     (case last_index CHR '':'' hostport of
        None \<Rightarrow> None
      | Some i \<Rightarrow>
          (case (if hostport ! 0 = CHR ''['' then
                   (case first_index CHR '']'' hostport of
                      None \<Rightarrow> None
                    | Some e \<Rightarrow> if e + 1 = i then Some (take (e - 1) (drop 1 hostport), 1, e + 1) else None)
                 else if CHR '':'' \<in> set (take i hostport) then None
                 else Some (take i hostport, 0, 0)) of
             None \<Rightarrow> None
           | Some (host, j, k) \<Rightarrow>
               if CHR ''['' \<in> set (drop j hostport) \<or> CHR '']'' \<in> set (drop k hostport) then None
               else Some (host, drop (i + 1) hostport)))"

definition remoteHost :: "string \<Rightarrow> string" where
  "remoteHost address = (case SplitHostPort address of Some (host, _) \<Rightarrow> host | None \<Rightarrow> address)"

text \<open>\<open>addr\<close> gives the remote address of a connection, as text.\<close>

definition ip_count :: "('n, 's, 't, 'a, 'q, 'f, 'k) Server \<Rightarrow> string \<Rightarrow> nat" where
  "ip_count s ip = (case srv_ipConnections s ip of None \<Rightarrow> 0 | Some n \<Rightarrow> n)"

definition track :: "('n \<Rightarrow> string) \<Rightarrow> 'n \<Rightarrow> ('n, 's, 't, 'a, 'q, 'f, 'k) Server \<Rightarrow> bool \<times> ('n, 's, 't, 'a, 'q, 'f, 'k) Server" where
  "track addr conn s =
     (let ip = remoteHost (addr conn) in
      if int (ip_count s ip) \<ge> sc_MaxConnectionsPerIP (srv_config s)
      then (False, s\<lparr>srv_rejectedIP := srv_rejectedIP s + 1\<rparr>)
      else (True, s\<lparr>srv_conns := insert conn (srv_conns s),
                    srv_ipConnections := (srv_ipConnections s)(ip \<mapsto> ip_count s ip + 1)\<rparr>))"

definition untrack :: "('n \<Rightarrow> string) \<Rightarrow> 'n \<Rightarrow> ('n, 's, 't, 'a, 'q, 'f, 'k) Server \<Rightarrow> ('n, 's, 't, 'a, 'q, 'f, 'k) Server" where
  "untrack addr conn s =
     (let ip = remoteHost (addr conn); count = ip_count s ip in
      s\<lparr>srv_conns := srv_conns s - {conn},
        srv_ipConnections := (srv_ipConnections s)(ip := if count \<le> 1 then None else Some (count - 1))\<rparr>)"

definition trackSession :: "'n \<Rightarrow> 's \<Rightarrow> ('n, 's, 't, 'a, 'q, 'f, 'k) Server \<Rightarrow> ('n, 's, 't, 'a, 'q, 'f, 'k) Server" where
  "trackSession conn x s = s\<lparr>srv_sessions := (srv_sessions s)(conn \<mapsto> x)\<rparr>"

definition untrackSession :: "'n \<Rightarrow> ('n, 's, 't, 'a, 'q, 'f, 'k) Server \<Rightarrow> ('n, 's, 't, 'a, 'q, 'f, 'k) Server" where
  "untrackSession conn s = s\<lparr>srv_sessions := (srv_sessions s)(conn := None)\<rparr>"

definition trackClient :: "'n \<Rightarrow> 't \<Rightarrow> ('n, 's, 't, 'a, 'q, 'f, 'k) Server \<Rightarrow> ('n, 's, 't, 'a, 'q, 'f, 'k) Server" where
  "trackClient conn x s = s\<lparr>srv_clients := (srv_clients s)(conn \<mapsto> x)\<rparr>"

definition untrackClient :: "'n \<Rightarrow> ('n, 's, 't, 'a, 'q, 'f, 'k) Server \<Rightarrow> ('n, 's, 't, 'a, 'q, 'f, 'k) Server" where
  "untrackClient conn s = s\<lparr>srv_clients := (srv_clients s)(conn := None)\<rparr>"

definition trackAdmission :: "'n \<Rightarrow> 'a \<Rightarrow> ('n, 's, 't, 'a, 'q, 'f, 'k) Server \<Rightarrow> ('n, 's, 't, 'a, 'q, 'f, 'k) Server" where
  "trackAdmission conn x s = s\<lparr>srv_admissions := (srv_admissions s)(conn \<mapsto> x)\<rparr>"

definition untrackAdmission :: "'n \<Rightarrow> ('n, 's, 't, 'a, 'q, 'f, 'k) Server \<Rightarrow> ('n, 's, 't, 'a, 'q, 'f, 'k) Server" where
  "untrackAdmission conn s = s\<lparr>srv_admissions := (srv_admissions s)(conn := None)\<rparr>"

definition Server_Session :: "('n, 's, 't, 'a, 'q, 'f, 'k) Server \<Rightarrow> 'n \<Rightarrow> 's option" where
  "Server_Session s conn = srv_sessions s conn"

definition ClientTransport :: "('n, 's, 't, 'a, 'q, 'f, 'k) Server \<Rightarrow> 'n \<Rightarrow> 't option" where
  "ClientTransport s conn = srv_clients s conn"

definition SessionCount :: "('n, 's, 't, 'a, 'q, 'f, 'k) Server \<Rightarrow> nat" where
  "SessionCount s = card (dom (srv_sessions s))"

text \<open>Shutting down closes the connections that are registered, each once.\<close>

definition closeConnections :: "('n, 's, 't, 'a, 'q, 'f, 'k) Server \<Rightarrow> 'n set" where
  "closeConnections s = srv_conns s"

subsection \<open>Metrics\<close>

record MetricsSnapshot =
  ms_ActiveConnections :: uint64
  ms_Sessions :: uint64
  ms_QueueLength :: uint64
  ms_Accepted :: uint64
  ms_RejectedCapacity :: uint64
  ms_RejectedPerIP :: uint64
  ms_LoginRateLimited :: uint64
  ms_BackendHealthState :: uint64
  ms_BackendConfigured :: bool
  ms_BotFilter :: FilterMetrics

definition health_number :: "HealthState \<Rightarrow> uint64" where
  "health_number h = (case h of HealthUnknown \<Rightarrow> 0 | HealthHealthy \<Rightarrow> 1 | HealthUnhealthy \<Rightarrow> 2)"

definition no_filter_metrics :: FilterMetrics where
  "no_filter_metrics = \<lparr>Allowed = 0, Observed = 0, Denied = 0, ActiveObservations = 0, ReputationEntries = 0, ReloadFailures = 0\<rparr>"

definition Server_Metrics :: "('n, 's, 't, 'a, 'q, 'f, 'k) Server \<Rightarrow> MetricsSnapshot" where
  "Server_Metrics s =
     (let queue_length = (case sc_AdmissionQueue (srv_config s) of None \<Rightarrow> 0 | Some q \<Rightarrow> Len q);
          backendHealth = (case sc_TransferCoordinator (srv_config s) of
              None \<Rightarrow> 0 | Some c \<Rightarrow> health_number (hs_State (BackendHealth (Some c))));
          botMetrics = (case sc_BotFilter (srv_config s) of None \<Rightarrow> no_filter_metrics | Some m \<Rightarrow> filter_Metrics m)
      in \<lparr>ms_ActiveConnections = of_nat (card (srv_conns s)), ms_Sessions = of_nat (SessionCount s),
          ms_QueueLength = of_nat queue_length, ms_Accepted = srv_accepted s, ms_RejectedCapacity = srv_rejectedCap s,
          ms_RejectedPerIP = srv_rejectedIP s, ms_LoginRateLimited = srv_rateLimited s,
          ms_BackendHealthState = backendHealth,
          ms_BackendConfigured = (sc_TransferCoordinator (srv_config s) \<noteq> None), ms_BotFilter = botMetrics\<rparr>)"

subsection \<open>Accepting connections\<close>

text \<open>What an iteration of the accept loop does: the loop returns, closes the connection, or serves it.\<close>

datatype accept_outcome = ServeReturns "err option" | Refused | Served

definition net_ErrClosed :: err where
  "net_ErrClosed = ErrText ''use of closed network connection''"

definition Serve_accept ::
    "('n \<Rightarrow> string) \<Rightarrow> bool \<Rightarrow> 'n res \<Rightarrow> ('n, 's, 't, 'a, 'q, 'f, 'k) Server \<Rightarrow> accept_outcome res \<times> ('n, 's, 't, 'a, 'q, 'f, 'k) Server" where
  "Serve_accept addr ctx_done accept s =
     (case accept of
        Panic \<Rightarrow> (Panic, s)
      | Fail err \<Rightarrow> (Ok (ServeReturns (if ctx_done \<or> errors_Is err net_ErrClosed then None else Some err)), s)
      | Ok conn \<Rightarrow>
          if ctx_done then (Ok (ServeReturns None), s)
          else
            (let s = s\<lparr>srv_accepted := srv_accepted s + 1\<rparr> in
             if int (srv_sem s) < sc_MaxConnections (srv_config s) then
               (let s = s\<lparr>srv_sem := srv_sem s + 1\<rparr> in
                case track addr conn s of
                  (False, s) \<Rightarrow> (Ok Refused, s\<lparr>srv_sem := srv_sem s - 1\<rparr>)
                | (True, s) \<Rightarrow> (Ok Served, s))
             else (Ok Refused, s\<lparr>srv_rejectedCap := srv_rejectedCap s + 1\<rparr>)))"

text \<open>
  The accept loop. A round is what the other goroutines did to the server meanwhile, whether the
  context is done, and what \<open>Accept\<close> returned; the result is \<open>None\<close> while the loop waits for more.
  The goroutine started before the loop closes the listener and \<open>closeConnections\<close> when the context ends.
\<close>

fun Serve ::
    "('n \<Rightarrow> string) \<Rightarrow> ((('n, 's, 't, 'a, 'q, 'f, 'k) Server \<Rightarrow> ('n, 's, 't, 'a, 'q, 'f, 'k) Server) \<times> bool \<times> 'n res) list \<Rightarrow>
     ('n, 's, 't, 'a, 'q, 'f, 'k) Server \<Rightarrow> err option res option \<times> ('n, 's, 't, 'a, 'q, 'f, 'k) Server" where
  "Serve addr [] s = (None, s)"
| "Serve addr ((others, ctx_done, accept) # rounds) s =
     (case Serve_accept addr ctx_done accept (others s) of
        (Panic, s) \<Rightarrow> (Some Panic, s)
      | (Fail err, s) \<Rightarrow> (Some (Fail err), s)
      | (Ok (ServeReturns r), s) \<Rightarrow> (Some (Ok r), s)
      | (Ok _, s) \<Rightarrow> Serve addr rounds s)"

definition ListenAndServe ::
    "(string \<Rightarrow> err option) \<Rightarrow> ('n \<Rightarrow> string) \<Rightarrow>
     ((('n, 's, 't, 'a, 'q, 'f, 'k) Server \<Rightarrow> ('n, 's, 't, 'a, 'q, 'f, 'k) Server) \<times> bool \<times> 'n res) list \<Rightarrow>
     string \<Rightarrow> ('q, 'f, 'k) ServerConfig \<Rightarrow> err option res option" where
  "ListenAndServe net_Listen addr rounds address config =
     (case net_Listen address of
        Some err \<Rightarrow> Some (Ok (Some (ErrWrap (''listen '' @ address) err)))
      | None \<Rightarrow> fst (Serve addr rounds (New_Server config)))"

section \<open>The server's goroutines\<close>

text \<open>
  A connection that is being served is registered; when its goroutine ends, the deferred calls of
  \<open>serveConn\<close> take it out of the registers one after the other, and then the token is given back.
\<close>

datatype conn_phase = Serving | Leaving | NoSession | NoClient | Forgotten

datatype ('n, 's, 't, 'a) registrar_event =
    AcceptConn 'n accept_outcome
  | RegisterClient 'n 't
  | RegisterSession 'n 's
  | RegisterAdmission 'n 'a
  | LoginLimited 'n
  | Untrack 'n
  | ForgetSession 'n
  | ForgetClient 'n
  | ForgetAdmission 'n
  | ReleaseToken 'n

fun registrar_step ::
    "('n \<Rightarrow> string) \<Rightarrow> ('n, 's, 't, 'a, 'q, 'f, 'k) Server \<times> ('n \<rightharpoonup> conn_phase) \<Rightarrow> ('n, 's, 't, 'a) registrar_event \<Rightarrow>
     ('n, 's, 't, 'a, 'q, 'f, 'k) Server \<times> ('n \<rightharpoonup> conn_phase) \<Rightarrow> bool" where
  "registrar_step addr (s, ph) (AcceptConn c r) (s', ph') \<longleftrightarrow>
     ph c = None \<and> Serve_accept addr False (Ok c) s = (Ok r, s') \<and> ph' = (if r = Served then ph(c \<mapsto> Serving) else ph)"
| "registrar_step addr (s, ph) (RegisterClient c x) (s', ph') \<longleftrightarrow> ph c = Some Serving \<and> s' = trackClient c x s \<and> ph' = ph"
| "registrar_step addr (s, ph) (RegisterSession c x) (s', ph') \<longleftrightarrow> ph c = Some Serving \<and> s' = trackSession c x s \<and> ph' = ph"
| "registrar_step addr (s, ph) (RegisterAdmission c x) (s', ph') \<longleftrightarrow> ph c = Some Serving \<and> s' = trackAdmission c x s \<and> ph' = ph"
| "registrar_step addr (s, ph) (LoginLimited c) (s', ph') \<longleftrightarrow>
     ph c = Some Serving \<and> s' = s\<lparr>srv_rateLimited := srv_rateLimited s + 1\<rparr> \<and> ph' = ph"
| "registrar_step addr (s, ph) (Untrack c) (s', ph') \<longleftrightarrow>
     ph c = Some Serving \<and> s' = untrack addr c s \<and> ph' = ph(c \<mapsto> Leaving)"
| "registrar_step addr (s, ph) (ForgetSession c) (s', ph') \<longleftrightarrow>
     ph c = Some Leaving \<and> s' = untrackSession c s \<and> ph' = ph(c \<mapsto> NoSession)"
| "registrar_step addr (s, ph) (ForgetClient c) (s', ph') \<longleftrightarrow>
     ph c = Some NoSession \<and> s' = untrackClient c s \<and> ph' = ph(c \<mapsto> NoClient)"
| "registrar_step addr (s, ph) (ForgetAdmission c) (s', ph') \<longleftrightarrow>
     ph c = Some NoClient \<and> s' = untrackAdmission c s \<and> ph' = ph(c \<mapsto> Forgotten)"
| "registrar_step addr (s, ph) (ReleaseToken c) (s', ph') \<longleftrightarrow>
     ph c = Some Forgotten \<and> s' = s\<lparr>srv_sem := srv_sem s - 1\<rparr> \<and> ph' = ph(c := None)"

section \<open>The accept loop\<close>

text \<open>
  The loop goes on until the listener fails or the context is done, and reports an error only of a
  listener that was neither closed nor shut down with the context.
\<close>

lemma Serve_accept_returns:
  "Serve_accept addr ctx_done accept s = (Ok (ServeReturns r), s') \<longleftrightarrow>
   s' = s \<and> ((\<exists>e. accept = Fail e \<and> r = (if ctx_done \<or> errors_Is e net_ErrClosed then None else Some e)) \<or>
     (\<exists>c. accept = Ok c \<and> ctx_done \<and> r = None))"
  by (auto simp: Serve_accept_def Let_def split: res.splits prod.splits bool.splits if_splits)

lemma Serve_error:
  assumes "Serve addr rounds s = (Some (Ok (Some e)), s')"
  shows "\<exists>others. (others, False, Fail e) \<in> set rounds \<and> \<not> errors_Is e net_ErrClosed"
  using assms
proof (induction rounds arbitrary: s)
  case (Cons round rounds)
  obtain others ctx_done accept where round: "round = (others, ctx_done, accept)" by (cases round)
  obtain r t where r: "Serve_accept addr ctx_done accept (others s) = (r, t)"
    by (cases "Serve_accept addr ctx_done accept (others s)")
  consider q where "r = Ok (ServeReturns q)" | "r = Ok Refused \<or> r = Ok Served" | "\<forall>x. r \<noteq> Ok x"
    by (metis accept_outcome.exhaust res.exhaust)
  then show ?case
  proof cases
    case 1
    then have "q = Some e" using Cons.prems r by (simp add: round)
    then show ?thesis
      using r [unfolded 1 Serve_accept_returns] by (auto simp: round split: if_splits)
  next
    case 2
    then have "Serve addr rounds t = (Some (Ok (Some e)), s')" using Cons.prems r by (auto simp: round)
    from Cons.IH [OF this] show ?thesis by auto
  next
    case 3
    then show ?thesis using Cons.prems r by (cases r) (auto simp: round)
  qed
qed simp

section \<open>The invariant\<close>

definition from_host :: "('n \<Rightarrow> string) \<Rightarrow> 'n set \<Rightarrow> string \<Rightarrow> 'n set" where
  "from_host addr conns ip = {c \<in> conns. remoteHost (addr c) = ip}"

definition registered :: "('n, 's, 't, 'a, 'q, 'f, 'k) Server \<Rightarrow> 'n set" where
  "registered s = dom (srv_sessions s) \<union> dom (srv_clients s) \<union> dom (srv_admissions s)"

definition in_phases :: "('n \<rightharpoonup> conn_phase) \<Rightarrow> conn_phase set \<Rightarrow> 'n set" where
  "in_phases ph P = {c. \<exists>p \<in> P. ph c = Some p}"

text \<open>Which registers a connection may still be in.\<close>

definition kept :: "('n, 's, 't, 'a, 'q, 'f, 'k) Server \<Rightarrow> ('n \<rightharpoonup> conn_phase) \<Rightarrow> bool" where
  "kept s ph \<longleftrightarrow> dom (srv_sessions s) \<subseteq> in_phases ph {Serving, Leaving} \<and>
     dom (srv_clients s) \<subseteq> in_phases ph {Serving, Leaving, NoSession} \<and>
     dom (srv_admissions s) \<subseteq> in_phases ph {Serving, Leaving, NoSession, NoClient}"

lemma kept_same:
  "kept s ph \<Longrightarrow> srv_sessions s' = srv_sessions s \<Longrightarrow> srv_clients s' = srv_clients s \<Longrightarrow> srv_admissions s' = srv_admissions s \<Longrightarrow>
     kept s' ph"
  by (simp add: kept_def)

lemma kept_phases:
  "kept s ph \<Longrightarrow> ph c = None \<Longrightarrow> kept s (ph(c \<mapsto> Serving))"
  "kept s ph \<Longrightarrow> ph c = Some Serving \<Longrightarrow> kept s (ph(c \<mapsto> Leaving))"
  "kept s ph \<Longrightarrow> ph c = Some Leaving \<Longrightarrow> kept (untrackSession c s) (ph(c \<mapsto> NoSession))"
  "kept s ph \<Longrightarrow> ph c = Some NoSession \<Longrightarrow> kept (untrackClient c s) (ph(c \<mapsto> NoClient))"
  "kept s ph \<Longrightarrow> ph c = Some NoClient \<Longrightarrow> kept (untrackAdmission c s) (ph(c \<mapsto> Forgotten))"
  "kept s ph \<Longrightarrow> ph c = Some Forgotten \<Longrightarrow> kept s (ph(c := None))"
  "kept s ph \<Longrightarrow> ph c = Some Serving \<Longrightarrow> kept (trackClient c x s) ph"
  "kept s ph \<Longrightarrow> ph c = Some Serving \<Longrightarrow> kept (trackSession c y s) ph"
  "kept s ph \<Longrightarrow> ph c = Some Serving \<Longrightarrow> kept (trackAdmission c z s) ph"
  by (fastforce simp: kept_def in_phases_def subset_iff untrackSession_def untrackClient_def untrackAdmission_def
      trackClient_def trackSession_def trackAdmission_def)+

lemma kept_registered: "kept s ph \<Longrightarrow> ph = Map.empty \<Longrightarrow> registered s = {}"
  by (auto simp: kept_def registered_def in_phases_def)

definition registrar_inv ::
    "('n \<Rightarrow> string) \<Rightarrow> ('n, 's, 't, 'a, 'q, 'f, 'k) Server \<times> ('n \<rightharpoonup> conn_phase) \<Rightarrow> bool" where
  "registrar_inv addr = (\<lambda>(s, ph).
     finite (dom ph) \<and> srv_conns s = {c. ph c = Some Serving} \<and> srv_sem s = card (dom ph) \<and>
     int (srv_sem s) \<le> sc_MaxConnections (srv_config s) \<and> sc_MaxConnectionsPerIP (srv_config s) > 0 \<and>
     (\<forall>ip. srv_ipConnections s ip \<noteq> Some 0 \<and> ip_count s ip = card (from_host addr (srv_conns s) ip) \<and>
        int (ip_count s ip) \<le> sc_MaxConnectionsPerIP (srv_config s)) \<and>
     kept s ph)"

lemma registrar_invD:
  assumes "registrar_inv addr (s, ph)"
  shows "finite (dom ph)" "srv_conns s = {c. ph c = Some Serving}" "srv_sem s = card (dom ph)"
    "int (srv_sem s) \<le> sc_MaxConnections (srv_config s)" "sc_MaxConnectionsPerIP (srv_config s) > 0"
    "srv_ipConnections s ip \<noteq> Some 0" "ip_count s ip = card (from_host addr (srv_conns s) ip)"
    "int (ip_count s ip) \<le> sc_MaxConnectionsPerIP (srv_config s)" "kept s ph"
  using assms unfolding registrar_inv_def prod.case by blast+

lemma registrar_invI:
  assumes "finite (dom ph)" "srv_conns s = {c. ph c = Some Serving}" "srv_sem s = card (dom ph)"
    "int (srv_sem s) \<le> sc_MaxConnections (srv_config s)" "sc_MaxConnectionsPerIP (srv_config s) > 0"
    "\<And>ip. ip_count s ip = card (from_host addr (srv_conns s) ip) \<and> srv_ipConnections s ip \<noteq> Some 0 \<and>
       int (ip_count s ip) \<le> sc_MaxConnectionsPerIP (srv_config s)"
    "kept s ph"
  shows "registrar_inv addr (s, ph)"
  using assms unfolding registrar_inv_def prod.case by blast

lemma from_host_insert:
  "from_host addr (insert c A) ip =
     (if remoteHost (addr c) = ip then insert c (from_host addr A ip) else from_host addr A ip)"
  "from_host addr (A - {c}) ip = from_host addr A ip - {c}"
  by (auto simp: from_host_def)

lemma finite_from_host: "finite A \<Longrightarrow> finite (from_host addr A ip)"
  by (simp add: from_host_def)

lemma serving_finite: "finite (dom ph) \<Longrightarrow> finite {c. ph c = Some Serving}"
  by (rule finite_subset [of _ "dom ph"]) auto


lemma dom_phase_upd [simp]: "ph c = Some p \<Longrightarrow> dom (ph(c \<mapsto> q)) = dom ph"
  by auto

lemma ip_count_upd:
  "ip_count (s\<lparr>srv_ipConnections := (srv_ipConnections s)(ip := x)\<rparr>) ip' =
     (if ip' = ip then (case x of None \<Rightarrow> 0 | Some n \<Rightarrow> n) else ip_count s ip')"
  by (simp add: ip_count_def)

lemma registrar_inv_counters [simp]:
  "registrar_inv addr (s\<lparr>srv_accepted := n\<rparr>, ph) = registrar_inv addr (s, ph)"
  "registrar_inv addr (s\<lparr>srv_rejectedCap := n\<rparr>, ph) = registrar_inv addr (s, ph)"
  "registrar_inv addr (s\<lparr>srv_rejectedIP := n\<rparr>, ph) = registrar_inv addr (s, ph)"
  "registrar_inv addr (s\<lparr>srv_rateLimited := n\<rparr>, ph) = registrar_inv addr (s, ph)"
  by (simp_all add: registrar_inv_def ip_count_def kept_def)

text \<open>The three branches of the accept loop.\<close>

lemma Serve_accept_full:
  "\<not> int (srv_sem s) < sc_MaxConnections (srv_config s) \<Longrightarrow>
     Serve_accept addr False (Ok c) s = (Ok Refused, s\<lparr>srv_accepted := srv_accepted s + 1, srv_rejectedCap := srv_rejectedCap s + 1\<rparr>)"
  by (simp add: Serve_accept_def)

lemma Serve_accept_crowded:
  "int (srv_sem s) < sc_MaxConnections (srv_config s) \<Longrightarrow>
   sc_MaxConnectionsPerIP (srv_config s) \<le> int (ip_count s (remoteHost (addr c))) \<Longrightarrow>
     Serve_accept addr False (Ok c) s = (Ok Refused, s\<lparr>srv_accepted := srv_accepted s + 1, srv_rejectedIP := srv_rejectedIP s + 1\<rparr>)"
  by (cases s) (simp add: Serve_accept_def track_def ip_count_def)

lemma Serve_accept_served:
  "int (srv_sem s) < sc_MaxConnections (srv_config s) \<Longrightarrow>
   \<not> sc_MaxConnectionsPerIP (srv_config s) \<le> int (ip_count s (remoteHost (addr c))) \<Longrightarrow>
     Serve_accept addr False (Ok c) s =
       (Ok Served, s\<lparr>srv_accepted := srv_accepted s + 1, srv_sem := srv_sem s + 1, srv_conns := insert c (srv_conns s),
          srv_ipConnections := (srv_ipConnections s)(remoteHost (addr c) \<mapsto> ip_count s (remoteHost (addr c)) + 1)\<rparr>)"
  by (simp add: Serve_accept_def track_def ip_count_def Let_def)

lemma registrar_inv_accept:
  assumes inv: "registrar_inv addr (s, ph)" and new: "ph c = None"
    and acc: "Serve_accept addr False (Ok c) s = (Ok r, s')"
  shows "registrar_inv addr (s', if r = Served then ph(c \<mapsto> Serving) else ph)"
proof -
  have dom: "c \<notin> dom ph" "card (insert c (dom ph)) = card (dom ph) + 1"
    using inv new by (auto simp: registrar_inv_def domIff)
  have conns: "finite (srv_conns s)" "c \<notin> srv_conns s"
    using inv new serving_finite by (auto simp: registrar_inv_def)
  have serving: "{d. (ph(c \<mapsto> Serving)) d = Some Serving} = insert c {d. ph d = Some Serving}" by auto
  have card: "card (from_host addr (insert c (srv_conns s)) ip) =
      card (from_host addr (srv_conns s) ip) + (if remoteHost (addr c) = ip then 1 else 0)" for ip
  proof -
    have "c \<notin> from_host addr (srv_conns s) ip" using conns(2) by (simp add: from_host_def)
    then show ?thesis using finite_from_host [OF conns(1)] by (simp add: from_host_insert)
  qed
  show ?thesis
  proof (cases "int (srv_sem s) < sc_MaxConnections (srv_config s)")
    case False
    then show ?thesis using acc inv by (auto simp: Serve_accept_full)
  next
    case sem: True
    show ?thesis
    proof (cases "sc_MaxConnectionsPerIP (srv_config s) \<le> int (ip_count s (remoteHost (addr c)))")
      case True
      then show ?thesis using sem acc inv by (auto simp: Serve_accept_crowded)
    next
      case False
      then have r: "r = Served" and s': "s' = s\<lparr>srv_accepted := srv_accepted s + 1, srv_sem := srv_sem s + 1,
          srv_conns := insert c (srv_conns s),
          srv_ipConnections := (srv_ipConnections s)(remoteHost (addr c) \<mapsto> ip_count s (remoteHost (addr c)) + 1)\<rparr>"
        using sem acc by (auto simp: Serve_accept_served)
      have counts: "ip_count s' ip = card (from_host addr (srv_conns s') ip) \<and> srv_ipConnections s' ip \<noteq> Some 0 \<and>
          int (ip_count s' ip) \<le> sc_MaxConnectionsPerIP (srv_config s')" for ip
        using registrar_invD(6-8) [OF inv, of ip] False
        by (cases "ip = remoteHost (addr c)") (simp_all add: s' card ip_count_def)
      have conns': "srv_conns s' = {d. (ph(c \<mapsto> Serving)) d = Some Serving}"
        unfolding serving using registrar_invD(2) [OF inv] by (simp add: s')
      have sem': "srv_sem s' = card (dom (ph(c \<mapsto> Serving)))" "int (srv_sem s') \<le> sc_MaxConnections (srv_config s')"
        using registrar_invD(3) [OF inv] dom sem by (simp_all add: s')
      have reg': "kept s' (ph(c \<mapsto> Serving))"
        using kept_phases(1) [OF registrar_invD(9) [OF inv] new] by (rule kept_same) (simp_all add: s')
      have "finite (dom (ph(c \<mapsto> Serving)))" "sc_MaxConnectionsPerIP (srv_config s') > 0"
        using registrar_invD(1,5) [OF inv] by (simp_all add: s')
      from registrar_invI [OF this(1) conns' sem' this(2) counts reg'] show ?thesis by (simp add: r)
    qed
  qed
qed

lemma registrar_inv_untrack:
  assumes inv: "registrar_inv addr (s, ph)" and c: "ph c = Some Serving"
  shows "registrar_inv addr (untrack addr c s, ph(c \<mapsto> Leaving))"
proof -
  let ?ip = "remoteHost (addr c)"
  have conns: "finite (srv_conns s)" "c \<in> srv_conns s"
    using inv c serving_finite by (auto simp: registrar_inv_def)
  have serving: "{d. (ph(c \<mapsto> Leaving)) d = Some Serving} = {d. ph d = Some Serving} - {c}" by auto
  have in_host: "c \<in> from_host addr (srv_conns s) ip \<longleftrightarrow> ip = ?ip" for ip using conns(2) by (auto simp: from_host_def)
  have card: "card (from_host addr (srv_conns s - {c}) ip) =
      card (from_host addr (srv_conns s) ip) - (if ip = ?ip then 1 else 0)" for ip
    using in_host [of ip] finite_from_host [OF conns(1), of addr ip] by (simp add: from_host_insert card_Diff_singleton_if)
  have s': "srv_conns (untrack addr c s) = srv_conns s - {c}" "srv_sem (untrack addr c s) = srv_sem s"
    "srv_config (untrack addr c s) = srv_config s"
    by (simp_all add: untrack_def Let_def)
  have kept': "kept (untrack addr c s) (ph(c \<mapsto> Leaving))"
    using kept_phases(2) [OF registrar_invD(9) [OF inv] c] by (rule kept_same) (simp_all add: untrack_def Let_def)
  show ?thesis
  proof (rule registrar_invI)
    show "ip_count (untrack addr c s) ip = card (from_host addr (srv_conns (untrack addr c s)) ip) \<and>
        srv_ipConnections (untrack addr c s) ip \<noteq> Some 0 \<and>
        int (ip_count (untrack addr c s) ip) \<le> sc_MaxConnectionsPerIP (srv_config (untrack addr c s))" for ip
      using registrar_invD(6-8) [OF inv, of ip] unfolding card s'
      by (cases "ip = ?ip") (auto simp: untrack_def ip_count_def Let_def)
  qed (use registrar_invD(1-5) [OF inv] c kept' in \<open>simp_all only: s' serving dom_phase_upd\<close>)
qed

lemma registrar_inv_keep:
  assumes inv: "registrar_inv addr (s, ph)"
    and "srv_conns s' = srv_conns s" "srv_config s' = srv_config s" "srv_ipConnections s' = srv_ipConnections s"
    and "{c. ph' c = Some Serving} = {c. ph c = Some Serving}" "finite (dom ph')" "srv_sem s' = card (dom ph')"
    and "srv_sem s' \<le> srv_sem s" "kept s' ph'"
  shows "registrar_inv addr (s', ph')"
proof (rule registrar_invI)
  show "ip_count s' ip = card (from_host addr (srv_conns s') ip) \<and> srv_ipConnections s' ip \<noteq> Some 0 \<and>
      int (ip_count s' ip) \<le> sc_MaxConnectionsPerIP (srv_config s')" for ip
    using registrar_invD(6-8) [OF inv, of ip] assms(2-4) by (simp add: ip_count_def)
  show "int (srv_sem s') \<le> sc_MaxConnections (srv_config s')" using registrar_invD(4) [OF inv] assms(3,8) by simp
qed (use registrar_invD(2,5) [OF inv] assms in simp_all)

lemma registrar_inv_forget:
  assumes inv: "registrar_inv addr (s, ph)"
  shows "ph c = Some Leaving \<Longrightarrow> registrar_inv addr (untrackSession c s, ph(c \<mapsto> NoSession))"
    "ph c = Some NoSession \<Longrightarrow> registrar_inv addr (untrackClient c s, ph(c \<mapsto> NoClient))"
    "ph c = Some NoClient \<Longrightarrow> registrar_inv addr (untrackAdmission c s, ph(c \<mapsto> Forgotten))"
proof -
  note keep = registrar_inv_keep [OF inv] and k = kept_phases [OF registrar_invD(9) [OF inv]]
  note sem = registrar_invD(1,3) [OF inv]
  show "ph c = Some Leaving \<Longrightarrow> registrar_inv addr (untrackSession c s, ph(c \<mapsto> NoSession))"
    by (rule keep) (use k(3) sem in \<open>auto simp: untrackSession_def insert_absorb domIff\<close>)
  show "ph c = Some NoSession \<Longrightarrow> registrar_inv addr (untrackClient c s, ph(c \<mapsto> NoClient))"
    by (rule keep) (use k(4) sem in \<open>auto simp: untrackClient_def insert_absorb domIff\<close>)
  show "ph c = Some NoClient \<Longrightarrow> registrar_inv addr (untrackAdmission c s, ph(c \<mapsto> Forgotten))"
    by (rule keep) (use k(5) sem in \<open>auto simp: untrackAdmission_def insert_absorb domIff\<close>)
qed

lemma registrar_inv_release:
  assumes inv: "registrar_inv addr (s, ph)" and c: "ph c = Some Forgotten"
  shows "registrar_inv addr (s\<lparr>srv_sem := srv_sem s - 1\<rparr>, ph(c := None))"
proof (rule registrar_inv_keep [OF inv])
  show "{d. (ph(c := None)) d = Some Serving} = {d. ph d = Some Serving}" using c by auto
  show "kept (s\<lparr>srv_sem := srv_sem s - 1\<rparr>) (ph(c := None))"
    using kept_phases(6) [OF registrar_invD(9) [OF inv] c] by (rule kept_same) simp_all
qed (use registrar_invD(1,3) [OF inv] c in \<open>simp_all add: domIff\<close>)

lemma registrar_inv_register:
  assumes inv: "registrar_inv addr (s, ph)" and c: "ph c = Some Serving"
  shows "registrar_inv addr (trackClient c x s, ph)" "registrar_inv addr (trackSession c y s, ph)"
    "registrar_inv addr (trackAdmission c z s, ph)"
proof -
  note k = kept_phases(7-9) [OF registrar_invD(9) [OF inv] c]
  show "registrar_inv addr (trackClient c x s, ph)"
    by (rule registrar_inv_keep [OF inv]) (use k(1) registrar_invD(1,3) [OF inv] in \<open>simp_all add: trackClient_def\<close>)
  show "registrar_inv addr (trackSession c y s, ph)"
    by (rule registrar_inv_keep [OF inv]) (use k(2) registrar_invD(1,3) [OF inv] in \<open>simp_all add: trackSession_def\<close>)
  show "registrar_inv addr (trackAdmission c z s, ph)"
    by (rule registrar_inv_keep [OF inv]) (use k(3) registrar_invD(1,3) [OF inv] in \<open>simp_all add: trackAdmission_def\<close>)
qed

lemma registrar_inv_step:
  assumes "registrar_inv addr sp" "registrar_step addr sp ev sp'"
  shows "registrar_inv addr sp'"
proof -
  obtain s ph s' ph' where sp: "sp = (s, ph)" "sp' = (s', ph')" by fastforce
  show ?thesis
    using assms unfolding sp
    by (cases ev) (auto simp only: registrar_step.simps registrar_inv_counters intro: registrar_inv_accept registrar_inv_untrack
        registrar_inv_forget registrar_inv_release registrar_inv_register)
qed

definition registrar_start :: "('n, 's, 't, 'a, 'q, 'f, 'k) Server \<times> ('n \<rightharpoonup> conn_phase) \<Rightarrow> bool" where
  "registrar_start = (\<lambda>(s, ph). (\<exists>config. s = New_Server config) \<and> ph = Map.empty)"

lemma New_Server_simps [simp]:
  "srv_sem (New_Server config) = 0" "srv_conns (New_Server config) = {}" "srv_ipConnections (New_Server config) = Map.empty"
  "srv_config (New_Server config) = server_defaults config" "kept (New_Server config) ph"
  "srv_accepted (New_Server config) = 0" "srv_rejectedCap (New_Server config) = 0" "srv_rejectedIP (New_Server config) = 0"
  by (simp_all add: New_Server_def kept_def Let_def)

lemma server_defaults_positive:
  "sc_MaxConnections (server_defaults config) > 0" "sc_MaxConnectionsPerIP (server_defaults config) > 0"
  by (simp_all add: server_defaults_def positive_or_def)

lemma registrar_inv_start: "registrar_inv addr (New_Server config, Map.empty)"
proof (rule registrar_invI)
  show "ip_count (New_Server config) ip = card (from_host addr (srv_conns (New_Server config)) ip) \<and>
      srv_ipConnections (New_Server config) ip \<noteq> Some 0 \<and>
      int (ip_count (New_Server config) ip) \<le> sc_MaxConnectionsPerIP (srv_config (New_Server config))" for ip
    using server_defaults_positive(2) [of config] by (simp add: ip_count_def from_host_def)
qed (use server_defaults_positive [of config] in simp_all)

interpretation rg: invariant registrar_start "registrar_step addr" "registrar_inv addr" for addr
proof
  show "registrar_start sp \<Longrightarrow> registrar_inv addr sp" for sp
    using registrar_inv_start by (auto simp: registrar_start_def)
  show "registrar_inv addr sp \<Longrightarrow> registrar_step addr sp ev sp' \<Longrightarrow> registrar_inv addr sp'" for sp ev sp'
    by (rule registrar_inv_step)
qed

section \<open>The counters\<close>

fun counted :: "(accept_outcome \<Rightarrow> bool) \<Rightarrow> ('n, 's, 't, 'a) registrar_event \<Rightarrow> bool" where
  "counted P (AcceptConn c r) = P r"
| "counted P _ = False"

definition accepts :: "(accept_outcome \<Rightarrow> bool) \<Rightarrow> ('n, 's, 't, 'a) registrar_event list \<Rightarrow> nat" where
  "accepts P es = length (filter (counted P) es)"

lemma accepts_snoc [simp]:
  "accepts P [] = 0" "accepts P (es @ [e]) = accepts P es + (if counted P e then 1 else 0)"
  by (simp_all add: accepts_def)

definition counters_match ::
    "('n, 's, 't, 'a) registrar_event list \<Rightarrow> ('n, 's, 't, 'a, 'q, 'f, 'k) Server \<Rightarrow> bool" where
  "counters_match es s \<longleftrightarrow> srv_accepted s = of_nat (accepts (\<lambda>_. True) es) \<and>
     srv_rejectedCap s + srv_rejectedIP s = of_nat (accepts (\<lambda>r. r = Refused) es) \<and>
     accepts (\<lambda>_. True) es = accepts (\<lambda>r. r = Refused) es + accepts (\<lambda>r. r = Served) es"

lemma Serve_accept_counters:
  assumes "Serve_accept addr False (Ok c) s = (Ok r, s')"
  shows "r \<in> {Refused, Served} \<and> srv_accepted s' = srv_accepted s + 1 \<and> srv_config s' = srv_config s \<and>
    srv_rejectedCap s' + srv_rejectedIP s' = srv_rejectedCap s + srv_rejectedIP s + (if r = Refused then 1 else 0)"
proof (cases "int (srv_sem s) < sc_MaxConnections (srv_config s)")
  case False
  then show ?thesis using assms by (auto simp: Serve_accept_full)
next
  case True
  then show ?thesis using assms
    by (cases "sc_MaxConnectionsPerIP (srv_config s) \<le> int (ip_count s (remoteHost (addr c)))")
      (auto simp: Serve_accept_crowded Serve_accept_served)
qed

lemma registrar_step_counters:
  assumes "registrar_step addr (s, ph) e (s', ph')" "counters_match es s"
  shows "counters_match (es @ [e]) s' \<and> srv_config s' = srv_config s"
proof (cases "\<exists>c r. e = AcceptConn c r")
  case True
  then obtain c r where "e = AcceptConn c r" by blast
  then show ?thesis using assms Serve_accept_counters [of addr c s r s'] by (auto simp: counters_match_def)
next
  case False
  then have "srv_accepted s' = srv_accepted s" "srv_rejectedCap s' = srv_rejectedCap s" "srv_rejectedIP s' = srv_rejectedIP s"
    "srv_config s' = srv_config s" "\<not> counted (\<lambda>_. True) e" "\<not> counted (\<lambda>r. r = Refused) e"
    "\<not> counted (\<lambda>r. r = Served) e"
    using assms(1)
    by (cases e; simp add: trackClient_def trackSession_def trackAdmission_def untrack_def
        untrackAdmission_def untrackClient_def untrackSession_def Let_def)+
  then show ?thesis using assms(2) by (simp add: counters_match_def)
qed

lemma registrar_runs_counters:
  "runs (registrar_step addr) sp es sp' \<Longrightarrow> sp = (New_Server config, Map.empty) \<Longrightarrow>
     counters_match es (fst sp') \<and> srv_config (fst sp') = server_defaults config"
proof (induction rule: runs.induct)
  case (runs_snoc sp es sp1 e sp2)
  then show ?case using registrar_step_counters [of addr "fst sp1" "snd sp1" e "fst sp2" "snd sp2" es] by simp
qed (simp add: counters_match_def)


section \<open>Properties\<close>

text \<open>
  C26: the connection limits. Whatever connections arrive and end, and however the goroutines that
  serve them interleave with the accept loop, no more connections are open than configured,
  the count of every address is the number of its open connections and within the limit per
  address, and every accepted connection was either served or counted as rejected. A new
  connection is served exactly when a token is free and its address is below its limit; and
  when every goroutine has ended nothing is left in the registers.
\<close>

theorem registrar_limits:
  assumes "runs (registrar_step addr) (New_Server config, Map.empty) es (s, ph)"
  shows "int (card (srv_conns s)) \<le> sc_MaxConnections (server_defaults config) \<and>
    ip_count s ip = card (from_host addr (srv_conns s) ip) \<and>
    int (ip_count s ip) \<le> sc_MaxConnectionsPerIP (server_defaults config) \<and>
    srv_accepted s = srv_rejectedCap s + srv_rejectedIP s + of_nat (accepts (\<lambda>r. r = Served) es) \<and>
    (fst (Serve_accept addr False (Ok c) s) = Ok Served \<longleftrightarrow>
       int (card (dom ph)) < sc_MaxConnections (server_defaults config) \<and>
       int (card (from_host addr (srv_conns s) (remoteHost (addr c)))) < sc_MaxConnectionsPerIP (server_defaults config)) \<and>
    (ph = Map.empty \<longrightarrow> srv_conns s = {} \<and> registered s = {} \<and> srv_sem s = 0 \<and> srv_ipConnections s = Map.empty)"
proof (intro conjI)
  have inv: "registrar_inv addr (s, ph)"
    using rg.inv_reachable [OF _ assms] by (auto simp: registrar_start_def)
  have run: "counters_match es s" "srv_config s = server_defaults config"
    using registrar_runs_counters [OF assms refl] by simp_all
  note D = registrar_invD [OF inv, unfolded run(2)]
  show "int (card (srv_conns s)) \<le> sc_MaxConnections (server_defaults config)"
  proof -
    have "card (srv_conns s) \<le> card (dom ph)" unfolding D(2) by (rule card_mono [OF D(1)]) auto
    then show ?thesis using D(3,4) by simp
  qed
  show "ip_count s ip = card (from_host addr (srv_conns s) ip)"
    "int (ip_count s ip) \<le> sc_MaxConnectionsPerIP (server_defaults config)" by (rule D(7), rule D(8))
  show "srv_accepted s = srv_rejectedCap s + srv_rejectedIP s + of_nat (accepts (\<lambda>r. r = Served) es)"
    using run(1) by (simp add: counters_match_def)
  show "fst (Serve_accept addr False (Ok c) s) = Ok Served \<longleftrightarrow>
      int (card (dom ph)) < sc_MaxConnections (server_defaults config) \<and>
      int (card (from_host addr (srv_conns s) (remoteHost (addr c)))) < sc_MaxConnectionsPerIP (server_defaults config)"
    unfolding D(3,7) [symmetric] run(2) [symmetric]
    by (cases "int (srv_sem s) < sc_MaxConnections (srv_config s)";
        cases "sc_MaxConnectionsPerIP (srv_config s) \<le> int (ip_count s (remoteHost (addr c)))")
      (auto simp: Serve_accept_full Serve_accept_crowded Serve_accept_served)
  have "srv_ipConnections s = Map.empty" if "srv_conns s = {}"
  proof
    show "srv_ipConnections s ip = None" for ip
      using D(6,7) [of ip] that by (cases "srv_ipConnections s ip") (simp_all add: ip_count_def from_host_def)
  qed
  then show "ph = Map.empty \<longrightarrow> srv_conns s = {} \<and> registered s = {} \<and> srv_sem s = 0 \<and> srv_ipConnections s = Map.empty"
    using D(2,3) kept_registered [OF D(9)] by auto
qed

definition sample_config :: "(unit, unit, unit) ServerConfig" where
  "sample_config = \<lparr>sc_MaxConnections = 2, sc_MaxConnectionsPerIP = 1, sc_MaxPacketSize = 0, sc_HandshakeTimeout = 0,
     sc_StatusTimeout = 0, sc_LoginTimeout = 0, sc_WriteTimeout = 0, sc_KeepAliveInterval = 0, sc_KeepAliveTimeout = 0,
     sc_Status = \<lparr>sr_Version = \<lparr>sv_Name = ''1.20.4'', sv_Protocol = 765\<rparr>, sr_Players = \<lparr>sp_Max = 2, sp_Online = 0\<rparr>,
       sr_Description = \<lparr>sd_Text = ''RegionGate''\<rparr>\<rparr>, sc_TransferCoordinator = None, sc_AdmissionQueue = None,
     sc_QueueStatusInterval = 0, sc_LoginRateLimit = 0, sc_LoginRateWindow = 0, sc_ChallengeHook = None,
     sc_ChallengeTimeout = 0, sc_BotFilter = None, sc_OnlineAuthenticator = None\<rparr>"

definition sample_server :: "(nat, unit, unit, unit, unit, unit, unit) Server" where
  "sample_server = New_Server sample_config"

definition sample_addr :: "nat \<Rightarrow> string" where
  "sample_addr c = ''10.0.0.7:25565''"

text \<open>The first connection of an address is served, the second refused; then the first ends.\<close>

definition sample_visits :: "(nat, unit, unit, unit) registrar_event list" where
  "sample_visits = [AcceptConn 0 Served, AcceptConn 1 Refused, Untrack 0, ForgetSession 0, ForgetClient 0, ForgetAdmission 0,
     ReleaseToken 0]"

lemma sample_visits_run: "\<exists>s. runs (registrar_step sample_addr) (sample_server, Map.empty) sample_visits (s, Map.empty)"
  unfolding sample_visits_def sample_server_def
  by (simp add: runs_Cons_iff Serve_accept_def track_def untrack_def ip_count_def sample_addr_def
      server_defaults_def positive_or_def sample_config_def Let_def untrackAdmission_def
      untrackClient_def untrackSession_def)

theorem registrar_limits_witness:
  "\<exists>s. runs (registrar_step sample_addr) (New_Server sample_config, Map.empty) sample_visits (s, Map.empty) \<and>
     srv_conns s = {} \<and> srv_sem s = 0 \<and> srv_ipConnections s = Map.empty \<and>
     srv_accepted s = srv_rejectedCap s + srv_rejectedIP s + 1"
proof -
  obtain s where s: "runs (registrar_step sample_addr) (New_Server sample_config, Map.empty) sample_visits (s, Map.empty)"
    using sample_visits_run unfolding sample_server_def by blast
  moreover have "accepts (\<lambda>r. r = Served) sample_visits = 1" by (simp add: accepts_def sample_visits_def)
  ultimately show ?thesis using registrar_limits [OF s, of "''10.0.0.7''" 2] by auto
qed

end
