(* ===== verification/Entry.thy ===== *)
theory Entry
  imports Registrar Login Registry
begin

text \<open>
  The way in, \<open>internal/server/server.go\<close>: \<open>serveConn\<close>, \<open>serveStatus\<close>, \<open>serveLogin\<close>,
  \<open>authenticateOnline\<close> and \<open>readClientConfiguration\<close>, from the first byte of a connection to the
  call of \<open>serveLimbo\<close>. The functions return early without a value on every failure; in the model
  the failure is the value. Deadlines are part of the connection.

  The theorems specify the two conversations a client can have here: the status ping, and the
  login that ends in Limbo, offline or authenticated.
\<close>

section \<open>Operations on a transport in sequence\<close>

definition tbind :: "('t \<Rightarrow> 'a res \<times> 't) \<Rightarrow> ('a \<Rightarrow> 't \<Rightarrow> 'b res \<times> 't) \<Rightarrow> 't \<Rightarrow> 'b res \<times> 't" where
  "tbind m f t =
     (case m t of
        (Ok x, t) \<Rightarrow> f x t
      | (Fail e, t) \<Rightarrow> (Fail e, t)
      | (Panic, t) \<Rightarrow> (Panic, t))"

definition tlift :: "'a res \<Rightarrow> 't \<Rightarrow> 'a res \<times> 't" where
  "tlift r t = (r, t)"

lemma tbind_eq_Ok: "tbind m f t = (Ok y, t') \<longleftrightarrow> (\<exists>x t1. m t = (Ok x, t1) \<and> f x t1 = (Ok y, t'))"
  by (auto simp: tbind_def split: prod.splits res.splits)

lemma tlift_eq_Ok: "tlift r t = (Ok y, t') \<longleftrightarrow> r = Ok y \<and> t' = t"
  by (auto simp: tlift_def)

lemma tbind_no_panic:
  "fst (m t) \<noteq> Panic \<Longrightarrow> (\<And>x t1. m t = (Ok x, t1) \<Longrightarrow> fst (f x t1) \<noteq> Panic) \<Longrightarrow> fst (tbind m f t) \<noteq> Panic"
  by (auto simp: tbind_def split: prod.splits res.splits)

lemmas tbind_iff = tbind_eq_Ok tlift_eq_Ok

section \<open>Definitions\<close>

text \<open>
  The surroundings of a login: the network, the random source, RSA, SHA-1, AES, MD5 and the JSON
  encoder.
\<close>

record ('c, 'k) entry_env =
  en_net :: "'c net"
  en_random :: "nat \<Rightarrow> bytes res"
  en_rsa :: "'k \<Rightarrow> bytes \<Rightarrow> bytes res"
  en_sha1 :: "bytes \<Rightarrow> bytes"
  en_aes :: "bytes \<Rightarrow> (bytes \<Rightarrow> bytes) res"
  en_md5 :: "bytes \<Rightarrow> bytes"
  en_json :: "StatusResponse \<Rightarrow> string res"

definition server_writeFrame :: "'c net \<Rightarrow> bytes \<Rightarrow> 'c Transport \<Rightarrow> unit res \<times> 'c Transport" where
  "server_writeFrame e payload t = net_WriteFrame e t payload"

definition serveStatus :: "('c, 'k) entry_env \<Rightarrow> StatusResponse \<Rightarrow> 'c Transport \<Rightarrow> unit res \<times> 'c Transport" where
  "serveStatus env response =
     tbind (net_ReadFrame (en_net env)) (\<lambda>request.
     tbind (tlift (ParseRequest request)) (\<lambda>_.
     tbind (tlift (ResponsePayload (en_json env) response)) (\<lambda>payload.
     tbind (server_writeFrame (en_net env) payload) (\<lambda>_.
     tbind (net_ReadFrame (en_net env)) (\<lambda>ping.
     tbind (tlift (ParsePing ping)) (\<lambda>v.
     server_writeFrame (en_net env) (PongPayload v)))))))"

definition login_properties :: "fwd_Property list \<Rightarrow> LoginProperty list" where
  "login_properties = map (\<lambda>p. \<lparr>lp_Name = Name p, lp_Value = Value p, lp_Signature = Signature p\<rparr>)"

definition forwarded_properties :: "auth_Property list \<Rightarrow> fwd_Property list" where
  "forwarded_properties = map (\<lambda>p. \<lparr>Name = ap_Name p, Value = ap_Value p, Signature = ap_Signature p\<rparr>)"

definition authenticateOnline ::
    "('c, 'k) entry_env \<Rightarrow> 'k Authenticator \<Rightarrow> string \<Rightarrow> string \<Rightarrow> 'c Transport \<Rightarrow> PlayerIdentity res \<times> 'c Transport" where
  "authenticateOnline env a username address =
     tbind (tlift (Begin (en_random env) a)) (\<lambda>challenge.
     tbind (server_writeFrame (en_net env) (EncryptionRequestPayload '''' (PublicKey challenge) (VerifyToken challenge) True)) (\<lambda>_.
     tbind (net_ReadFrame (en_net env)) (\<lambda>frm.
     tbind (tlift (ParseEncryptionResponse frm)) (\<lambda>response.
     tbind (tlift (Authenticate (en_rsa env) (en_sha1 env) a challenge username address
                     (ep_SharedSecret response) (ep_VerifyToken response))) (\<lambda>(profile, key).
     tbind (EnableEncryption (en_aes env) key key) (\<lambda>_.
     tlift (Ok \<lparr>Address = address, UUID = prof_UUID profile, Username = prof_Username profile,
                Properties = forwarded_properties (prof_Properties profile)\<rparr>)))))))"

definition maxClientConfigurationSetupPackets :: nat where
  "maxClientConfigurationSetupPackets = 16"

fun readClientConfiguration_loop :: "'c net \<Rightarrow> nat \<Rightarrow> 'c Transport \<Rightarrow> unit res \<times> 'c Transport" where
  "readClientConfiguration_loop e 0 t = (Fail ErrConfigurationMalformed, t)"
| "readClientConfiguration_loop e (Suc n) t =
     (case net_ReadFrame e t of
        (Fail err, t) \<Rightarrow> (Fail err, t)
      | (Panic, t) \<Rightarrow> (Panic, t)
      | (Ok frm, t) \<Rightarrow>
          (case PacketID frm of
             Fail err \<Rightarrow> (Fail (ErrWrap ''malformed configuration packet: invalid frame'' err), t)
           | Panic \<Rightarrow> (Panic, t)
           | Ok (packet_id, _) \<Rightarrow>
               if packet_id = ServerboundFinishConfigurationID then
                 (case ParseFinishAcknowledged frm of
                    Ok _ \<Rightarrow> (Ok (), t)
                  | Fail err \<Rightarrow> (Fail (ErrWrap (''malformed configuration packet id='' @ show_int (sint packet_id)) err), t)
                  | Panic \<Rightarrow> (Panic, t))
               else
                 (case ParseClientSetup frm of
                    Ok _ \<Rightarrow> readClientConfiguration_loop e n t
                  | Fail err \<Rightarrow> (Fail (ErrWrap (''malformed configuration packet id='' @ show_int (sint packet_id)) err), t)
                  | Panic \<Rightarrow> (Panic, t))))"

definition readClientConfiguration :: "'c net \<Rightarrow> 'c Transport \<Rightarrow> unit res \<times> 'c Transport" where
  "readClientConfiguration e = readClientConfiguration_loop e (maxClientConfigurationSetupPackets + 1)"

text \<open>A transition of the session; its failure ends the login, and the session with it.\<close>

definition login_transition :: "Session \<Rightarrow> State \<Rightarrow> Session res" where
  "login_transition s st = (case Transition s st of (Ok _, s) \<Rightarrow> Ok s | (Fail e, _) \<Rightarrow> Fail e | (Panic, _) \<Rightarrow> Panic)"

text \<open>
  \<open>serveLogin\<close> up to the call of \<open>serveLimbo\<close>: the player's identity and the session, or the reason
  of an early return.
\<close>

definition serveLogin ::
    "('c, 'k) entry_env \<Rightarrow> 'k Authenticator option \<Rightarrow> string \<Rightarrow> 'c Transport \<Rightarrow> (PlayerIdentity \<times> Session) res \<times> 'c Transport" where
  "serveLogin env authenticator remote =
     tbind (tlift (login_transition New_Session StateLogin)) (\<lambda>s.
     tbind (net_ReadFrame (en_net env)) (\<lambda>frm.
     tbind (tlift (ParseStart frm)) (\<lambda>start.
     tbind (case authenticator of
              None \<Rightarrow> tlift (Ok \<lparr>Address = remoteHost remote, UUID = OfflineUUID (en_md5 env) (ls_Username start),
                                Username = ls_Username start, Properties = []\<rparr>)
            | Some a \<Rightarrow> authenticateOnline env a (ls_Username start) (remoteHost remote)) (\<lambda>identity.
     tbind (server_writeFrame (en_net env) (SuccessProfilePayload (UUID identity) (Username identity)
              (login_properties (Properties identity)))) (\<lambda>_.
     tbind (net_ReadFrame (en_net env)) (\<lambda>frm.
     tbind (tlift (ParseAcknowledged frm)) (\<lambda>_.
     tbind (tlift (login_transition s StateConfiguration)) (\<lambda>s.
     tbind (tlift (RegistryDataPayload MinimalRegistryData)) (\<lambda>registry.
     tbind (server_writeFrame (en_net env) registry) (\<lambda>_.
     tbind (server_writeFrame (en_net env) FinishPayload) (\<lambda>_.
     tbind (readClientConfiguration (en_net env)) (\<lambda>_.
     tbind (tlift (login_transition s StateLimboPlay)) (\<lambda>s.
     tlift (Ok (identity, s)))))))))))))))"

text \<open>
  \<open>serveConn\<close> up to the deferred calls. \<open>client\<close> and \<open>session\<close> are the pointers it registers, \<open>now\<close> the
  clock at the check of the login limit. The result says how the connection ended, or that the
  player has reached Limbo.
\<close>

datatype conn_result = ConnEnds "err option" | ConnLimbo PlayerIdentity Session

definition login_result :: "(PlayerIdentity \<times> Session) res \<Rightarrow> conn_result res" where
  "login_result r = (case r of Ok (identity, s) \<Rightarrow> Ok (ConnLimbo identity s) | Fail e \<Rightarrow> Ok (ConnEnds (Some e)) | Panic \<Rightarrow> Panic)"

definition status_result :: "unit res \<Rightarrow> conn_result res" where
  "status_result r = (case r of Ok _ \<Rightarrow> Ok (ConnEnds None) | Fail e \<Rightarrow> Ok (ConnEnds (Some e)) | Panic \<Rightarrow> Panic)"

definition serveConn ::
    "('c, 'k) entry_env \<Rightarrow> ('n \<Rightarrow> string) \<Rightarrow> 'n \<Rightarrow> 't \<Rightarrow> 's \<Rightarrow> time \<Rightarrow> ('n, 's, 't, 'a, 'q, 'f, 'k) Server \<Rightarrow> 'c Transport \<Rightarrow>
     conn_result res \<times> ('n, 's, 't, 'a, 'q, 'f, 'k) Server \<times> 'c Transport" where
  "serveConn env addr conn client session now s t =
     (let s = trackClient conn client s in
      case net_ReadFrame (en_net env) t of
        (Fail e, t) \<Rightarrow> (Ok (ConnEnds (Some e)), s, t)
      | (Panic, t) \<Rightarrow> (Panic, s, t)
      | (Ok frm, t) \<Rightarrow>
          (case handshake_Parse frm of
             Fail e \<Rightarrow> (Ok (ConnEnds (Some e)), s, t)
           | Panic \<Rightarrow> (Panic, s, t)
           | Ok packet \<Rightarrow>
               if hs_ProtocolVersion packet \<noteq> ProtocolVersion then (Ok (ConnEnds None), s, t)
               else if hs_NextState packet = NextStatus then
                 (case serveStatus env (sc_Status (srv_config s)) t of (r, t) \<Rightarrow> (status_result r, s, t))
               else if hs_NextState packet = NextLogin then
                 (case Limiter.Allow (srv_loginLimiter s) (remoteHost (addr conn)) now of
                    (may_enter, l) \<Rightarrow>
                      let s = s\<lparr>srv_loginLimiter := l\<rparr> in
                      if \<not> may_enter then (Ok (ConnEnds None), s\<lparr>srv_rateLimited := srv_rateLimited s + 1\<rparr>, t)
                      else
                        (case serveLogin env (sc_OnlineAuthenticator (srv_config s)) (addr conn) t of
                           (r, t) \<Rightarrow> (login_result r, trackSession conn session s, t)))
               else (Ok (ConnEnds None), s, t)))"

section \<open>Conversations\<close>

lemma server_writeFrame_talk: "server_writeFrame e payload t = (Ok x, t') \<longleftrightarrow> talk e t [Sent payload] t'"
  by (auto simp: server_writeFrame_def runs_Cons_iff)

lemma read_talk: "net_ReadFrame e t = (Ok payload, t') \<longleftrightarrow> talk e t [Recv payload] t'"
  by (auto simp: runs_Cons_iff)

lemma talk_Cons: "talk e t (x # xs) t' \<longleftrightarrow> (\<exists>t1. talk e t [x] t1 \<and> talk e t1 xs t')"
  by (simp add: runs_Cons_iff)

lemma ParseClientSetup_id:
  "ParseClientSetup p = Ok () \<Longrightarrow> \<exists>i body. PacketID p = Ok (i, body) \<and> i \<noteq> ServerboundFinishConfigurationID"
  by (auto simp: ParseClientSetup_def res_iff configuration_ids split: if_splits)

lemma ParseFinishAcknowledged_id:
  "ParseFinishAcknowledged p = Ok () \<Longrightarrow> PacketID p = Ok (ServerboundFinishConfigurationID, [])"
  by (auto simp: ParseFinishAcknowledged_def res_iff split: if_splits)

text \<open>The client's configuration: setup packets up to the limit, then the acknowledged finish.\<close>

lemma readClientConfiguration_loop_conversation:
  "readClientConfiguration_loop e n t = (Ok (), t') \<longleftrightarrow>
     (\<exists>ps p. length ps < n \<and> list_all (\<lambda>p. ParseClientSetup p = Ok ()) ps \<and> ParseFinishAcknowledged p = Ok () \<and>
        talk e t (map Recv ps @ [Recv p]) t')"
proof (induction n arbitrary: t)
  case (Suc n)
  show ?case (is "?L \<longleftrightarrow> (\<exists>ps p. ?R ps p)")
  proof
    assume L: ?L
    then obtain f t1 i b where f: "net_ReadFrame e t = (Ok f, t1)" "PacketID f = Ok (i, b)"
      by (auto split: prod.splits res.splits)
    show "\<exists>ps p. ?R ps p"
    proof (cases "i = ServerboundFinishConfigurationID")
      case True
      then have "ParseFinishAcknowledged f = Ok ()" "t' = t1" using L f by (auto split: res.splits)
      then have "?R [] f" using f by (simp add: runs_Cons_iff)
      then show ?thesis by blast
    next
      case False
      then have ok: "ParseClientSetup f = Ok ()" and "readClientConfiguration_loop e n t1 = (Ok (), t')"
        using L f by (auto split: res.splits)
      then obtain ps p where "length ps < n" "list_all (\<lambda>p. ParseClientSetup p = Ok ()) ps"
        "ParseFinishAcknowledged p = Ok ()" "talk e t1 (map Recv ps @ [Recv p]) t'"
        using Suc.IH [of t1] by blast
      then have "?R (f # ps) p" using f ok by (auto simp: runs_Cons_iff)
      then show ?thesis by blast
    qed
  next
    assume "\<exists>ps p. ?R ps p"
    then obtain ps p where R: "?R ps p" by blast
    show ?L
    proof (cases ps)
      case Nil
      then show ?thesis using R ParseFinishAcknowledged_id [of p] by (auto simp: runs_Cons_iff)
    next
      case (Cons q qs)
      then obtain t1 where t1: "net_ReadFrame e t = (Ok q, t1)" "talk e t1 (map Recv qs @ [Recv p]) t'"
        using R by (auto simp: runs_Cons_iff)
      then have "readClientConfiguration_loop e n t1 = (Ok (), t')"
        unfolding Suc.IH using R Cons by (intro exI [of _ qs] exI [of _ p]) simp
      moreover obtain i b where "PacketID q = Ok (i, b)" "i \<noteq> ServerboundFinishConfigurationID"
        using R Cons ParseClientSetup_id [of q] by auto
      moreover have "ParseClientSetup q = Ok ()" using R Cons by simp
      ultimately show ?thesis using t1(1) by simp
    qed
  qed
qed simp

lemma login_transitions:
  "login_transition New_Session StateLogin = Ok (New_Session\<lparr>state := StateLogin\<rparr>)"
  "login_transition (New_Session\<lparr>state := StateLogin\<rparr>) StateConfiguration = Ok (New_Session\<lparr>state := StateConfiguration\<rparr>)"
  "login_transition (New_Session\<lparr>state := StateConfiguration\<rparr>) StateLimboPlay = Ok (New_Session\<lparr>state := StateLimboPlay\<rparr>)"
  by (simp_all add: login_transition_def Transition_def transitionLocked_def canTransition_def New_Session_def)


section \<open>Properties\<close>

text \<open>
  How the player's identity is established: offline it is made from the name, and nothing is
  said on the wire; online the client is challenged, its answer authenticated, and everything
  after the answer is encrypted with the shared secret.
\<close>

definition identified ::
    "('c, 'k) entry_env \<Rightarrow> 'k Authenticator option \<Rightarrow> string \<Rightarrow> string \<Rightarrow> 'c Transport \<Rightarrow> PlayerIdentity \<Rightarrow> 'c Transport \<Rightarrow> bool" where
  "identified env authenticator username address t identity t' \<longleftrightarrow>
     (case authenticator of
        None \<Rightarrow> t' = t \<and> identity = \<lparr>Address = address, UUID = OfflineUUID (en_md5 env) username, Username = username, Properties = []\<rparr>
      | Some a \<Rightarrow> (\<exists>token response answer profile key t1.
          en_random env verifyTokenBytes = Ok token \<and>
          talk (en_net env) t [Sent (EncryptionRequestPayload '''' (au_publicKey a) token True), Recv response] t1 \<and>
          ParseEncryptionResponse response = Ok answer \<and>
          en_rsa env (au_privateKey a) (ep_SharedSecret answer) = Ok key \<and> length key = sharedSecretSize \<and>
          en_rsa env (au_privateKey a) (ep_VerifyToken answer) = Ok token \<and>
          verifier a username (ServerHash (en_sha1 env) '''' key (au_publicKey a)) address = Ok profile \<and>
          EnableEncryption (en_aes env) key key t1 = (Ok (), t') \<and>
          identity = \<lparr>Address = address, UUID = prof_UUID profile, Username = prof_Username profile,
            Properties = forwarded_properties (prof_Properties profile)\<rparr>))"

lemma authenticateOnline_identified:
  "authenticateOnline env a username address t = (Ok identity, t') \<longleftrightarrow> identified env (Some a) username address t identity t'"
  unfolding authenticateOnline_def identified_def option.case
  by (auto simp: tbind_iff server_writeFrame_talk Begin_def res_iff PublicKey_def VerifyToken_def Authenticate_def
      Challenge_Decrypt_Ok sharedSecretSize_def runs_Cons_iff split: prod.splits)


lemma identification:
  "(case authenticator of
      None \<Rightarrow> tlift (Ok \<lparr>Address = address, UUID = OfflineUUID (en_md5 env) username, Username = username, Properties = []\<rparr>)
    | Some a \<Rightarrow> authenticateOnline env a username address) t = (Ok identity, t') \<longleftrightarrow>
   identified env authenticator username address t identity t'"
  by (cases authenticator) (auto simp: authenticateOnline_identified identified_def tlift_eq_Ok)

text \<open>A plain transport: what a frame read leaves, and what a frame written puts on the wire.\<close>

definition plain_setup :: "int \<Rightarrow> 'c Transport \<Rightarrow> bool" where
  "plain_setup m t \<longleftrightarrow> t_encryption t = None \<and> t_compression t = None \<and> t_framer t = NewFramer m"

lemma plain_read:
  assumes "plain_setup m t" "frame_fits (NewFramer m) p" "pending (view t) = frame p @ rest"
  shows "\<exists>t'. net_ReadFrame e t = (Ok p, t') \<and> plain_setup m t' \<and> t_conn t' = t_conn t \<and> pending (view t') = rest"
proof -
  obtain t' where t': "Transport_ReadFrame (net_inflate e) (net_ahead e t) t = (Ok p, t')" "same_setup t t'"
    "view t' = (view t)\<lparr>pending := rest\<rparr>"
    using ReadFrame_view [of "net_deflate e" "net_inflate e" t p rest "net_ahead e t"] assms
    by (auto simp: readable_def wire_image_def plain_setup_def)
  have "t_conn t' = t_conn t" "t_encryption t' = None"
    using t'(1) assms(1) discard_plain [of t]
    by (auto simp: Transport_ReadFrame_def bufio_discard_def fill_plain plain_setup_def Let_def split: prod.splits)
  with t' assms(1) show ?thesis by (auto simp: net_ReadFrame_def plain_setup_def same_setup_def)
qed

lemma plain_write:
  assumes "net_conn (net_write e) sent usable" "net_closing e t = NotClosed" "plain_setup m t" "usable (t_conn t)"
    "net_WriteFrame e t payload = (Ok (), t')"
  shows "sent (t_conn t') = sent (t_conn t) @ frame payload \<and> usable (t_conn t') \<and> plain_setup m t' \<and> view t' = view t"
  using net_conn.WriteFrame_wire [OF assms(1,4), of "net_deflate e" payload t'] assms(2,3,5) net_WriteFrame_view [OF assms(5)]
  by (auto simp: net_WriteFrame_def unsealed_def wire_image_def plain_setup_def same_setup_def)

lemma ping_packets:
  "ParseRequest [0] = Ok ()" "ParsePing (1 # PutUint64 v) = Ok v" "PongPayload v = 1 # PutUint64 v"
  using ParsePing_PongPayload [of v] PacketID_varint_only [of 0] by (simp_all add: ParseRequest_def PongPayload_def varint_last)

text \<open>
  C27: the status ping, byte for byte. A client sends a status request and a ping with the value \<open>v\<close> and perhaps more, on a
  connection that keeps the contract of \<open>net.Conn\<close>. If \<open>serveStatus\<close> runs to its end, it has sent the frame of the
  configured status and the frame of a pong with the same value, nothing else, and has read nothing
  beyond the ping. It ends early only because one of these two frames could not be written.
\<close>

theorem status_ping_answered:
  assumes "net_conn (net_write (en_net env)) sent usable" "\<And>t. net_closing (en_net env) t = NotClosed" "usable conn"
    "net_safe (en_net env)" "9 \<le> m" "en_json env response = Ok json"
  shows "case serveStatus env response (New_Transport conn (frame [0] @ frame (1 # PutUint64 v) @ rest) err m) of
      (Ok _, t') \<Rightarrow> pending (view t') = rest \<and>
        sent (t_conn t') = sent conn @ frame (0 # varint (of_nat (length json)) @ bytes_of json) @ frame (1 # PutUint64 v)
    | (Fail e, t') \<Rightarrow>
        (\<exists>t p. (p = 0 # varint (of_nat (length json)) @ bytes_of json \<or> p = 1 # PutUint64 v) \<and>
           net_WriteFrame (en_net env) t p = (Fail e, t'))
    | (Panic, _) \<Rightarrow> False"
proof -
  let ?e = "en_net env" and ?ping = "1 # PutUint64 v" and ?resp = "0 # varint (of_nat (length json)) @ bytes_of json"
  let ?t = "New_Transport conn (frame [0] @ frame ?ping @ rest) err m"
  have start: "plain_setup m ?t" "t_conn ?t = conn" "pending (view ?t) = frame [0] @ frame ?ping @ rest"
    by (simp_all add: plain_setup_def New_Transport_def view_def decrypted_def)
  have fits: "frame_fits (NewFramer m) [0]" "frame_fits (NewFramer m) ?ping"
    using assms(5) by (simp_all add: frame_fits_def NewFramer_def PutUint64_def)
  have resp: "ResponsePayload (en_json env) response = Ok ?resp"
    using assms(6) by (simp add: ResponsePayload_def varint_last AppendString_def mcstring_def Let_def)
  obtain t1 where t1: "net_ReadFrame ?e ?t = (Ok [0], t1)" "plain_setup m t1" "t_conn t1 = conn" "pending (view t1) = frame ?ping @ rest"
    using plain_read [OF start(1) fits(1) start(3)] start(2) by auto
  obtain x t2 where t2: "net_WriteFrame ?e t1 ?resp = (x, t2)" by fastforce
  have "x \<noteq> Panic" using net_WriteFrame_no_panic [OF assms(4), of t1 ?resp] t2 by simp
  then consider e where "x = Fail e" | "x = Ok ()" by (cases x) auto
  then show ?thesis
  proof cases
    case 1
    then show ?thesis using t1(1) t2 resp ping_packets
      by (simp add: serveStatus_def tbind_def tlift_def server_writeFrame_def) blast
  next
    case 2
    then have w: "sent (t_conn t2) = sent conn @ frame ?resp" "usable (t_conn t2)" "plain_setup m t2" "view t2 = view t1"
      using plain_write [OF assms(1,2) t1(2)] t1(3) assms(3) t2 by auto
    obtain t3 where t3: "net_ReadFrame ?e t2 = (Ok ?ping, t3)" "plain_setup m t3" "t_conn t3 = t_conn t2" "pending (view t3) = rest"
      using plain_read [OF w(3) fits(2)] t1(4) w(4) by metis
    obtain y t4 where t4: "net_WriteFrame ?e t3 ?ping = (y, t4)" by fastforce
    have run: "serveStatus env response ?t = (y, t4)"
      using t1(1) t2 2 t3(1) t4 resp ping_packets by (simp add: serveStatus_def tbind_def tlift_def server_writeFrame_def)
    have "y \<noteq> Panic" using net_WriteFrame_no_panic [OF assms(4), of t3 ?ping] t4 by simp
    moreover have "pending (view t4) = rest \<and> sent (t_conn t4) = sent conn @ frame ?resp @ frame ?ping" if "y = Ok ()"
      using plain_write [OF assms(1,2) t3(2), of ?ping t4] t3(3,4) w(1,2) t4 that by simp
    ultimately show ?thesis unfolding run using t4 by (cases y) auto
  qed
qed

text \<open>
  C28: the login. A player reaches Limbo exactly through this conversation: a login start with a
  valid name; the identification, which in online mode is the encryption exchange and an
  authentication of that name, after which the connection is encrypted; the login success with
  that identity, acknowledged; the registry and the end of the configuration, answered by at most
  sixteen well-formed setup packets and the acknowledgement. The session is then in Limbo Play.
\<close>

theorem login_conversation:
  "serveLogin env authenticator remote t = (Ok (identity, s), t') \<longleftrightarrow>
     s = New_Session\<lparr>state := StateLimboPlay\<rparr> \<and>
     (\<exists>hello start t1 t2 ack ps finish.
        talk (en_net env) t [Recv hello] t1 \<and> ParseStart hello = Ok start \<and>
        identified env authenticator (ls_Username start) (remoteHost remote) t1 identity t2 \<and>
        ParseAcknowledged ack = Ok () \<and> length ps \<le> 16 \<and> list_all (\<lambda>p. ParseClientSetup p = Ok ()) ps \<and>
        ParseFinishAcknowledged finish = Ok () \<and>
        talk (en_net env) t2
          ([Sent (SuccessProfilePayload (UUID identity) (Username identity) (login_properties (Properties identity))),
            Recv ack, Sent (5 # 10 # encodePayload MinimalRegistryData), Sent FinishPayload] @
           map Recv ps @ [Recv finish]) t')"
proof -
  have conf: "readClientConfiguration e u = (Ok x, t') \<longleftrightarrow>
      (\<exists>ps p. length ps \<le> 16 \<and> list_all (\<lambda>p. ParseClientSetup p = Ok ()) ps \<and> ParseFinishAcknowledged p = Ok () \<and>
         talk e u (map Recv ps @ [Recv p]) t')" for e :: "'a net" and u x t'
    unfolding readClientConfiguration_def maxClientConfigurationSetupPackets_def
    using readClientConfiguration_loop_conversation [of e "Suc 16" u t'] unfolding less_Suc_eq_le by simp
  show ?thesis
    unfolding serveLogin_def tbind_iff login_transitions res.inject RegistryDataPayload_Minimal
      identification server_writeFrame_talk read_talk conf append_Cons append_Nil
      talk_Cons [of _ _ "Sent _" "_ # _"] talk_Cons [of _ _ "Recv _" "_ # _"] talk_Cons [of _ _ _ "map Recv _ @ _"]
    by (simp add: tlift_eq_Ok tbind_iff login_transitions) blast
qed


section \<open>No panic\<close>

text \<open>Surroundings whose failures are errors: the contract of the libraries behind them.\<close>

definition entry_safe :: "('c, 'k) entry_env \<Rightarrow> 'k Authenticator option \<Rightarrow> bool" where
  "entry_safe env authenticator \<longleftrightarrow> net_safe (en_net env) \<and> (\<forall>n. en_random env n \<noteq> Panic) \<and>
     (\<forall>k data. en_rsa env k data \<noteq> Panic) \<and> (\<forall>k. en_aes env k \<noteq> Panic) \<and> (\<forall>r. en_json env r \<noteq> Panic) \<and>
     (case authenticator of None \<Rightarrow> True | Some a \<Rightarrow> \<forall>u h i. verifier a u h i \<noteq> Panic)"

lemma tlift_no_panic: "r \<noteq> Panic \<Longrightarrow> fst (tlift r t) \<noteq> Panic"
  by (simp add: tlift_def)

lemma server_writeFrame_no_panic: "net_safe e \<Longrightarrow> fst (server_writeFrame e payload t) \<noteq> Panic"
  by (simp add: server_writeFrame_def net_WriteFrame_no_panic)

lemma EnableEncryption_no_panic: "(\<And>k. aes k \<noteq> Panic) \<Longrightarrow> fst (EnableEncryption aes key iv t) \<noteq> Panic"
  by (auto simp: EnableEncryption_def NewCipherState_def res_iff split: res.splits)

lemma login_transition_no_panic: "login_transition s st \<noteq> Panic"
  by (auto simp: login_transition_def Transition_def transitionLocked_def Let_def split: prod.splits if_splits)

lemma authentication_no_panic:
  "(\<And>n. random n \<noteq> Panic) \<Longrightarrow> Begin random a \<noteq> Panic"
  "(\<And>k data. rsa k data \<noteq> Panic) \<Longrightarrow> (\<And>u h i. verifier a u h i \<noteq> Panic) \<Longrightarrow>
     Authenticate rsa sha1 a c username address es et \<noteq> Panic"
  by (auto simp: Begin_def Authenticate_def Challenge_Decrypt_def res_iff split: if_splits)

lemma readClientConfiguration_no_panic:
  assumes "net_safe e"
  shows "fst (readClientConfiguration e t) \<noteq> Panic"
proof -
  have "fst (readClientConfiguration_loop e n t) \<noteq> Panic" for n
  proof (induction n arbitrary: t)
    case (Suc n)
    obtain r t1 where "net_ReadFrame e t = (r, t1)" by fastforce
    moreover from this have "r \<noteq> Panic" using net_ReadFrame_no_panic [OF assms, of t] by simp
    ultimately show ?case using Suc [of t1] by (auto split: res.splits)
  qed simp
  then show ?thesis unfolding readClientConfiguration_def .
qed

lemma serveStatus_no_panic: "entry_safe env a \<Longrightarrow> fst (serveStatus env response t) \<noteq> Panic"
  unfolding serveStatus_def entry_safe_def
  by (intro tbind_no_panic tlift_no_panic server_writeFrame_no_panic net_ReadFrame_no_panic)
    (simp_all add: ResponsePayload_def res_iff)

lemma authenticateOnline_no_panic:
  assumes "entry_safe env (Some a)"
  shows "fst (authenticateOnline env a username address t) \<noteq> Panic"
proof -
  have safe: "net_safe (en_net env)" "\<And>n. en_random env n \<noteq> Panic" "\<And>k data. en_rsa env k data \<noteq> Panic"
    "\<And>k. en_aes env k \<noteq> Panic" "\<And>u h i. verifier a u h i \<noteq> Panic"
    using assms by (simp_all add: entry_safe_def)
  show ?thesis
    unfolding authenticateOnline_def split_beta
    by (intro tbind_no_panic tlift_no_panic server_writeFrame_no_panic net_ReadFrame_no_panic
        authentication_no_panic EnableEncryption_no_panic safe) simp_all
qed

lemma serveLogin_no_panic:
  assumes "entry_safe env authenticator"
  shows "fst (serveLogin env authenticator remote t) \<noteq> Panic"
proof -
  have net: "net_safe (en_net env)" using assms by (simp add: entry_safe_def)
  have who: "fst ((case authenticator of None \<Rightarrow> tlift (Ok identity) | Some a \<Rightarrow> authenticateOnline env a username address) t) \<noteq> Panic"
    for identity username address t
    using assms authenticateOnline_no_panic [of env] by (cases authenticator) (simp_all add: tlift_def)
  show ?thesis
    unfolding serveLogin_def
    by (intro tbind_no_panic tlift_no_panic server_writeFrame_no_panic net_ReadFrame_no_panic who net
        readClientConfiguration_no_panic login_transition_no_panic) (simp_all add: RegistryDataPayload_Minimal)
qed

text \<open>
  C29: no client crashes the server. Whatever bytes a client sends, in whatever pieces they arrive
  and whenever the connection breaks, serving the connection up to Limbo does not panic: no index
  of a parser is out of range, and every failure ends the connection. The connection and the
  cryptographic libraries report their failures as errors.
\<close>

theorem serveConn_no_panic:
  assumes "entry_safe env (sc_OnlineAuthenticator (srv_config s))"
  shows "fst (serveConn env addr conn client session now s t) \<noteq> Panic"
proof -
  have "net_safe (en_net env)" using assms by (simp add: entry_safe_def)
  then have read: "fst (net_ReadFrame (en_net env) t) \<noteq> Panic" by (rule net_ReadFrame_no_panic)
  have status: "status_result (fst (serveStatus env r u)) \<noteq> Panic" for r u
    using serveStatus_no_panic [OF assms, of r u] by (auto simp: status_result_def split: res.splits)
  have login: "login_result (fst (serveLogin env (sc_OnlineAuthenticator (srv_config s)) (addr conn) u)) \<noteq> Panic" for u
    using serveLogin_no_panic [OF assms, of "addr conn" u] by (auto simp: login_result_def split: res.splits)
  obtain x t1 where x: "net_ReadFrame (en_net env) t = (x, t1)" by fastforce
  show ?thesis
  proof (cases x)
    case (Ok frm)
    then show ?thesis
      using x status [of _ t1] login [of t1]
      by (cases "handshake_Parse frm") (simp_all add: serveConn_def Let_def trackClient_def split_beta)
  qed (use x read in \<open>simp_all add: serveConn_def Let_def\<close>)
qed

definition sample_entry :: "(tcp, unit) entry_env" where
  "sample_entry = \<lparr>en_net = plain_net, en_random = (\<lambda>n. Ok (replicate n 1)), en_rsa = (\<lambda>k data. Ok data), en_sha1 = id,
     en_aes = example_aes, en_md5 = (\<lambda>data. replicate 16 0), en_json = (\<lambda>r. Ok ''{}'')\<rparr>"

lemma sample_entry_safe: "entry_safe sample_entry None"
proof -
  have "net_safe plain_net" by (auto simp: net_safe_def plain_net_def tcp_write_def Let_def split: list.splits)
  then show ?thesis by (simp add: entry_safe_def sample_entry_def example_aes_def)
qed

definition sample_ping :: "unit res \<times> tcp Transport" where
  "sample_ping = serveStatus sample_entry (sc_Status sample_config)
     (New_Transport sample_conn (frame [0] @ frame (1 # PutUint64 42) @ [7]) EOF 100)"

lemma sample_ping_Ok: "fst sample_ping = Ok ()"
  by code_simp

theorem status_ping_answered_witness:
  "tcp_out (t_conn (snd sample_ping)) = frame (0 # varint 2 @ bytes_of ''{}'') @ frame (1 # PutUint64 42) \<and>
   pending (view (snd sample_ping)) = [7]"
proof -
  have net: "en_net sample_entry = plain_net" "en_json sample_entry (sc_Status sample_config) = Ok ''{}''"
    by (simp_all add: sample_entry_def)
  have "case sample_ping of
      (Ok _, t') \<Rightarrow> pending (view t') = [7] \<and> tcp_out (t_conn t') = tcp_out sample_conn @
        frame (0 # varint (of_nat (length ''{}'')) @ bytes_of ''{}'') @ frame (1 # PutUint64 42)
    | (Fail e, t') \<Rightarrow> (\<exists>t p. (p = 0 # varint (of_nat (length ''{}'')) @ bytes_of ''{}'' \<or> p = 1 # PutUint64 42) \<and>
        net_WriteFrame (en_net sample_entry) t p = (Fail e, t'))
    | (Panic, _) \<Rightarrow> False"
    unfolding sample_ping_def
  proof (rule status_ping_answered [where usable = "\<lambda>_. True", OF _ _ _ _ _ net(2)])
    show "net_conn (net_write (en_net sample_entry)) tcp_out (\<lambda>_. True)"
      using tcp.net_conn_axioms by (simp add: net plain_net_def)
    show "net_safe (en_net sample_entry)" using sample_entry_safe by (simp add: entry_safe_def)
  qed (simp_all add: net plain_net_def)
  moreover obtain t' where t': "sample_ping = (Ok (), t')" using sample_ping_Ok by (metis prod.collapse)
  moreover have "of_nat (length ''{}'') = (2 :: int32)" "tcp_out sample_conn = []" by (simp_all add: sample_conn_def)
  ultimately show ?thesis unfolding t' prod.case res.case snd_conv by (simp only: append_Nil)
qed

theorem serveConn_no_panic_witness:
  "fst (serveConn sample_entry sample_addr 0 () () 0 sample_server (New_Transport sample_conn [2, 0, 0] EOF 100)) \<noteq> Panic"
proof (rule serveConn_no_panic)
  have "sc_OnlineAuthenticator (srv_config sample_server) = None"
    by (simp add: sample_server_def server_defaults_def sample_config_def)
  then show "entry_safe sample_entry (sc_OnlineAuthenticator (srv_config sample_server))"
    by (simp add: sample_entry_safe)
qed

end
