(* ===== verification/Limbo.thy ===== *)
theory Limbo
  imports Entry "HOL-Library.Sublist"
begin

text \<open>
  The Limbo event loop, \<open>serveLimbo\<close> of \<open>internal/server/server.go\<close>, with \<open>handleBarrierFrame\<close>,
  \<open>prepareTransfer\<close>, \<open>pendingIDs\<close> and \<open>Admit\<close>. The variables of the function are a record, every
  case of the \<open>select\<close> is a definition, and the loop takes events in any order the channels allow.
  What other goroutines do between two events (a transfer being prepared, the barrier timer, other
  players' calls on the queue) are events of their own.

  The theorems show what a player must have done before being queued, that every admission
  request is answered at most once and no answer blocks the loop, and what the loop does with
  keepalives behind the barrier.
\<close>

section \<open>Definitions\<close>

subsection \<open>Frames behind the barrier\<close>

definition barrier_input :: "Input \<Rightarrow> Session \<Rightarrow> unit res \<times> Session" where
  "barrier_input i s =
     (case HandleBarrierInput s i of ((_, None), s) \<Rightarrow> (Ok (), s) | ((_, Some e), s) \<Rightarrow> (Fail e, s))"

definition zero_command :: PlayerCommand where
  "zero_command = \<lparr>EntityID = 0, ActionID = 0, CommandData = 0\<rparr>"

definition zero_input :: Input where
  "zero_input = \<lparr>Kind = InputUnsafe, KeepAliveID = 0, in_Position = zero_Position, HasLook = False, Command = zero_command\<rparr>"

definition movement_input :: "Movement \<Rightarrow> Input" where
  "movement_input m = zero_input\<lparr>Kind := InputMovement, HasLook := mv_HasLook m,
     in_Position := \<lparr>pos_X = mv_X m, pos_Y = mv_Y m, pos_Z = mv_Z m, pos_Yaw = mv_Yaw m, pos_Pitch = mv_Pitch m,
                     pos_OnGround = mv_OnGround m\<rparr>\<rparr>"

definition handleBarrierFrame :: "Session \<Rightarrow> int32 \<Rightarrow> bytes \<Rightarrow> unit res \<times> Session" where
  "handleBarrierFrame s packet_id frm =
     (case Session_BarrierPhase s of
        Fail e \<Rightarrow> (Fail e, s)
      | Panic \<Rightarrow> (Panic, s)
      | Ok ph \<Rightarrow>
          if ph = BarrierAwaitingClientConfigurationStart \<and> packet_id = ServerboundConfigurationAcknowledgedID then
            (case ParseConfigurationAcknowledged frm of
               Ok _ \<Rightarrow> AdvanceBarrier s BarrierClientConfiguration
             | r \<Rightarrow> (r, s))
          else if ph = BarrierAwaitingClientConfigurationFinish \<and> packet_id = ServerboundFinishConfigurationID then
            (case ParseFinishAcknowledged frm of
               Ok _ \<Rightarrow> AdvanceBarrier s BarrierReady
             | r \<Rightarrow> (r, s))
          else if ph = BarrierAwaitingClientConfigurationFinish \<and>
                  (packet_id = ServerboundClientInformationID \<or> packet_id = ServerboundPluginMessageID) then
            (ParseClientSetup frm, s)
          else if packet_id = ServerboundConfigurationAcknowledgedID \<or> packet_id = ServerboundFinishConfigurationID then
            (Fail ErrPlayMalformed, s)
          else if packet_id = ServerboundKeepAliveID then
            (case ParseKeepAlive frm of
               Ok i \<Rightarrow> barrier_input (zero_input\<lparr>Kind := InputKeepAlive, KeepAliveID := i\<rparr>) s
             | Fail e \<Rightarrow> (Fail e, s)
             | Panic \<Rightarrow> (Panic, s))
          else if packet_id = ServerboundPositionID \<or> packet_id = ServerboundPositionLookID then
            (case DecodeMovement frm of
               Ok m \<Rightarrow> barrier_input (movement_input m) s
             | Fail e \<Rightarrow> (Fail e, s)
             | Panic \<Rightarrow> (Panic, s))
          else if packet_id = ServerboundPlayerCommandID then
            (case ParsePlayerCommand frm of
               Ok c \<Rightarrow> barrier_input (zero_input\<lparr>Kind := InputPlayerCommand, Command := c\<rparr>) s
             | Fail e \<Rightarrow> (Fail e, s)
             | Panic \<Rightarrow> (Panic, s))
          else barrier_input (zero_input\<lparr>Kind := InputUnsafe\<rparr>) s)"

definition pendingIDs :: "int64 \<Rightarrow> int64 list" where
  "pendingIDs i = (if i = 0 then [] else [i])"

subsection \<open>The state of the loop\<close>

text \<open>
  The surroundings: the networks of client and backend, whether there is a transfer coordinator,
  the challenge hook, the player, the context and callback of the player's queue item, what other
  goroutines do to a transfer while the client is written to, and the results of clearing the
  write deadlines.
\<close>

record ('b, 'c, 'q, 'f) limbo_env =
  lm_client :: "'c net"
  lm_backend :: "'b net"
  lm_coordinator :: bool
  lm_hook :: "challenge_hook option"
  lm_identity :: PlayerIdentity
  lm_queueCtx :: 'q
  lm_admit :: 'f
  lm_meanwhile :: "'b Prepared \<times> Session \<Rightarrow> 'b Prepared \<times> Session"
  lm_clear_client :: "'c Transport \<Rightarrow> err option"
  lm_clear_backend :: "'b Transport \<Rightarrow> err option"

text \<open>
  A channel variable is whether it is not nil; \<open>lb_preparing\<close> also holds the keepalives given to
  the \<open>Prepare\<close> whose result is awaited. \<open>lb_answers\<close> are the results sent to admission requests, \<open>lb_unread\<close> the
  requests whose channel holds a result that \<open>Admit\<close> has not received. \<open>lb_wrote\<close> are the packets
  written to the client with \<open>writeFrame\<close>, from the first keepalive on. \<open>lb_released\<close> is the backend connection that
  \<open>Release\<close> handed to the loop. The player's client transport, session and admission queue are
  shared with other goroutines.
\<close>

record ('b, 'c, 'q, 'f, 'r) limbo =
  lb_client :: "'c Transport"
  lb_session :: Session
  lb_queue :: "('q, 'f) FIFO option"
  lb_keepAliveID :: int64
  lb_pendingKeepAlive :: int64
  lb_timeoutC :: bool
  lb_prepared :: "'b Prepared option"
  lb_prepareDone :: bool
  lb_preparing :: "int64 list option"
  lb_activeAdmission :: "'r option"
  lb_clientConfigurationSent :: bool
  lb_queued :: bool
  lb_challengeStarted :: bool
  lb_challengePassed :: bool
  lb_validKeepAlives :: int
  lb_requiredKeepAlives :: int
  lb_challengeResult :: bool
  lb_tickInterval :: "duration option"
  lb_answers :: "('r \<times> err option) list"
  lb_unread :: "'r set"
  lb_wrote :: "bytes list"
  lb_released :: "'b Transport option"

text \<open>
  What a case of the \<open>select\<close> comes to: the next round, a return, the play bridge, a send that
  blocks for ever, or a panic.
\<close>

datatype 'b limbo_outcome = GoesOn | Returns err | Plays "'b Transport" | Blocks | Panics

type_synonym ('b, 'c, 'q, 'f, 'r) limbo_action =
  "('b, 'c, 'q, 'f, 'r) limbo \<Rightarrow> 'b limbo_outcome \<times> ('b, 'c, 'q, 'f, 'r) limbo"

definition outcome_of :: "unit res \<Rightarrow> 'b limbo_outcome" where
  "outcome_of r = (case r of Ok _ \<Rightarrow> GoesOn | Fail e \<Rightarrow> Returns e | Panic \<Rightarrow> Panics)"

definition lthen :: "('b, 'c, 'q, 'f, 'r) limbo_action \<Rightarrow> ('b, 'c, 'q, 'f, 'r) limbo_action \<Rightarrow> ('b, 'c, 'q, 'f, 'r) limbo_action" where
  "lthen m k s = (case m s of (GoesOn, s) \<Rightarrow> k s | (x, s) \<Rightarrow> (x, s))"

text \<open>
  A send to a request's channel, which has room for one result, and to that of the active admission, which may
  be nil. The loop waits for ever on a full channel whose request has given up, and on a nil one.
\<close>

definition answer :: "'r \<Rightarrow> err option \<Rightarrow> ('b, 'c, 'q, 'f, 'r) limbo_action" where
  "answer r e s =
     (if r \<in> lb_unread s then (Blocks, s)
      else (GoesOn, s\<lparr>lb_answers := lb_answers s @ [(r, e)], lb_unread := insert r (lb_unread s)\<rparr>))"

definition answer_active :: "err option \<Rightarrow> ('b, 'c, 'q, 'f, 'r) limbo_action" where
  "answer_active e s = (case lb_activeAdmission s of None \<Rightarrow> (Blocks, s) | Some r \<Rightarrow> answer r e s)"

definition limbo_write :: "('b, 'c, 'q, 'f) limbo_env \<Rightarrow> bytes \<Rightarrow> ('b, 'c, 'q, 'f, 'r) limbo_action" where
  "limbo_write env payload s =
     (case server_writeFrame (lm_client env) payload (lb_client s) of
        (r, t) \<Rightarrow> (outcome_of r, s\<lparr>lb_client := t, lb_wrote := lb_wrote s @ (if r = Ok () then [payload] else [])\<rparr>))"

subsection \<open>Joining the queue\<close>

definition limbo_item :: "('b, 'c, 'q, 'f) limbo_env \<Rightarrow> ('q, 'f) Item" where
  "limbo_item env = \<lparr>ID = hex_EncodeToString (UUID (lm_identity env)), Context = Some (Context_Handle (lm_queueCtx env)),
     Admit = Some (lm_admit env)\<rparr>"

definition limbo_enqueue :: "('b, 'c, 'q, 'f) limbo_env \<Rightarrow> ('b, 'c, 'q, 'f, 'r) limbo_action" where
  "limbo_enqueue env s =
     (case lb_queue s of
        None \<Rightarrow> (GoesOn, s)
      | Some q \<Rightarrow>
          if lb_queued s \<or> \<not> lm_coordinator env then (GoesOn, s)
          else
            (case Enqueue q (limbo_item env) of
               (Fail e, q) \<Rightarrow> (Returns e, s\<lparr>lb_queue := Some q\<rparr>)
             | (Panic, q) \<Rightarrow> (Panics, s\<lparr>lb_queue := Some q\<rparr>)
             | (Ok _, q) \<Rightarrow> (GoesOn, s\<lparr>lb_queue := Some q, lb_queued := True\<rparr>)))"

definition maybeEnqueue :: "('b, 'c, 'q, 'f) limbo_env \<Rightarrow> ('b, 'c, 'q, 'f, 'r) limbo_action" where
  "maybeEnqueue env s =
     (if lb_challengePassed s \<and> lb_validKeepAlives s \<ge> lb_requiredKeepAlives s then limbo_enqueue env s else (GoesOn, s))"

subsection \<open>Completing a transfer\<close>

text \<open>
  The part of \<open>progress\<close> behind \<open>Release\<close>: replay to the backend, clear the deadlines, answer the
  admission and enter the bridge. A failure closes the backend connection.
\<close>

definition finish_transfer ::
    "('b, 'c, 'q, 'f) limbo_env \<Rightarrow> Replay \<Rightarrow> 'b Transport \<Rightarrow> ('b, 'c, 'q, 'f, 'r) limbo_action" where
  "finish_transfer env replay backendConn s =
     (case write_packets (lm_backend env) backendConn (ReplayPayloads replay) of
        (Fail e, backendConn) \<Rightarrow> (Returns e, s\<lparr>lb_released := Some (net_Close (lm_backend env) backendConn)\<rparr>)
      | (Panic, backendConn) \<Rightarrow> (Panics, s\<lparr>lb_released := Some backendConn\<rparr>)
      | (Ok _, backendConn) \<Rightarrow>
          (case lm_clear_client env (lb_client s) of
             Some e \<Rightarrow> (Returns e, s\<lparr>lb_released := Some (net_Close (lm_backend env) backendConn)\<rparr>)
           | None \<Rightarrow>
               (case lm_clear_backend env backendConn of
                  Some e \<Rightarrow> (Returns e, s\<lparr>lb_released := Some (net_Close (lm_backend env) backendConn)\<rparr>)
                | None \<Rightarrow>
                    lthen (answer_active None) (\<lambda>s. (Plays backendConn, s)) (s\<lparr>lb_released := Some backendConn\<rparr>))))"

definition progress :: "('b, 'c, 'q, 'f) limbo_env \<Rightarrow> ('b, 'c, 'q, 'f, 'r) limbo_action" where
  "progress env s =
     (case lb_prepared s of
        None \<Rightarrow> (GoesOn, s)
      | Some p \<Rightarrow>
          (case Session_BarrierPhase (lb_session s) of
             Fail e \<Rightarrow> (Returns e, s)
           | Panic \<Rightarrow> (Panics, s)
           | Ok ph \<Rightarrow>
               if ph = BarrierClientConfiguration \<and> \<not> lb_clientConfigurationSent s then
                 (case WriteClientConfiguration (lm_client env) (lm_meanwhile env) p (lb_session s) (lb_client s) of
                    (r, p, st, t) \<Rightarrow>
                      let s = s\<lparr>lb_prepared := Some p, lb_session := st, lb_client := t\<rparr> in
                      (outcome_of r, if r = Ok () then s\<lparr>lb_clientConfigurationSent := True\<rparr> else s))
               else if ph = BarrierReady then
                 (case Release p (lb_session s) of
                    (r, p, st) \<Rightarrow>
                      let s = s\<lparr>lb_prepared := Some p, lb_session := st\<rparr> in
                      (case r of
                         Fail e \<Rightarrow> (Returns e, s)
                       | Ok (replay, Some backendConn) \<Rightarrow> finish_transfer env replay backendConn s
                       | _ \<Rightarrow> (Panics, s)))
               else (GoesOn, s)))"

subsection \<open>The cases of the select\<close>

definition on_challenge :: "('b, 'c, 'q, 'f) limbo_env \<Rightarrow> err option \<Rightarrow> ('b, 'c, 'q, 'f, 'r) limbo_action" where
  "on_challenge env r s =
     (let s = s\<lparr>lb_challengeResult := False\<rparr> in
      case r of
        Some e \<Rightarrow> (Returns (ErrWrap ''limbo challenge failed'' e), s)
      | None \<Rightarrow> maybeEnqueue env (s\<lparr>lb_challengePassed := True\<rparr>))"

definition on_admission :: "('b, 'c, 'q, 'f) limbo_env \<Rightarrow> 'r \<Rightarrow> ('b, 'c, 'q, 'f, 'r) limbo_action" where
  "on_admission env request s =
     (if \<not> lm_coordinator env \<or> lb_prepared s \<noteq> None \<or> state (lb_session s) \<noteq> StateLimboPlay
      then answer request (Some (ErrText ''session is not available for transfer'')) s
      else (GoesOn, s\<lparr>lb_activeAdmission := Some request, lb_preparing := Some (pendingIDs (lb_pendingKeepAlive s))\<rparr>))"

definition on_prepared :: "('b, 'c, 'q, 'f) limbo_env \<Rightarrow> 'b Prepared res \<Rightarrow> ('b, 'c, 'q, 'f, 'r) limbo_action" where
  "on_prepared env result s =
     (let s = s\<lparr>lb_preparing := None\<rparr> in
      case result of
        Panic \<Rightarrow> (Panics, s)
      | Fail e \<Rightarrow>
          lthen (answer_active (Some e))
            (\<lambda>s. (GoesOn, s\<lparr>lb_activeAdmission := None, lb_pendingKeepAlive := 0, lb_timeoutC := False\<rparr>)) s
      | Ok p \<Rightarrow>
          (case BeginClientConfiguration (lm_client env) (lm_meanwhile env) p (lb_session s) (lb_client s) of
             (r, p, st, t) \<Rightarrow>
               let s = s\<lparr>lb_prepared := Some p, lb_prepareDone := True, lb_clientConfigurationSent := False,
                         lb_session := st, lb_client := t\<rparr> in
               (case r of
                  Ok _ \<Rightarrow> (GoesOn, s)
                | Panic \<Rightarrow> (Panics, s)
                | Fail e \<Rightarrow>
                    (case Rollback (lm_backend env) p (lb_session s) of
                       (_, _, p, st) \<Rightarrow>
                         lthen (answer_active (Some e))
                           (\<lambda>s. (GoesOn, s\<lparr>lb_prepared := None, lb_prepareDone := False\<rparr>))
                           (s\<lparr>lb_prepared := Some p, lb_session := st\<rparr>)))))"

definition on_prepare_done :: "('b, 'c, 'q, 'f, 'r) limbo_action" where
  "on_prepare_done s =
     (case lb_prepared s of
        None \<Rightarrow> (GoesOn, s)
      | Some p \<Rightarrow>
          (case Prepared_Err p of
             None \<Rightarrow> (GoesOn, s)
           | Some e \<Rightarrow>
               lthen (answer_active (Some e))
                 (\<lambda>s. (GoesOn, s\<lparr>lb_prepared := None, lb_prepareDone := False, lb_activeAdmission := None,
                               lb_pendingKeepAlive := 0, lb_timeoutC := False\<rparr>)) s))"

text \<open>
  The first valid answer starts the challenge. A hook may ask for more keepalives and for a
  shorter interval between them, which resets the ticker.
\<close>

definition start_challenge :: "('b, 'c, 'q, 'f) limbo_env \<Rightarrow> ('b, 'c, 'q, 'f, 'r) limbo_action" where
  "start_challenge env s =
     (if lb_challengeStarted s then (GoesOn, s)
      else
        let s = s\<lparr>lb_challengeStarted := True\<rparr> in
        case lm_hook env of
          None \<Rightarrow> maybeEnqueue env (s\<lparr>lb_challengePassed := True\<rparr>)
        | Some h \<Rightarrow>
            let s = (case hook_RequiredKeepAlives h of
                       None \<Rightarrow> s
                     | Some f \<Rightarrow> s\<lparr>lb_requiredKeepAlives := (if f (lm_identity env) < 1 then 1 else f (lm_identity env))\<rparr>);
                s = (case hook_KeepAliveInterval h of
                       None \<Rightarrow> s
                     | Some f \<Rightarrow> if f (lm_identity env) > 0 then s\<lparr>lb_tickInterval := Some (f (lm_identity env))\<rparr> else s)
            in (GoesOn, s\<lparr>lb_challengeResult := True\<rparr>))"

definition on_keepalive :: "('b, 'c, 'q, 'f) limbo_env \<Rightarrow> bytes \<Rightarrow> ('b, 'c, 'q, 'f, 'r) limbo_action" where
  "on_keepalive env payload s =
     (case ParseKeepAlive payload of
        Panic \<Rightarrow> (Panics, s)
      | Fail _ \<Rightarrow> (Returns ErrPlayMalformed, s)
      | Ok i \<Rightarrow>
          if lb_pendingKeepAlive s = 0 \<or> i \<noteq> lb_pendingKeepAlive s then (Returns ErrPlayMalformed, s)
          else
            lthen (start_challenge env) (lthen (maybeEnqueue env) (\<lambda>s. (GoesOn, s\<lparr>lb_timeoutC := False\<rparr>)))
              (s\<lparr>lb_pendingKeepAlive := 0, lb_validKeepAlives := lb_validKeepAlives s + 1\<rparr>))"

definition on_frame :: "('b, 'c, 'q, 'f) limbo_env \<Rightarrow> bytes res \<Rightarrow> ('b, 'c, 'q, 'f, 'r) limbo_action" where
  "on_frame env result s =
     (case result of
        Panic \<Rightarrow> (Panics, s)
      | Fail e \<Rightarrow> (Returns e, s)
      | Ok payload \<Rightarrow>
          (case PacketID payload of
             Panic \<Rightarrow> (Panics, s)
           | Fail _ \<Rightarrow> (Returns ErrPlayMalformed, s)
           | Ok (packet_id, _) \<Rightarrow>
               if state (lb_session s) = StateTransferBarrier then
                 (case handleBarrierFrame (lb_session s) packet_id payload of
                    (r, st) \<Rightarrow> lthen (\<lambda>s. (outcome_of r, s)) (progress env) (s\<lparr>lb_session := st\<rparr>))
               else if packet_id = ServerboundKeepAliveID then on_keepalive env payload s
               else if packet_id = ServerboundPositionID \<or> packet_id = ServerboundPositionLookID then
                 (outcome_of (ParseMovement payload), s)
               else (Returns ErrPlayMalformed, s)))"

definition on_tick :: "('b, 'c, 'q, 'f) limbo_env \<Rightarrow> ('b, 'c, 'q, 'f, 'r) limbo_action" where
  "on_tick env s =
     (if state (lb_session s) = StateLimboPlay \<and> lb_pendingKeepAlive s = 0 then
        let next = lb_keepAliveID s + 1 in
        lthen (limbo_write env (KeepAlivePayload next)) (\<lambda>s. (GoesOn, s\<lparr>lb_timeoutC := True\<rparr>))
          (s\<lparr>lb_keepAliveID := next, lb_pendingKeepAlive := next\<rparr>)
      else (GoesOn, s))"

definition on_timeout :: "('b, 'c, 'q, 'f, 'r) limbo_action" where
  "on_timeout s =
     (Returns (ErrText (''limbo keepalive '' @ show_int (sint (lb_pendingKeepAlive s)) @ '' timed out'')), s)"

definition on_queue_tick :: "('b, 'c, 'q, 'f) limbo_env \<Rightarrow> ('b, 'c, 'q, 'f, 'r) limbo_action" where
  "on_queue_tick env s =
     (if lb_queued s \<and> state (lb_session s) = StateLimboPlay then
        (case lb_queue s of
           None \<Rightarrow> (Panics, s)
         | Some q \<Rightarrow>
             (case FIFO_Position q (ID (limbo_item env)) of
                None \<Rightarrow> (GoesOn, s)
              | Some n \<Rightarrow>
                  (case ActionBarPayload (''Queue position: '' @ show_int (int n)) of
                     Fail e \<Rightarrow> (Returns e, s)
                   | Panic \<Rightarrow> (Panics, s)
                   | Ok payload \<Rightarrow> limbo_write env payload s)))
      else (GoesOn, s))"

text \<open>The deferred functions: the player leaves the queue.\<close>

definition limbo_leave :: "('b, 'c, 'q, 'f) limbo_env \<Rightarrow> ('b, 'c, 'q, 'f, 'r) limbo \<Rightarrow> ('b, 'c, 'q, 'f, 'r) limbo" where
  "limbo_leave env s =
     (case lb_queue s of None \<Rightarrow> s | Some q \<Rightarrow> s\<lparr>lb_queue := Some (snd (Cancel q (ID (limbo_item env))))\<rparr>)"

subsection \<open>Before the loop\<close>

definition limbo_join :: bytes where
  "limbo_join = JoinGamePayload \<lparr>jg_EntityID = 1, jg_Hardcore = False, jg_WorldName = ''minecraft:overworld'', jg_MaxPlayers = 1,
     jg_ViewDistance = 8, jg_SimulationDistance = 8, jg_DimensionType = ''minecraft:overworld'',
     jg_DimensionName = ''minecraft:overworld'', jg_HashedSeed = 0, jg_GameMode = 2, jg_PreviousGameMode = - 1,
     jg_ReducedDebugInfo = False, jg_RespawnScreen = True, jg_LimitedCrafting = False, jg_Debug = False, jg_Flat = False,
     jg_PortalCooldown = 0\<rparr>"

text \<open>The floating point constants 64 and 0.5 as bit patterns.\<close>

definition limbo_world :: "bytes list" where
  "limbo_world = [limbo_join, ChunkBatchStartPayload, VoidChunkPayload 0 0, ChunkBatchFinishedPayload 1,
     SpawnPositionPayload 0 64 0 0, PositionLookPayload 0x3FE0000000000000 0x4050000000000000 0x3FE0000000000000 0 0 1]"

definition teleport_packet :: "bytes \<Rightarrow> unit \<Rightarrow> 't \<Rightarrow> (unit res + unit) \<times> 't" where
  "teleport_packet payload u t =
     (case ParseTeleportConfirm payload of
        Ok i \<Rightarrow> (Inl (if i \<noteq> 1 then Fail ErrPlayMalformed else Ok ()), t)
      | Fail _ \<Rightarrow> (Inr (), t)
      | Panic \<Rightarrow> (Inl Panic, t))"

text \<open>The world, the wait for the teleport to be confirmed, and the first keepalive.\<close>

definition limbo_open :: "'c net \<Rightarrow> 'c Transport \<Rightarrow> (unit res \<times> 'c Transport) option" where
  "limbo_open e t =
     (case write_packets e t limbo_world of
        (Ok _, t) \<Rightarrow>
          (case frame_loop (net_ReadFrame e) (\<lambda>err t. Fail err) teleport_packet () t of
             None \<Rightarrow> None
           | Some (Ok _, t) \<Rightarrow> Some (server_writeFrame e (KeepAlivePayload 1) t)
           | Some (r, t) \<Rightarrow> Some (r, t))
      | (r, t) \<Rightarrow> Some (r, t))"

definition limbo_start :: "'c Transport \<Rightarrow> Session \<Rightarrow> ('q, 'f) FIFO option \<Rightarrow> ('b, 'c, 'q, 'f, 'r) limbo" where
  "limbo_start t st q =
     \<lparr>lb_client = t, lb_session = st, lb_queue = q, lb_keepAliveID = 1, lb_pendingKeepAlive = 1, lb_timeoutC = True,
      lb_prepared = None, lb_prepareDone = False, lb_preparing = None, lb_activeAdmission = None,
      lb_clientConfigurationSent = False, lb_queued = False, lb_challengeStarted = False, lb_challengePassed = False,
      lb_validKeepAlives = 0, lb_requiredKeepAlives = 1, lb_challengeResult = False, lb_tickInterval = None,
      lb_answers = [], lb_unread = {}, lb_wrote = [KeepAlivePayload 1], lb_released = None\<rparr>"

subsection \<open>The loop\<close>

datatype ('b, 'q, 'f, 'r) limbo_event =
    ChallengeResult "err option"
  | AdmissionRequest 'r
  | PrepareOutcome "'b Prepared res"
  | PrepareDone
  | FrameArrives "bytes res"
  | KeepAliveTick
  | TimeoutFires
  | QueueTick
  | BarrierTimer
  | ResultRead 'r
  | SessionMoves Session
  | QueueMoves "('q, 'f) FIFO option"

text \<open>
  The channels that can deliver: nil channels never do, \<open>done\<close> when it is closed. \<open>ResultRead\<close> is the
  second \<open>select\<close> of \<open>Admit\<close> taking a result.
\<close>

fun enabled :: "('b, 'q, 'f, 'r) limbo_event \<Rightarrow> ('b, 'c, 'q, 'f, 'r) limbo \<Rightarrow> bool" where
  "enabled (ChallengeResult r) s = lb_challengeResult s"
| "enabled (PrepareOutcome r) s = (lb_preparing s \<noteq> None)"
| "enabled PrepareDone s = (lb_prepareDone s \<and> (\<exists>p. lb_prepared s = Some p \<and> Done p = Some True))"
| "enabled TimeoutFires s = lb_timeoutC s"
| "enabled (ResultRead r) s = (r \<in> lb_unread s)"
| "enabled _ s = True"

fun limbo_handle :: "('b, 'c, 'q, 'f) limbo_env \<Rightarrow> ('b, 'q, 'f, 'r) limbo_event \<Rightarrow> ('b, 'c, 'q, 'f, 'r) limbo_action" where
  "limbo_handle env (ChallengeResult r) = on_challenge env r"
| "limbo_handle env (AdmissionRequest r) = on_admission env r"
| "limbo_handle env (PrepareOutcome r) = on_prepared env r"
| "limbo_handle env PrepareDone = on_prepare_done"
| "limbo_handle env (FrameArrives r) = on_frame env r"
| "limbo_handle env KeepAliveTick = on_tick env"
| "limbo_handle env TimeoutFires = on_timeout"
| "limbo_handle env QueueTick = on_queue_tick env"
| "limbo_handle env BarrierTimer = (\<lambda>s.
     case lb_prepared s of
       None \<Rightarrow> (GoesOn, s)
     | Some p \<Rightarrow>
         (case Prepared_timeout (lm_backend env) p (lb_session s) of
            (r, p, st) \<Rightarrow> (if r = Panic then Panics else GoesOn, s\<lparr>lb_prepared := Some p, lb_session := st\<rparr>)))"
| "limbo_handle env (ResultRead r) = (\<lambda>s. (GoesOn, s\<lparr>lb_unread := lb_unread s - {r}\<rparr>))"
| "limbo_handle env (SessionMoves st) = (\<lambda>s. (GoesOn, s\<lparr>lb_session := st\<rparr>))"
| "limbo_handle env (QueueMoves q) = (\<lambda>s. (GoesOn, s\<lparr>lb_queue := q\<rparr>))"

definition limbo_step ::
    "('b, 'c, 'q, 'f) limbo_env \<Rightarrow> ('b, 'c, 'q, 'f, 'r) limbo \<Rightarrow> ('b, 'q, 'f, 'r) limbo_event \<Rightarrow> ('b, 'c, 'q, 'f, 'r) limbo \<Rightarrow> bool" where
  "limbo_step env s ev s' \<longleftrightarrow> enabled ev s \<and> limbo_handle env ev s = (GoesOn, s')"

subsection \<open>Admission from outside\<close>

text \<open>
  \<open>Admit\<close>: it finds the channel of the connection, sends its request and waits for the result; each
  wait also ends with the context. \<open>sent_request\<close> and \<open>got_result\<close> say which of the two each \<open>select\<close>
  took. The second component is the channel the request went to.
\<close>

definition Server_Admit ::
    "('n, 's, 't, 'a, 'q, 'f, 'k) Server \<Rightarrow> 'n \<Rightarrow> (err + unit) \<Rightarrow> (err + err option) \<Rightarrow> err option \<times> 'a option" where
  "Server_Admit s conn sent_request got_result =
     (case srv_admissions s conn of
        None \<Rightarrow> (Some (ErrText ''connection is not in limbo''), None)
      | Some chan \<Rightarrow>
          (case sent_request of
             Inl ctx_err \<Rightarrow> (Some ctx_err, None)
           | Inr _ \<Rightarrow>
               (case got_result of
                  Inl ctx_err \<Rightarrow> (Some ctx_err, Some chan)
                | Inr result \<Rightarrow> (result, Some chan))))"

text \<open>
  \<open>prepareTransfer\<close>: the outcome of \<open>Prepare\<close> goes to the loop unless the request or the session has
  ended first, in which case a prepared transfer is rolled back.
\<close>

definition prepareTransfer ::
    "'b net \<Rightarrow> bool \<Rightarrow> 'b Prepared res \<Rightarrow> Session \<Rightarrow> 'b Prepared res option \<times> Session" where
  "prepareTransfer e ctx_done result s =
     (if \<not> ctx_done then (Some result, s)
      else
        (case result of
           Ok p \<Rightarrow> (case Rollback e p s of (_, _, _, s) \<Rightarrow> (None, s))
         | _ \<Rightarrow> (None, s)))"


section \<open>What the cases change\<close>

definition checks :: "('b, 'c, 'q, 'f, 'r) limbo \<Rightarrow> bool \<times> bool \<times> bool \<times> int \<times> int \<times> bool" where
  "checks s = (lb_queued s, lb_challengeStarted s, lb_challengePassed s, lb_validKeepAlives s, lb_requiredKeepAlives s,
     lb_challengeResult s)"

definition dealings :: "('b, 'c, 'q, 'f, 'r) limbo \<Rightarrow> bool \<times> bool \<times> 'r option \<times> ('r \<times> err option) list \<times> 'r set" where
  "dealings s = (lb_prepared s \<noteq> None, lb_preparing s \<noteq> None, lb_activeAdmission s, lb_answers s, lb_unread s)"

text \<open>What the client was sent: the keepalives among the packets written to it.\<close>

definition keepalive_packet :: "bytes \<Rightarrow> int64 list" where
  "keepalive_packet payload =
     (case PacketID payload of
        Ok (i, body) \<Rightarrow> if i = ClientboundKeepAliveID \<and> length body = 8 then [be_word body] else []
      | _ \<Rightarrow> [])"

definition keepalives_sent :: "('b, 'c, 'q, 'f, 'r) limbo \<Rightarrow> int64 list" where
  "keepalives_sent s = concat (map keepalive_packet (lb_wrote s))"

lemma keepalive_packet_sent: "keepalive_packet (KeepAlivePayload i) = [i]"
  by (simp add: keepalive_packet_def KeepAlivePayload_def PutUint64_def be_word_be_bytes take_bit_full [where 'a = 64, simplified])

lemma keepalive_packet_action_bar: "ActionBarPayload label = Ok payload \<Longrightarrow> keepalive_packet payload = []"
  using PacketID_varint [of ClientboundActionBarID]
  by (auto simp: keepalive_packet_def ActionBarPayload_cases play_ids varint_last split: if_splits)

text \<open>The last keepalive, the one awaited, and those sent.\<close>

definition ledger :: "('b, 'c, 'q, 'f, 'r) limbo \<Rightarrow> int64 \<times> int64 \<times> int64 list" where
  "ledger s = (lb_keepAliveID s, lb_pendingKeepAlive s, keepalives_sent s)"

lemma lthen_eq: "lthen m k s = (x, s') \<longleftrightarrow> (\<exists>s1. m s = (GoesOn, s1) \<and> k s1 = (x, s')) \<or> (x \<noteq> GoesOn \<and> m s = (x, s'))"
  by (auto simp: lthen_def split: prod.splits limbo_outcome.splits)

lemma outcome_of_iff [simp]:
  "outcome_of r = GoesOn \<longleftrightarrow> r = Ok ()" "outcome_of r \<noteq> Blocks" "outcome_of r \<noteq> Plays b" "GoesOn = outcome_of r \<longleftrightarrow> r = Ok ()"
  by (auto simp: outcome_of_def split: res.splits)

lemma answer_active_eq:
  "answer_active e s = (GoesOn, s') \<longleftrightarrow> (\<exists>r. lb_activeAdmission s = Some r \<and> r \<notin> lb_unread s \<and>
     s' = s\<lparr>lb_answers := lb_answers s @ [(r, e)], lb_unread := insert r (lb_unread s)\<rparr>)"
  "answer_active e s = (Blocks, s') \<longleftrightarrow> set_option (lb_activeAdmission s) \<subseteq> lb_unread s \<and> s' = s"
  by (auto simp: answer_active_def answer_def split: option.splits)

lemma answer_active_stops: "answer_active e s = (x, s') \<Longrightarrow> x \<noteq> GoesOn \<Longrightarrow> x = Blocks \<and> s' = s"
  by (auto simp: answer_active_def answer_def split: option.splits if_splits)

lemma limbo_write_keeps:
  assumes "limbo_write env payload s = (x, s')"
  shows "checks s' = checks s" "dealings s' = dealings s" "lb_queue s' = lb_queue s" "x \<noteq> Blocks" "x \<noteq> Plays b"
    "lb_keepAliveID s' = lb_keepAliveID s" "lb_pendingKeepAlive s' = lb_pendingKeepAlive s"
    "x = GoesOn \<Longrightarrow> keepalives_sent s' = keepalives_sent s @ keepalive_packet payload"
  using assms by (auto simp: limbo_write_def checks_def dealings_def keepalives_sent_def split: prod.splits)

lemma enqueue_keeps:
  assumes "limbo_enqueue env s = (x, s')"
  shows "dealings s' = dealings s" "x \<noteq> Blocks" "x \<noteq> Plays b" "ledger s' = ledger s" "lb_queued s \<Longrightarrow> s' = s"
    "lb_challengeStarted s' = lb_challengeStarted s" "lb_challengePassed s' = lb_challengePassed s"
    "lb_validKeepAlives s' = lb_validKeepAlives s" "lb_requiredKeepAlives s' = lb_requiredKeepAlives s"
    "lb_challengeResult s' = lb_challengeResult s"
  using assms
  by (auto simp: limbo_enqueue_def dealings_def ledger_def keepalives_sent_def split: option.splits if_splits prod.splits res.splits)

lemma maybeEnqueue_cases:
  assumes "maybeEnqueue env s = (x, s')"
  shows "dealings s' = dealings s \<and> x \<noteq> Blocks \<and> (\<forall>b. x \<noteq> Plays b) \<and> ledger s' = ledger s \<and> (lb_queued s \<longrightarrow> s' = s) \<and>
    lb_challengeStarted s' = lb_challengeStarted s \<and> lb_challengePassed s' = lb_challengePassed s \<and>
    lb_validKeepAlives s' = lb_validKeepAlives s \<and> lb_requiredKeepAlives s' = lb_requiredKeepAlives s \<and>
    lb_challengeResult s' = lb_challengeResult s \<and>
    (lb_queued s' \<longrightarrow> lb_queued s \<or> (lb_challengePassed s \<and> lb_validKeepAlives s \<ge> lb_requiredKeepAlives s))"
  using assms enqueue_keeps [of env s x s'] by (auto simp: maybeEnqueue_def split: if_splits)

lemma finish_transfer_cases:
  "finish_transfer env replay b s \<noteq> (GoesOn, s')"
  "finish_transfer env replay b s = (Blocks, s') \<Longrightarrow> set_option (lb_activeAdmission s) \<subseteq> lb_unread s"
  by (auto simp: finish_transfer_def lthen_eq answer_active_eq split: prod.splits res.splits option.splits)

text \<open>
  The end of a transfer: the player plays and the request is told so, or nothing is said. A connection that is not
  played on is closed.
\<close>

lemma finish_transfer_ends:
  assumes "finish_transfer env replay b s = (x, s')"
  shows "lb_answers s' = lb_answers s \<and> (\<forall>c. x \<noteq> Plays c) \<or>
    (\<exists>r c. x = Plays c \<and> lb_activeAdmission s = Some r \<and> lb_answers s' = lb_answers s @ [(r, None)])"
    "x = Returns e \<Longrightarrow> \<exists>c. lb_released s' = Some c \<and> t_done c" "x = Plays c \<Longrightarrow> lb_released s' = Some c"
  using assms
  by (auto simp: finish_transfer_def lthen_eq answer_active_eq(1) net_Close_done dest: answer_active_stops
      split: prod.splits res.splits option.splits)

lemma progress_keeps:
  assumes "progress env s = (GoesOn, s')"
  shows "checks s' = checks s \<and> dealings s' = dealings s \<and> lb_queue s' = lb_queue s \<and>
    lb_timeoutC s' = lb_timeoutC s \<and> ledger s' = ledger s"
  using assms
  by (auto simp: finish_transfer_cases(1) progress_def checks_def dealings_def ledger_def keepalives_sent_def Let_def
      split: option.splits res.splits if_splits prod.splits)

lemma progress_Blocks:
  assumes "progress env s = (Blocks, s')"
  shows "lb_prepared s \<noteq> None \<and> set_option (lb_activeAdmission s) \<subseteq> lb_unread s"
  using assms
  by (auto simp: progress_def Let_def dest!: finish_transfer_cases(2) split: option.splits res.splits if_splits prod.splits)

lemma progress_ends:
  assumes "progress env s = (x, s')"
  shows "lb_answers s' = lb_answers s \<and> (\<forall>c. x \<noteq> Plays c) \<or>
    (\<exists>r c. x = Plays c \<and> lb_prepared s \<noteq> None \<and> lb_activeAdmission s = Some r \<and> lb_answers s' = lb_answers s @ [(r, None)])"
  using assms
  by (auto simp: progress_def Let_def dest!: finish_transfer_ends(1) split: option.splits res.splits if_splits prod.splits)

lemma quiet_cases:
  assumes "limbo_handle env ev s = (GoesOn, s')" "\<not> (\<exists>r. ev = ChallengeResult r)" "\<not> (\<exists>r. ev = FrameArrives r)"
  shows "checks s' = checks s"
  using assms
proof (cases ev)
  case (AdmissionRequest r)
  then show ?thesis using assms(1) by (auto simp: on_admission_def answer_def checks_def split: if_splits)
next
  case (PrepareOutcome r)
  then show ?thesis using assms(1)
    by (auto simp: on_prepared_def lthen_eq answer_active_eq checks_def Let_def split: res.splits prod.splits)
next
  case PrepareDone
  then show ?thesis using assms(1)
    by (auto simp: on_prepare_done_def lthen_eq answer_active_eq checks_def split: option.splits)
next
  case KeepAliveTick
  then show ?thesis using assms(1) limbo_write_keeps(1) [of env]
    by (fastforce simp: on_tick_def lthen_eq checks_def Let_def split: if_splits)
next
  case QueueTick
  then show ?thesis using assms(1) limbo_write_keeps(1) [of env]
    by (auto simp: on_queue_tick_def split: if_splits option.splits res.splits)
next
  case BarrierTimer
  then show ?thesis using assms(1) by (auto simp: checks_def split: option.splits prod.splits if_splits)
qed (auto simp: on_timeout_def checks_def)

text \<open>A valid answer outside the barrier, and what it starts.\<close>

lemma start_challenge_cases:
  assumes "start_challenge env s = (GoesOn, s')"
  shows "lb_validKeepAlives s' = lb_validKeepAlives s" "dealings s' = dealings s" "lb_queued s \<Longrightarrow> lb_queue s' = lb_queue s"
    "lb_queued s' \<Longrightarrow> lb_queued s \<or> (lb_challengePassed s' \<and> lb_validKeepAlives s' \<ge> lb_requiredKeepAlives s')"
    "lb_challengeStarted s'" "lb_queued s \<Longrightarrow> lb_queued s'"
    "lb_challengeStarted s \<Longrightarrow> s' = s"
    "\<not> lb_challengeStarted s \<Longrightarrow> lb_challengePassed s' \<longleftrightarrow> lm_hook env = None \<or> lb_challengePassed s"
    "ledger s' = ledger s"
  using assms
  by (auto simp: start_challenge_def Let_def dealings_def ledger_def keepalives_sent_def split: if_splits option.splits
      dest!: maybeEnqueue_cases)

definition required :: "('b, 'c, 'q, 'f) limbo_env \<Rightarrow> int" where
  "required env =
     (case lm_hook env of
        None \<Rightarrow> 1
      | Some h \<Rightarrow> (case hook_RequiredKeepAlives h of None \<Rightarrow> 1 | Some f \<Rightarrow> max 1 (f (lm_identity env))))"

lemma start_challenge_required:
  "start_challenge env s = (GoesOn, s') \<Longrightarrow> \<not> lb_challengeStarted s \<Longrightarrow> lb_requiredKeepAlives s = 1 \<Longrightarrow>
     lb_requiredKeepAlives s' = required env"
  by (auto simp: start_challenge_def Let_def required_def max_def split: if_splits option.splits dest!: maybeEnqueue_cases)


lemma on_frame_cases:
  assumes "on_frame env (Ok payload) s = (GoesOn, s')"
  obtains (barrier) i body where "PacketID payload = Ok (i, body)" "state (lb_session s) = StateTransferBarrier"
      "checks s' = checks s" "dealings s' = dealings s" "lb_queue s' = lb_queue s" "lb_timeoutC s' = lb_timeoutC s"
      "ledger s' = ledger s"
    | (keepalive) i where "ParseKeepAlive payload = Ok i" "i = lb_pendingKeepAlive s" "i \<noteq> 0"
      "state (lb_session s) \<noteq> StateTransferBarrier" "on_keepalive env payload s = (GoesOn, s')"
    | (movement) "s' = s" "state (lb_session s) \<noteq> StateTransferBarrier" "\<And>i. ParseKeepAlive payload \<noteq> Ok i"
proof -
  obtain i body where p: "PacketID payload = Ok (i, body)"
    using assms by (auto simp: on_frame_def split: res.splits)
  consider "state (lb_session s) = StateTransferBarrier"
    | "state (lb_session s) \<noteq> StateTransferBarrier" "i = ServerboundKeepAliveID"
    | "state (lb_session s) \<noteq> StateTransferBarrier" "i \<noteq> ServerboundKeepAliveID" by blast
  then show thesis
  proof cases
    case 1
    obtain r st where h: "handleBarrierFrame (lb_session s) i payload = (r, st)" by fastforce
    then have "progress env (s\<lparr>lb_session := st\<rparr>) = (GoesOn, s')"
      using assms p 1 by (auto simp: on_frame_def lthen_eq)
    from progress_keeps [OF this] show thesis using p 1
      by (intro barrier) (simp_all add: checks_def dealings_def ledger_def keepalives_sent_def)
  next
    case 2
    then have "on_keepalive env payload s = (GoesOn, s')" using assms p by (simp add: on_frame_def)
    moreover from this obtain k where "ParseKeepAlive payload = Ok k" "k = lb_pendingKeepAlive s" "k \<noteq> 0"
      by (auto simp: on_keepalive_def split: res.splits if_splits)
    ultimately show thesis using 2 by (intro keepalive)
  next
    case 3
    then have "ParseKeepAlive payload \<noteq> Ok k" for k using p by (auto simp: ParseKeepAlive_def res_iff)
    then show thesis using assms p 3 by (intro movement) (auto simp: on_frame_def split: if_splits)
  qed
qed

text \<open>
  A run with the state in which each event finds the loop. The player answers a keepalive with a frame that
  carries the last one sent and is not behind the barrier.
\<close>

definition limbo_seen ::
    "('b, 'c, 'q, 'f) limbo_env \<Rightarrow> ('b, 'c, 'q, 'f, 'r) limbo \<Rightarrow> ('b, 'c, 'q, 'f, 'r) limbo \<times> ('b, 'q, 'f, 'r) limbo_event \<Rightarrow>
     ('b, 'c, 'q, 'f, 'r) limbo \<Rightarrow> bool" where
  "limbo_seen env s x s' \<longleftrightarrow> fst x = s \<and> limbo_step env s (snd x) s'"

fun player_answer :: "('b, 'c, 'q, 'f, 'r) limbo \<times> ('b, 'q, 'f, 'r) limbo_event \<Rightarrow> int64 list" where
  "player_answer (u, FrameArrives (Ok payload)) =
     (case ParseKeepAlive payload of
        Ok i \<Rightarrow> if i = last (keepalives_sent u) \<and> state (lb_session u) \<noteq> StateTransferBarrier then [i] else []
      | _ \<Rightarrow> [])"
| "player_answer _ = []"

definition player_answers :: "(('b, 'c, 'q, 'f, 'r) limbo \<times> ('b, 'q, 'f, 'r) limbo_event) list \<Rightarrow> int64 list" where
  "player_answers tr = concat (map player_answer tr)"

lemma player_answers_simps [simp]:
  "player_answers [] = []" "player_answers (tr @ [x]) = player_answers tr @ player_answer x"
  by (simp_all add: player_answers_def)

text \<open>The answers are to different keepalives, none of them the one that is awaited.\<close>

definition owing :: "int64 list \<Rightarrow> int64 \<times> int64 \<times> int64 list \<Rightarrow> bool" where
  "owing answers = (\<lambda>(newest, awaited, sent). sent \<noteq> [] \<and> newest = last sent \<and> subseq answers sent \<and>
     (awaited \<noteq> 0 \<longrightarrow> awaited = newest \<and> subseq answers (butlast sent)))"

lemma owing_moves:
  "owing answers (k, i, sent) \<Longrightarrow> owing answers (k, 0, sent)"
  "owing answers (k, i, sent) \<Longrightarrow> owing answers (j, j, sent @ [j])"
  "owing answers (k, i, sent) \<Longrightarrow> i \<noteq> 0 \<Longrightarrow> owing (answers @ [i]) (k, 0, sent)"
proof -
  show "owing answers (k, i, sent) \<Longrightarrow> owing answers (k, 0, sent)"
    "owing answers (k, i, sent) \<Longrightarrow> owing answers (j, j, sent @ [j])"
    by (auto simp: owing_def)
  assume o: "owing answers (k, i, sent)" "i \<noteq> 0"
  then have "subseq (answers @ [i]) (butlast sent @ [last sent])"
    unfolding owing_def by (intro list_emb_append_mono) auto
  with o show "owing (answers @ [i]) (k, 0, sent)" by (simp add: owing_def)
qed

definition checked ::
    "('b, 'c, 'q, 'f) limbo_env \<Rightarrow> (('b, 'c, 'q, 'f, 'r) limbo \<times> ('b, 'q, 'f, 'r) limbo_event) list \<Rightarrow> ('b, 'c, 'q, 'f, 'r) limbo \<Rightarrow> bool" where
  "checked env tr s \<longleftrightarrow>
     (lb_challengePassed s \<longrightarrow> lb_challengeStarted s \<and> (lm_hook env = None \<or> ChallengeResult None \<in> snd ` set tr)) \<and>
     (lb_challengeResult s \<longrightarrow> lb_challengeStarted s) \<and>
     lb_requiredKeepAlives s = (if lb_challengeStarted s then required env else 1) \<and>
     lb_validKeepAlives s = int (length (player_answers tr)) \<and>
     (lb_queued s \<longrightarrow> lb_challengePassed s \<and> lb_validKeepAlives s \<ge> required env)"

lemma checked_cong:
  "checked env tr s \<Longrightarrow> checks s' = checks s \<Longrightarrow> player_answer x = [] \<Longrightarrow> checked env (tr @ [x]) s'"
  by (auto simp: checked_def checks_def)

lemma on_keepalive_GoesOn:
  assumes "on_keepalive env payload s = (GoesOn, s')"
  obtains s1 s2 where
    "start_challenge env (s\<lparr>lb_pendingKeepAlive := 0, lb_validKeepAlives := lb_validKeepAlives s + 1\<rparr>) = (GoesOn, s1)"
    "maybeEnqueue env s1 = (GoesOn, s2)" "s' = s2\<lparr>lb_timeoutC := False\<rparr>"
  using assms by (auto simp: on_keepalive_def lthen_eq split: res.splits if_splits)

lemma checked_keepalive:
  assumes inv: "checked env tr s" and ev: "on_keepalive env payload s = (GoesOn, s')"
    and k: "player_answer (s, FrameArrives (Ok payload)) = [i]"
  shows "checked env (tr @ [(s, FrameArrives (Ok payload))]) s'"
proof -
  let ?s = "s\<lparr>lb_pendingKeepAlive := 0, lb_validKeepAlives := lb_validKeepAlives s + 1\<rparr>"
  obtain s1 s2 where start: "start_challenge env ?s = (GoesOn, s1)" and enq: "maybeEnqueue env s1 = (GoesOn, s2)"
    and s': "s' = s2\<lparr>lb_timeoutC := False\<rparr>"
    using on_keepalive_GoesOn [OF ev] .
  note S = start_challenge_cases [OF start] and M = maybeEnqueue_cases [OF enq]
  have req: "lb_requiredKeepAlives s1 = required env"
  proof (cases "lb_challengeStarted s")
    case True
    then show ?thesis using S(7) inv by (simp add: checked_def)
  next
    case False
    then show ?thesis using start_challenge_required [OF start] inv by (simp add: checked_def)
  qed
  have passed: "lb_challengePassed s1 \<longrightarrow> lm_hook env = None \<or> ChallengeResult None \<in> snd ` set tr"
    using S(7,8) inv by (cases "lb_challengeStarted s") (auto simp: checked_def)
  have valid: "lb_validKeepAlives s1 = lb_validKeepAlives s + 1" using S(1) by simp
  have queued: "lb_queued s1 \<longrightarrow> lb_challengePassed s1 \<and> lb_validKeepAlives s1 \<ge> required env"
  proof
    assume q: "lb_queued s1"
    show "lb_challengePassed s1 \<and> lb_validKeepAlives s1 \<ge> required env"
    proof (cases "lb_queued s")
      case True
      then have "lb_challengePassed s" "lb_challengeStarted s" "lb_validKeepAlives s \<ge> required env"
        using inv by (auto simp: checked_def)
      then show ?thesis using S(7) valid by simp
    next
      case False
      then show ?thesis using S(4) q req by simp
    qed
  qed
  show ?thesis
    using inv M S(5) req passed valid queued k unfolding s' checked_def by auto
qed

lemma checked_challenge:
  assumes inv: "checked env tr s" and "lb_challengeResult s" and ev: "on_challenge env r s = (GoesOn, s')"
  shows "checked env (tr @ [(s, ChallengeResult r)]) s'"
proof -
  have r: "r = None" and m: "maybeEnqueue env (s\<lparr>lb_challengeResult := False, lb_challengePassed := True\<rparr>) = (GoesOn, s')"
    using ev by (auto simp: on_challenge_def Let_def split: option.splits)
  from maybeEnqueue_cases [OF m] inv assms(2) show ?thesis by (auto simp: checked_def r)
qed

text \<open>What the cases do to the keepalives.\<close>

lemma quiet_ledger:
  assumes "limbo_handle env ev s = (GoesOn, s')" "ev \<noteq> KeepAliveTick" "\<not> (\<exists>r. ev = FrameArrives r)"
  shows "ledger s' = ledger s \<or> ledger s' = (lb_keepAliveID s, 0, keepalives_sent s)"
proof (cases ev)
  case (ChallengeResult r)
  then obtain "r = None" "maybeEnqueue env (s\<lparr>lb_challengeResult := False, lb_challengePassed := True\<rparr>) = (GoesOn, s')"
    using assms(1) by (auto simp: on_challenge_def Let_def split: option.splits)
  from maybeEnqueue_cases [OF this(2)] show ?thesis by (simp add: ledger_def keepalives_sent_def)
next
  case (AdmissionRequest r)
  then show ?thesis using assms(1) by (auto simp: on_admission_def answer_def ledger_def keepalives_sent_def split: if_splits)
next
  case (PrepareOutcome r)
  then show ?thesis using assms(1)
    by (auto simp: on_prepared_def lthen_eq answer_active_eq ledger_def keepalives_sent_def Let_def split: res.splits prod.splits)
next
  case PrepareDone
  then show ?thesis using assms(1)
    by (auto simp: on_prepare_done_def lthen_eq answer_active_eq ledger_def keepalives_sent_def split: option.splits)
next
  case QueueTick
  then consider "s' = s" | label payload where "ActionBarPayload label = Ok payload" "limbo_write env payload s = (GoesOn, s')"
    using assms(1) by (auto simp: on_queue_tick_def split: if_splits option.splits res.splits)
  then show ?thesis
    by cases (simp_all add: limbo_write_keeps [of env _ s GoesOn s'] keepalive_packet_action_bar ledger_def)
next
  case BarrierTimer
  then show ?thesis using assms(1) by (auto simp: ledger_def keepalives_sent_def split: option.splits prod.splits if_splits)
qed (use assms in \<open>auto simp: on_timeout_def ledger_def keepalives_sent_def\<close>)

lemma tick_ledger:
  assumes "on_tick env s = (GoesOn, s')"
  shows "s' = s \<or> ledger s' = (lb_keepAliveID s + 1, lb_keepAliveID s + 1, keepalives_sent s @ [lb_keepAliveID s + 1])"
proof (cases "s' = s")
  case False
  let ?k = "lb_keepAliveID s + 1"
  obtain s1 where w: "limbo_write env (KeepAlivePayload ?k) (s\<lparr>lb_keepAliveID := ?k, lb_pendingKeepAlive := ?k\<rparr>) = (GoesOn, s1)"
    "s' = s1\<lparr>lb_timeoutC := True\<rparr>"
    using assms False by (auto simp: on_tick_def lthen_eq Let_def split: if_splits)
  from limbo_write_keeps(6-8) [OF w(1)] show ?thesis
    by (simp add: w(2) ledger_def keepalive_packet_sent) (simp add: keepalives_sent_def)
qed simp

lemma keepalive_ledger:
  assumes "on_keepalive env payload s = (GoesOn, s')"
  shows "ledger s' = (lb_keepAliveID s, 0, keepalives_sent s)"
proof -
  obtain s1 s2 where "start_challenge env (s\<lparr>lb_pendingKeepAlive := 0, lb_validKeepAlives := lb_validKeepAlives s + 1\<rparr>) = (GoesOn, s1)"
    "maybeEnqueue env s1 = (GoesOn, s2)" "s' = s2\<lparr>lb_timeoutC := False\<rparr>"
    using on_keepalive_GoesOn [OF assms] .
  with start_challenge_cases(9) maybeEnqueue_cases show ?thesis by (fastforce simp: ledger_def keepalives_sent_def)
qed

lemma checked_step:
  assumes inv: "checked env tr s" "owing (player_answers tr) (ledger s)" and step: "limbo_step env s e s'"
  shows "checked env (tr @ [(s, e)]) s' \<and> owing (player_answers (tr @ [(s, e)])) (ledger s')"
proof -
  have h: "limbo_handle env e s = (GoesOn, s')" "enabled e s" using step by (simp_all add: limbo_step_def)
  have o: "owing (player_answers tr) (lb_keepAliveID s, lb_pendingKeepAlive s, keepalives_sent s)"
    using inv(2) by (simp add: ledger_def)
  show ?thesis
  proof (cases "\<exists>r. e = FrameArrives r")
    case True
    then obtain payload where e: "e = FrameArrives (Ok payload)" using h by (auto simp: on_frame_def split: res.splits)
    then have "on_frame env (Ok payload) s = (GoesOn, s')" using h by simp
    then show ?thesis
    proof (cases rule: on_frame_cases)
      case barrier
      then show ?thesis using checked_cong [OF inv(1)] inv(2) e by (auto split: res.splits)
    next
      case (keepalive i)
      have a: "player_answer (s, FrameArrives (Ok payload)) = [i]" using keepalive o by (simp add: owing_def)
      then show ?thesis
        using checked_keepalive [OF inv(1) keepalive(5) a] owing_moves(3) [OF o] keepalive_ledger [OF keepalive(5)] keepalive(2,3)
        by (simp add: e)
    next
      case movement
      then show ?thesis using checked_cong [OF inv(1)] inv(2) e by (auto split: res.splits)
    qed
  next
    case False
    then have none: "player_answer (s, e) = []" by (cases e) auto
    have "checked env (tr @ [(s, e)]) s'"
    proof (cases "\<exists>r. e = ChallengeResult r")
      case True
      then show ?thesis using checked_challenge [OF inv(1)] h by auto
    qed (use quiet_cases [OF h(1) _ False] checked_cong [OF inv(1)] none in blast)
    moreover have "owing (player_answers tr) (ledger s')"
    proof (cases "e = KeepAliveTick")
      case True
      then show ?thesis using tick_ledger [of env s s'] h(1) owing_moves(2) [OF o] inv(2) by auto
    qed (use quiet_ledger [OF h(1) _ False] owing_moves(1) [OF o] inv(2) in auto)
    ultimately show ?thesis using none by simp
  qed
qed

lemma checked_runs:
  "runs (limbo_seen env) s0 tr s \<Longrightarrow> s0 = limbo_start t st q \<Longrightarrow> checked env tr s \<and> owing (player_answers tr) (ledger s)"
proof (induction rule: runs.induct)
  case (runs_Nil s)
  then show ?case by (simp add: checked_def limbo_start_def owing_def ledger_def keepalives_sent_def keepalive_packet_sent)
next
  case (runs_snoc s0 tr s1 x s2)
  then show ?case using checked_step [of env tr s1 "snd x" s2] by (cases x) (simp add: limbo_seen_def)
qed


section \<open>Admission requests\<close>

fun request_of :: "('b, 'q, 'f, 'r) limbo_event \<Rightarrow> 'r list" where
  "request_of (AdmissionRequest r) = [r]"
| "request_of _ = []"

definition requests_of :: "('b, 'q, 'f, 'r) limbo_event list \<Rightarrow> 'r list" where
  "requests_of es = concat (map request_of es)"

lemma requests_of_snoc [simp]: "requests_of [] = []" "requests_of (es @ [e]) = requests_of es @ request_of e"
  by (simp_all add: requests_of_def)

definition dealt :: "'r list \<Rightarrow> bool \<times> bool \<times> 'r option \<times> ('r \<times> err option) list \<times> 'r set \<Rightarrow> bool" where
  "dealt rs = (\<lambda>(pd, pg, active, answers, unread).
     \<not> (pd \<and> pg) \<and> distinct (map fst answers) \<and> set (map fst answers) \<subseteq> set rs \<and> set_option active \<subseteq> set rs \<and>
     unread \<subseteq> set (map fst answers) \<and> None \<notin> snd ` set answers \<and>
     (pd \<or> pg \<longrightarrow> (\<exists>r. active = Some r \<and> r \<notin> set (map fst answers))))"

text \<open>The moves the loop makes in these dealings.\<close>

lemma dealt_moves:
  "dealt rs (pd, pg, who, answers, u) \<Longrightarrow> r \<notin> set rs \<Longrightarrow> dealt (rs @ [r]) (pd, pg, who, answers @ [(r, Some e)], insert r u)"
  "dealt rs (False, pg, who, answers, u) \<Longrightarrow> r \<notin> set rs \<Longrightarrow> dealt (rs @ [r]) (False, True, Some r, answers, u)"
  "dealt rs (pd, True, who, answers, u) \<Longrightarrow> dealt rs (True, False, who, answers, u)"
  "dealt rs (pd, pg, Some r, answers, u) \<Longrightarrow> pd \<or> pg \<Longrightarrow> dealt rs (False, False, None, answers @ [(r, Some e)], insert r u)"
  "dealt rs (pd, pg, Some r, answers, u) \<Longrightarrow> pd \<or> pg \<Longrightarrow> dealt rs (False, False, Some r, answers @ [(r, Some e)], insert r u)"
  "dealt rs (pd, pg, who, answers, u) \<Longrightarrow> dealt rs (pd, pg, who, answers, u - {r})"
  by (auto simp: dealt_def)

lemma dealt_admission:
  assumes "dealt rs (dealings s)" "r \<notin> set rs" "on_admission env r s = (GoesOn, s')"
  shows "dealt (rs @ [r]) (dealings s')"
proof (cases "\<not> lm_coordinator env \<or> lb_prepared s \<noteq> None \<or> state (lb_session s) \<noteq> StateLimboPlay")
  case True
  then have "s' = s\<lparr>lb_answers := lb_answers s @ [(r, Some (ErrText ''session is not available for transfer''))],
      lb_unread := insert r (lb_unread s)\<rparr>"
    using assms(3) by (auto simp: on_admission_def answer_def split: if_splits)
  then show ?thesis using dealt_moves(1) assms(1,2) by (simp add: dealings_def)
next
  case False
  then have s': "s' = s\<lparr>lb_activeAdmission := Some r, lb_preparing := Some (pendingIDs (lb_pendingKeepAlive s))\<rparr>"
    and none: "lb_prepared s = None"
    using assms(3) by (simp_all add: on_admission_def)
  have "dealt rs (False, lb_preparing s \<noteq> None, lb_activeAdmission s, lb_answers s, lb_unread s)"
    using assms(1) none by (simp add: dealings_def)
  from dealt_moves(2) [OF this assms(2)] show ?thesis by (simp add: s' dealings_def none)
qed

lemma dealt_prepared:
  assumes "dealt rs (dealings s)" "lb_preparing s \<noteq> None" "on_prepared env x s = (GoesOn, s')"
  shows "dealt rs (dealings s')"
proof -
  have d: "dealt rs (lb_prepared s \<noteq> None, True, lb_activeAdmission s, lb_answers s, lb_unread s)"
    using assms(1,2) by (simp add: dealings_def)
  show ?thesis
  proof (cases x)
    case (Fail e)
    then obtain r where "lb_activeAdmission s = Some r" and s': "s' = s\<lparr>lb_preparing := None,
        lb_answers := lb_answers s @ [(r, Some e)], lb_unread := insert r (lb_unread s), lb_activeAdmission := None,
        lb_pendingKeepAlive := 0, lb_timeoutC := False\<rparr>"
      using assms(3) by (auto simp: on_prepared_def lthen_eq answer_active_eq Let_def)
    moreover have "lb_prepared s = None" using d by (auto simp: dealt_def)
    ultimately show ?thesis using dealt_moves(4) [of rs _ True] d by (simp add: dealings_def)
  next
    case (Ok p)
    obtain y p1 st t where b: "BeginClientConfiguration (lm_client env) (lm_meanwhile env) p (lb_session s) (lb_client s) = (y, p1, st, t)"
      using prod_cases4 by blast
    show ?thesis
    proof (cases y)
      case (Ok u)
      then have "dealings s' = (True, False, lb_activeAdmission s, lb_answers s, lb_unread s)"
        using assms(3) b \<open>x = Ok p\<close> by (auto simp: on_prepared_def dealings_def Let_def)
      then show ?thesis using dealt_moves(3) [OF d] by simp
    next
      case (Fail e)
      obtain z c p2 st2 where "Rollback (lm_backend env) p1 st = (z, c, p2, st2)" using prod_cases4 by blast
      then obtain r where "lb_activeAdmission s = Some r"
        "dealings s' = (False, False, Some r, lb_answers s @ [(r, Some e)], insert r (lb_unread s))"
        using assms(3) b Fail \<open>x = Ok p\<close>
        by (auto simp: on_prepared_def dealings_def Let_def lthen_eq answer_active_eq)
      then show ?thesis using dealt_moves(5) [of rs _ True] d by simp
    next
      case Panic
      then show ?thesis using assms(3) b \<open>x = Ok p\<close> by (simp add: on_prepared_def Let_def)
    qed
  next
    case Panic
    then show ?thesis using assms(3) by (simp add: on_prepared_def Let_def)
  qed
qed

lemma dealt_prepare_done:
  assumes "dealt rs (dealings s)" "on_prepare_done s = (GoesOn, s')"
  shows "dealt rs (dealings s')"
proof (cases "\<exists>p e. lb_prepared s = Some p \<and> Prepared_Err p = Some e")
  case False
  then have "s' = s" using assms(2) by (auto simp: on_prepare_done_def split: option.splits)
  then show ?thesis using assms(1) by simp
next
  case True
  then obtain p e where p: "lb_prepared s = Some p" "Prepared_Err p = Some e" by blast
  then obtain r where r: "lb_activeAdmission s = Some r" and s': "s' = s\<lparr>lb_answers := lb_answers s @ [(r, Some e)],
      lb_unread := insert r (lb_unread s), lb_prepared := None, lb_prepareDone := False, lb_activeAdmission := None, lb_pendingKeepAlive := 0, lb_timeoutC := False\<rparr>"
    using assms(2) by (auto simp: on_prepare_done_def lthen_eq answer_active_eq)
  have d: "dealt rs (True, lb_preparing s \<noteq> None, Some r, lb_answers s, lb_unread s)" using assms(1) p r by (simp add: dealings_def)
  then have "lb_preparing s = None" by (auto simp: dealt_def)
  then show ?thesis using dealt_moves(4) [OF d, of e] by (simp add: s' dealings_def)
qed

lemma on_keepalive_dealings:
  assumes "on_keepalive env payload s = (GoesOn, s')"
  shows "dealings s' = dealings s \<and> (lb_queued s \<longrightarrow> lb_queue s' = lb_queue s \<and> lb_queued s')"
proof -
  let ?s = "s\<lparr>lb_pendingKeepAlive := 0, lb_validKeepAlives := lb_validKeepAlives s + 1\<rparr>"
  obtain s1 s2 where start: "start_challenge env ?s = (GoesOn, s1)" and enq: "maybeEnqueue env s1 = (GoesOn, s2)"
    and s': "s' = s2\<lparr>lb_timeoutC := False\<rparr>"
    using on_keepalive_GoesOn [OF assms] .
  note S = start_challenge_cases [OF start] and M = maybeEnqueue_cases [OF enq]
  have "dealings s' = dealings s2" "dealings ?s = dealings s" by (simp_all add: s' dealings_def)
  then show ?thesis using S(2,3,6) M by (auto simp: s')
qed


lemma other_dealings:
  assumes "limbo_handle env e s = (GoesOn, s')" "request_of e = []" "\<not> (\<exists>x. e = PrepareOutcome x)" "e \<noteq> PrepareDone"
    "\<not> (\<exists>r. e = ResultRead r)"
  shows "dealings s' = dealings s"
proof (cases e)
  case (ChallengeResult r)
  then obtain "r = None" "maybeEnqueue env (s\<lparr>lb_challengeResult := False, lb_challengePassed := True\<rparr>) = (GoesOn, s')"
    using assms(1) by (auto simp: on_challenge_def Let_def split: option.splits)
  from maybeEnqueue_cases [OF this(2)] show ?thesis by (simp add: dealings_def)
next
  case (FrameArrives r)
  then obtain payload where "r = Ok payload" using assms(1) by (cases r) (auto simp: on_frame_def)
  then have "on_frame env (Ok payload) s = (GoesOn, s')" using assms(1) FrameArrives by simp
  then show ?thesis by (cases rule: on_frame_cases) (use on_keepalive_dealings in blast)+
next
  case KeepAliveTick
  then show ?thesis using assms(1) limbo_write_keeps(2) [of env]
    by (fastforce simp: on_tick_def lthen_eq dealings_def Let_def split: if_splits)
next
  case QueueTick
  then show ?thesis using assms(1) limbo_write_keeps(2) [of env]
    by (auto simp: on_queue_tick_def split: if_splits option.splits res.splits)
next
  case BarrierTimer
  then show ?thesis using assms(1) by (auto simp: dealings_def split: option.splits prod.splits if_splits)
qed (use assms in \<open>auto simp: on_timeout_def dealings_def\<close>)

lemma dealt_step:
  assumes "dealt (requests_of es) (dealings s)" "limbo_step env s e s'" "distinct (requests_of (es @ [e]))"
  shows "dealt (requests_of (es @ [e])) (dealings s')"
proof -
  have h: "limbo_handle env e s = (GoesOn, s')" "enabled e s" using assms(2) by (simp_all add: limbo_step_def)
  consider (request) r where "e = AdmissionRequest r" | (prepared) x where "e = PrepareOutcome x"
    | (finished) "e = PrepareDone" | (read) r where "e = ResultRead r"
    | (other) "request_of e = []" "\<not> (\<exists>x. e = PrepareOutcome x)" "e \<noteq> PrepareDone" "\<not> (\<exists>r. e = ResultRead r)"
    by (cases e) auto
  then show ?thesis
  proof cases
    case request
    then show ?thesis using dealt_admission [OF assms(1)] assms(3) h by simp
  next
    case prepared
    then show ?thesis using dealt_prepared [OF assms(1)] h by simp
  next
    case finished
    then show ?thesis using dealt_prepare_done [OF assms(1)] h by simp
  next
    case read
    then have "dealings s' = (lb_prepared s \<noteq> None, lb_preparing s \<noteq> None, lb_activeAdmission s, lb_answers s, lb_unread s - {r})"
      using h by (auto simp: dealings_def)
    then show ?thesis using dealt_moves(6) assms(1) read by (simp add: dealings_def)
  next
    case other
    then show ?thesis using other_dealings [OF h(1)] assms(1) by simp
  qed
qed

lemma dealt_runs:
  "runs (limbo_step env) s0 es s \<Longrightarrow> s0 = limbo_start t st q \<Longrightarrow> distinct (requests_of es) \<Longrightarrow>
     dealt (requests_of es) (dealings s)"
proof (induction rule: runs.induct)
  case (runs_snoc s0 es s1 e s2)
  then show ?case using dealt_step [of es s1 env e s2] by simp
qed (simp add: dealt_def dealings_def limbo_start_def)

text \<open>A request whose result is awaited is known and was not answered, so no send goes to a nil or a full channel.\<close>

lemma dealt_active:
  assumes "dealt rs (dealings s)" "lb_prepared s \<noteq> None \<or> lb_preparing s \<noteq> None"
  shows "\<exists>r. lb_activeAdmission s = Some r \<and> r \<notin> lb_unread s \<and> r \<notin> set (map fst (lb_answers s)) \<and> r \<in> set rs"
  using assms by (auto simp: dealt_def dealings_def)

lemma dealt_unread: "dealt rs (dealings s) \<Longrightarrow> lb_unread s \<subseteq> set rs"
  unfolding dealt_def dealings_def by blast

lemma answer_active_not_Blocks:
  "lb_activeAdmission s = Some r \<Longrightarrow> r \<notin> lb_unread s \<Longrightarrow> fst (lthen (answer_active e) (\<lambda>s. (GoesOn, f s)) s) \<noteq> Blocks"
  by (auto simp: lthen_def answer_active_def answer_def)

lemma not_Blocks: "fst (maybeEnqueue env s) \<noteq> Blocks" "fst (limbo_write env payload s) \<noteq> Blocks"
  using maybeEnqueue_cases [of env s] limbo_write_keeps(4) [of env payload s] by (metis prod.collapse)+

lemma lthen_not_Blocks: "fst (m s) \<noteq> Blocks \<Longrightarrow> (\<And>s. fst (k s) \<noteq> Blocks) \<Longrightarrow> fst (lthen m k s) \<noteq> Blocks"
  by (auto simp: lthen_def split: prod.splits limbo_outcome.splits)

lemma keepalive_not_Blocks: "fst (on_keepalive env payload s) \<noteq> Blocks"
proof -
  have "fst (start_challenge env s) \<noteq> Blocks" for s :: "('a, 'b, 'c, 'd, 'e) limbo"
    by (auto simp: start_challenge_def Let_def not_Blocks split: option.splits)
  then have "fst (lthen (start_challenge env) (lthen (maybeEnqueue env) (\<lambda>s. (GoesOn, s\<lparr>lb_timeoutC := False\<rparr>))) s) \<noteq> Blocks"
    for s :: "('a, 'b, 'c, 'd, 'e) limbo"
    by (intro lthen_not_Blocks not_Blocks) simp_all
  then show ?thesis by (simp add: on_keepalive_def split: res.splits)
qed

lemma never_blocks:
  assumes "dealt rs (dealings s)" "enabled e s" "distinct (rs @ request_of e)"
  shows "fst (limbo_handle env e s) \<noteq> Blocks"
proof (cases e)
  case (ChallengeResult r)
  then show ?thesis by (auto simp: on_challenge_def Let_def not_Blocks split: option.splits)
next
  case (PrepareOutcome x)
  then obtain r where "lb_activeAdmission s = Some r" "r \<notin> lb_unread s" using dealt_active [OF assms(1)] assms(2) by auto
  then show ?thesis using PrepareOutcome
    by (auto simp: on_prepared_def Let_def answer_active_not_Blocks split: res.splits prod.splits)
next
  case PrepareDone
  then obtain r where "lb_activeAdmission s = Some r" "r \<notin> lb_unread s" using dealt_active [OF assms(1)] assms(2) by auto
  then show ?thesis using PrepareDone
    by (auto simp: on_prepare_done_def answer_active_not_Blocks split: option.splits)
next
  case (FrameArrives r)
  show ?thesis
  proof
    assume "fst (limbo_handle env e s) = Blocks"
    then obtain s' where b: "on_frame env r s = (Blocks, s')" using FrameArrives by (cases "on_frame env r s") auto
    then obtain payload i body where p: "r = Ok payload" "PacketID payload = Ok (i, body)"
      by (auto simp: on_frame_def split: res.splits)
    show False
    proof (cases "state (lb_session s) = StateTransferBarrier")
      case True
      then obtain st where "progress env (s\<lparr>lb_session := st\<rparr>) = (Blocks, s')"
        using b p by (auto simp: on_frame_def lthen_eq split: prod.splits)
      from progress_Blocks [OF this] show False using dealt_active [OF assms(1)] by auto
    next
      case False
      then have "on_keepalive env payload s = (Blocks, s')"
        using b p by (auto simp: on_frame_def split: if_splits)
      then show False using keepalive_not_Blocks [of env payload s] by simp
    qed
  qed
next
  case (AdmissionRequest r)
  then have "r \<notin> lb_unread s" using dealt_unread [OF assms(1)] assms(3) by auto
  then show ?thesis using AdmissionRequest by (simp add: on_admission_def answer_def)
next
  case KeepAliveTick
  then show ?thesis by (simp add: on_tick_def Let_def lthen_not_Blocks not_Blocks)
next
  case QueueTick
  then show ?thesis by (auto simp: on_queue_tick_def not_Blocks split: option.splits res.splits)
qed (auto simp: on_timeout_def split: option.splits prod.splits)

text \<open>The case that ends the loop answers a request only when it enters the bridge.\<close>

lemma keepalive_ends:
  assumes "on_keepalive env payload s = (x, s')"
  shows "lb_answers s' = lb_answers s \<and> (\<forall>b. x \<noteq> Plays b)"
proof -
  have keep: "maybeEnqueue env s = (y, u) \<Longrightarrow> lb_answers u = lb_answers s \<and> (\<forall>b. y \<noteq> Plays b)" for y u and s :: "('a, 'b, 'c, 'd, 'e) limbo"
    using maybeEnqueue_cases [of env s y u] by (simp add: dealings_def)
  have start: "start_challenge env s = (y, u) \<Longrightarrow> lb_answers u = lb_answers s \<and> (\<forall>b. y \<noteq> Plays b)" for y u and s :: "('a, 'b, 'c, 'd, 'e) limbo"
    by (auto simp: start_challenge_def Let_def split: if_splits option.splits dest: keep)
  show ?thesis
    using assms by (auto simp: on_keepalive_def lthen_eq split: res.splits if_splits dest!: keep start)
qed

lemma frame_ends:
  assumes "on_frame env r s = (x, s')"
  shows "lb_answers s' = lb_answers s \<and> (\<forall>b. x \<noteq> Plays b) \<or>
    (\<exists>r b. x = Plays b \<and> lb_prepared s \<noteq> None \<and> lb_activeAdmission s = Some r \<and> lb_answers s' = lb_answers s @ [(r, None)])"
proof (cases r)
  case (Ok payload)
  show ?thesis
  proof (cases "PacketID payload")
    case (Ok ib)
    obtain i body where ib: "ib = (i, body)" by (cases ib)
    show ?thesis
    proof (cases "state (lb_session s) = StateTransferBarrier")
      case True
      obtain y st where "handleBarrierFrame (lb_session s) i payload = (y, st)" by fastforce
      then have "progress env (s\<lparr>lb_session := st\<rparr>) = (x, s') \<or> (x = outcome_of y \<and> s' = s\<lparr>lb_session := st\<rparr>)"
        using assms \<open>r = Ok payload\<close> Ok ib True by (auto simp: on_frame_def lthen_eq)
      then show ?thesis using progress_ends [of env "s\<lparr>lb_session := st\<rparr>" x s'] by auto
    next
      case False
      then show ?thesis using assms \<open>r = Ok payload\<close> Ok ib keepalive_ends [of env payload s x s']
        by (auto simp: on_frame_def split: if_splits)
    qed
  qed (use assms Ok in \<open>auto simp: on_frame_def\<close>)
qed (use assms in \<open>auto simp: on_frame_def\<close>)

lemma stop_answers:
  assumes "limbo_handle env e s = (x, s')" "x \<noteq> GoesOn"
  shows "lb_answers s' = lb_answers s \<and> (\<forall>b. x \<noteq> Plays b) \<or>
    (\<exists>r b. x = Plays b \<and> lb_prepared s \<noteq> None \<and> lb_activeAdmission s = Some r \<and> lb_answers s' = lb_answers s @ [(r, None)])"
proof (cases e)
  case (ChallengeResult r)
  then show ?thesis using assms maybeEnqueue_cases [of env _ x s']
    by (fastforce simp: on_challenge_def Let_def dealings_def split: option.splits)
next
  case (AdmissionRequest r)
  then show ?thesis using assms by (auto simp: on_admission_def answer_def split: if_splits)
next
  case (PrepareOutcome r)
  then show ?thesis using assms
    by (auto simp: on_prepared_def lthen_eq Let_def dest!: answer_active_stops split: res.splits prod.splits)
next
  case PrepareDone
  then show ?thesis using assms
    by (auto simp: on_prepare_done_def lthen_eq dest!: answer_active_stops split: option.splits)
next
  case (FrameArrives r)
  then show ?thesis using assms(1) frame_ends by simp
next
  case KeepAliveTick
  then show ?thesis using assms limbo_write_keeps [of env]
    by (fastforce simp: on_tick_def lthen_eq dealings_def Let_def split: if_splits)
next
  case QueueTick
  then show ?thesis using assms limbo_write_keeps [of env]
    by (fastforce simp: on_queue_tick_def dealings_def split: if_splits option.splits res.splits)
next
  case BarrierTimer
  then show ?thesis using assms by (auto split: option.splits prod.splits if_splits)
qed (use assms in \<open>auto simp: on_timeout_def\<close>)

lemma last_answers:
  assumes "dealt (requests_of es) (dealings s)" "enabled e s" "limbo_handle env e s = (x, s')" "distinct (requests_of (es @ [e]))"
  shows "x \<noteq> Blocks" "distinct (map fst (lb_answers s'))" "set (map fst (lb_answers s')) \<subseteq> set (requests_of (es @ [e]))"
    "None \<in> snd ` set (lb_answers s') \<longleftrightarrow> (\<exists>b. x = Plays b)"
proof -
  show "x \<noteq> Blocks" using never_blocks [OF assms(1,2), of env] assms(3,4) by simp
  have d: "dealt (requests_of (es @ [e])) (dealings s')" if "x = GoesOn"
    using dealt_step [OF assms(1)] assms(2-4) that by (simp add: limbo_step_def)
  have "distinct (map fst (lb_answers s')) \<and> set (map fst (lb_answers s')) \<subseteq> set (requests_of (es @ [e])) \<and>
      (None \<in> snd ` set (lb_answers s') \<longleftrightarrow> (\<exists>b. x = Plays b))"
  proof (cases "x = GoesOn")
    case True
    then show ?thesis using d by (auto simp: dealt_def dealings_def)
  next
    case False
    have old: "distinct (map fst (lb_answers s))" "\<And>r y. (r, y) \<in> set (lb_answers s) \<Longrightarrow> r \<in> set (requests_of es)"
      "None \<notin> snd ` set (lb_answers s)" using assms(1) by (auto simp: dealt_def dealings_def)
    from stop_answers [OF assms(3) False] show ?thesis
      using old dealt_active [OF assms(1)] by auto
  qed
  then show "distinct (map fst (lb_answers s'))" "set (map fst (lb_answers s')) \<subseteq> set (requests_of (es @ [e]))"
    "None \<in> snd ` set (lb_answers s') \<longleftrightarrow> (\<exists>b. x = Plays b)" by blast+
qed

section \<open>The loop and the queue\<close>

lemma maybeEnqueue_queue:
  assumes "maybeEnqueue env s = (GoesOn, s')"
  shows "s' = s \<or> (\<exists>q n q'. \<not> lb_queued s \<and> lb_queue s = Some q \<and> Enqueue q (limbo_item env) = (Ok n, q') \<and>
    s' = s\<lparr>lb_queue := Some q', lb_queued := True\<rparr>)"
  using assms
  by (auto simp: maybeEnqueue_def limbo_enqueue_def split: if_splits option.splits prod.splits res.splits)

definition enqueues :: "('b, 'c, 'q, 'f) limbo_env \<Rightarrow> ('b, 'c, 'q, 'f, 'r) limbo \<Rightarrow> ('b, 'c, 'q, 'f, 'r) limbo \<Rightarrow> bool" where
  "enqueues env s s' \<longleftrightarrow> (\<exists>q n q'. \<not> lb_queued s \<and> lb_queued s' \<and> lb_queue s = Some q \<and>
     Enqueue q (limbo_item env) = (Ok n, q') \<and> lb_queue s' = Some q')"

definition same_queue :: "('b, 'c, 'q, 'f, 'r) limbo \<Rightarrow> ('b, 'c, 'q, 'f, 'r) limbo \<Rightarrow> bool" where
  "same_queue s s' \<longleftrightarrow> lb_queue s' = lb_queue s \<and> lb_queued s' = lb_queued s"

lemma start_challenge_queue:
  assumes "start_challenge env s = (GoesOn, s')"
  shows "same_queue s s' \<or> enqueues env s s'"
  using assms
  by (auto simp: start_challenge_def same_queue_def enqueues_def Let_def split: if_splits option.splits
      dest!: maybeEnqueue_queue)

lemma on_keepalive_queue:
  assumes "on_keepalive env payload s = (GoesOn, s')"
  shows "same_queue s s' \<or> enqueues env s s'"
proof -
  let ?s = "s\<lparr>lb_pendingKeepAlive := 0, lb_validKeepAlives := lb_validKeepAlives s + 1\<rparr>"
  obtain s1 s2 where start: "start_challenge env ?s = (GoesOn, s1)" and enq: "maybeEnqueue env s1 = (GoesOn, s2)"
    and s': "s' = s2\<lparr>lb_timeoutC := False\<rparr>"
    using on_keepalive_GoesOn [OF assms] .
  have 1: "same_queue s s1 \<or> enqueues env s s1"
    using start_challenge_queue [OF start] by (simp add: same_queue_def enqueues_def)
  consider "s2 = s1" | q n q' where "\<not> lb_queued s1" "lb_queue s1 = Some q" "Enqueue q (limbo_item env) = (Ok n, q')"
      "s2 = s1\<lparr>lb_queue := Some q', lb_queued := True\<rparr>"
    using maybeEnqueue_queue [OF enq] by blast
  then show ?thesis
  proof cases
    case 1
    then show ?thesis using \<open>same_queue s s1 \<or> enqueues env s s1\<close> by (simp add: s' same_queue_def enqueues_def)
  next
    case (2 q n q')
    then have "same_queue s s1" using \<open>same_queue s s1 \<or> enqueues env s s1\<close> by (auto simp: enqueues_def)
    then have "enqueues env s s'"
      unfolding enqueues_def using 2 by (intro exI [of _ q] exI [of _ n] exI [of _ q']) (simp add: s' same_queue_def)
    then show ?thesis by simp
  qed
qed

lemma limbo_step_queue:
  assumes "limbo_step env s e s'" "\<not> (\<exists>q. e = QueueMoves q)"
  shows "same_queue s s' \<or> enqueues env s s'"
proof -
  have h: "limbo_handle env e s = (GoesOn, s')" using assms(1) by (simp add: limbo_step_def)
  consider (challenge) r where "e = ChallengeResult r" | (frame) r where "e = FrameArrives r"
    | (other) "\<not> (\<exists>r. e = ChallengeResult r)" "\<not> (\<exists>r. e = FrameArrives r)" by blast
  then show ?thesis
  proof cases
    case challenge
    then obtain "r = None" "maybeEnqueue env (s\<lparr>lb_challengeResult := False, lb_challengePassed := True\<rparr>) = (GoesOn, s')"
      using h by (auto simp: on_challenge_def Let_def split: option.splits)
    from maybeEnqueue_queue [OF this(2)] show ?thesis by (auto simp: same_queue_def enqueues_def)
  next
    case frame
    then obtain payload where "r = Ok payload" using h by (cases r) (auto simp: on_frame_def)
    then have "on_frame env (Ok payload) s = (GoesOn, s')" using h frame by simp
    then show ?thesis
    proof (cases rule: on_frame_cases)
      case barrier
      then show ?thesis by (simp add: same_queue_def checks_def)
    next
      case keepalive
      then show ?thesis using on_keepalive_queue by blast
    qed (simp add: same_queue_def)
  next
    case other
    have "lb_queued s' = lb_queued s" using quiet_cases [OF h other] by (simp add: checks_def)
    moreover have "lb_queue s' = lb_queue s"
    proof (cases e)
      case (PrepareOutcome x)
      then show ?thesis using h
        by (auto simp: on_prepared_def lthen_eq answer_active_eq Let_def split: res.splits prod.splits)
    next
      case KeepAliveTick
      then show ?thesis using h limbo_write_keeps(3) [of env]
        by (fastforce simp: on_tick_def lthen_eq Let_def split: if_splits)
    next
      case QueueTick
      then show ?thesis using h
        by (auto simp: on_queue_tick_def split: if_splits option.splits res.splits dest: limbo_write_keeps(3))
    qed (use h assms(2) other in \<open>auto simp: on_admission_def answer_def on_prepare_done_def lthen_eq answer_active_eq
        on_timeout_def split: if_splits option.splits prod.splits\<close>)
    ultimately show ?thesis by (simp add: same_queue_def)
  qed
qed


section \<open>Frames behind the barrier\<close>

text \<open>What happens to the session during a transfer: frames of the player, and phases other goroutines complete.\<close>

datatype barrier_event = BarrierFrame bytes | BarrierPhaseDone BarrierPhase

fun barrier_frame_step :: "Session \<Rightarrow> barrier_event \<Rightarrow> Session \<Rightarrow> bool" where
  "barrier_frame_step s (BarrierFrame frm) s' \<longleftrightarrow> (\<exists>i body. PacketID frm = Ok (i, body) \<and> handleBarrierFrame s i frm = (Ok (), s'))"
| "barrier_frame_step s (BarrierPhaseDone ph) s' \<longleftrightarrow> AdvanceBarrier s ph = (Ok (), s')"

definition movement_frame :: "bytes \<Rightarrow> Movement list" where
  "movement_frame frm = (case DecodeMovement frm of Ok m \<Rightarrow> [m] | _ \<Rightarrow> [])"

definition is_command :: "bytes \<Rightarrow> bool" where
  "is_command frm = (case PacketID frm of Ok (i, _) \<Rightarrow> i = ServerboundPlayerCommandID | _ \<Rightarrow> False)"

fun event_frames :: "barrier_event list \<Rightarrow> bytes list" where
  "event_frames [] = []"
| "event_frames (BarrierFrame frm # es) = frm # event_frames es"
| "event_frames (_ # es) = event_frames es"

lemma event_frames_append [simp]: "event_frames (es @ fs) = event_frames es @ event_frames fs"
  by (induction es rule: event_frames.induct) simp_all

definition player_moves :: "bytes list \<Rightarrow> Movement list" where
  "player_moves fs = concat (map movement_frame fs)"

text \<open>
  What the backend should be told of the player's movements: one movement to the place of the last, in the
  direction of the last that had one, or direction zero.
\<close>

definition last_look :: "(Movement \<Rightarrow> float32) \<Rightarrow> Movement list \<Rightarrow> float32" where
  "last_look angle ms = (case rev (filter mv_HasLook ms) of [] \<Rightarrow> 0 | m # _ \<Rightarrow> angle m)"

definition whole_movement :: "Movement list \<Rightarrow> Movement list" where
  "whole_movement ms =
     (if ms = [] then []
      else [\<lparr>mv_X = mv_X (last ms), mv_Y = mv_Y (last ms), mv_Z = mv_Z (last ms), mv_Yaw = last_look mv_Yaw ms,
             mv_Pitch = last_look mv_Pitch ms, mv_OnGround = mv_OnGround (last ms), mv_HasLook = True\<rparr>])"

definition commands_in :: "Input list \<Rightarrow> PlayerCommand list" where
  "commands_in ins = map Command (filter (\<lambda>i. Kind i = InputPlayerCommand) ins)"

lemma DecodeMovement_id:
  "DecodeMovement frm = Ok m \<Longrightarrow> \<exists>i body. PacketID frm = Ok (i, body) \<and> (i = ServerboundPositionID \<or> i = ServerboundPositionLookID)"
  by (auto simp: DecodeMovement_def res_iff)

text \<open>A frame that is handled makes at most one call on the session, with a valid input.\<close>

fun accepted_call :: "session_call \<Rightarrow> bool" where
  "accepted_call (CallHandleInput i d e) = (e = None)"
| "accepted_call (CallAdvance ph r) = True"
| "accepted_call _ = False"

definition frame_calls :: "Session \<Rightarrow> session_call list \<Rightarrow> Session \<Rightarrow> bytes \<Rightarrow> bool" where
  "frame_calls s cs s' frm \<longleftrightarrow> runs session_step s cs s' \<and> list_all accepted_call cs \<and> list_all input_valid (inputs_of cs) \<and>
     movements (inputs_of cs) = map movement_input (player_moves [frm]) \<and>
     map Ok (commands_in (inputs_of cs)) = map ParsePlayerCommand (filter is_command [frm])"

lemma barrier_input_call:
  assumes "barrier_input i s = (Ok (), s')"
  shows "\<exists>d. session_step s (CallHandleInput i d None) s'"
  using assms by (auto simp: barrier_input_def split: prod.splits option.splits)

lemma player_moves_single:
  "PacketID frm = Ok (i, body) \<Longrightarrow> i \<noteq> ServerboundPositionID \<Longrightarrow> i \<noteq> ServerboundPositionLookID \<Longrightarrow> player_moves [frm] = []"
  using DecodeMovement_id [of frm] by (auto simp: player_moves_def movement_frame_def split: res.splits)

lemma frame_calls_input:
  assumes "barrier_input j s = (Ok (), s')" "input_valid j" "movements [j] = map movement_input (player_moves [frm])"
    "map Ok (commands_in [j]) = map ParsePlayerCommand (filter is_command [frm])"
  shows "\<exists>cs. frame_calls s cs s' frm"
proof -
  obtain d where "session_step s (CallHandleInput j d None) s'" using barrier_input_call [OF assms(1)] by blast
  then have "runs session_step s [CallHandleInput j d None] s'" by (rule runs_single)
  then show ?thesis
    using assms(2-4) by (intro exI [of _ "[CallHandleInput j d None]"]) (simp add: frame_calls_def inputs_of_def)
qed

lemma frame_calls_none:
  assumes "PacketID frm = Ok (i, body)" "i \<notin> {ServerboundPositionID, ServerboundPositionLookID, ServerboundPlayerCommandID}"
  shows "runs session_step s cs s' \<Longrightarrow> list_all accepted_call cs \<Longrightarrow> inputs_of cs = [] \<Longrightarrow> frame_calls s cs s' frm"
  using assms player_moves_single [OF assms(1)]
  by (simp add: frame_calls_def movements_def commands_in_def is_command_def)

lemma frame_calls_advance:
  assumes "PacketID frm = Ok (i, body)" "i \<notin> {ServerboundPositionID, ServerboundPositionLookID, ServerboundPlayerCommandID}"
    "AdvanceBarrier s ph = (Ok (), s')"
  shows "frame_calls s [CallAdvance ph (Ok ())] s' frm"
  by (rule frame_calls_none [OF assms(1,2)]) (use assms(3) in \<open>simp_all add: runs_single inputs_of_def\<close>)

lemma movement_input_valid: "DecodeMovement frm = Ok m \<Longrightarrow> input_valid (movement_input m)"
  using DecodeMovement_Ok [of frm m] by (simp add: input_valid_def movement_input_def zero_input_def position_finite_def)

lemmas frame_ids = play_ids ServerboundFinishConfigurationID_def ServerboundClientInformationID_def ServerboundPluginMessageID_def

lemma handled_frame:
  assumes h: "handleBarrierFrame s i frm = (Ok (), s')" and p: "PacketID frm = Ok (i, body)"
  shows "\<exists>cs. frame_calls s cs s' frm"
proof -
  obtain ph where ph: "Session_BarrierPhase s = Ok ph"
    using h by (cases "Session_BarrierPhase s") (simp_all add: handleBarrierFrame_def)
  have same: "frame_calls s [] s frm" if "i \<notin> {ServerboundPositionID, ServerboundPositionLookID, ServerboundPlayerCommandID}"
    by (rule frame_calls_none [OF p that]) (simp_all add: inputs_of_def)
  consider (start) "ph = BarrierAwaitingClientConfigurationStart" "i = ServerboundConfigurationAcknowledgedID"
    | (finish) "ph = BarrierAwaitingClientConfigurationFinish" "i = ServerboundFinishConfigurationID"
    | (config) "ph = BarrierAwaitingClientConfigurationFinish" "i = ServerboundClientInformationID \<or> i = ServerboundPluginMessageID"
    | (keepalive) "i = ServerboundKeepAliveID" | (move) "i = ServerboundPositionID \<or> i = ServerboundPositionLookID"
    | (command) "i = ServerboundPlayerCommandID"
    | (bad) "i = ServerboundConfigurationAcknowledgedID \<or> i = ServerboundFinishConfigurationID"
        "\<not> (ph = BarrierAwaitingClientConfigurationStart \<and> i = ServerboundConfigurationAcknowledgedID)"
        "\<not> (ph = BarrierAwaitingClientConfigurationFinish \<and> i = ServerboundFinishConfigurationID)"
    | (other) "\<not> (ph = BarrierAwaitingClientConfigurationFinish \<and> (i = ServerboundClientInformationID \<or> i = ServerboundPluginMessageID))"
        "i \<notin> {ServerboundConfigurationAcknowledgedID, ServerboundFinishConfigurationID, ServerboundKeepAliveID,
           ServerboundPositionID, ServerboundPositionLookID, ServerboundPlayerCommandID}"
    by blast
  then show ?thesis
  proof cases
    case start
    then have "AdvanceBarrier s BarrierClientConfiguration = (Ok (), s')"
      using h ph by (auto simp: handleBarrierFrame_def split: res.splits)
    then show ?thesis using frame_calls_advance [OF p] start(2) by (auto simp: frame_ids)
  next
    case finish
    then have "AdvanceBarrier s BarrierReady = (Ok (), s')"
      using h ph by (auto simp: handleBarrierFrame_def frame_ids split: res.splits)
    then show ?thesis using frame_calls_advance [OF p] finish(2) by (auto simp: frame_ids)
  next
    case config
    then have "s' = s" using h ph by (auto simp: handleBarrierFrame_def frame_ids split: res.splits)
    moreover have "i \<notin> {ServerboundPositionID, ServerboundPositionLookID, ServerboundPlayerCommandID}"
      using config(2) by (auto simp: frame_ids)
    ultimately show ?thesis using same by auto
  next
    case keepalive
    then obtain k where "barrier_input (zero_input\<lparr>Kind := InputKeepAlive, KeepAliveID := k\<rparr>) s = (Ok (), s')"
      using h ph by (auto simp: handleBarrierFrame_def frame_ids split: res.splits)
    then show ?thesis
      by (rule frame_calls_input) (use p keepalive player_moves_single [OF p] in
          \<open>simp_all add: input_valid_def movements_def commands_in_def is_command_def frame_ids\<close>)
  next
    case move
    then obtain m where m: "DecodeMovement frm = Ok m" "barrier_input (movement_input m) s = (Ok (), s')"
      using h ph by (auto simp: handleBarrierFrame_def frame_ids split: res.splits)
    show ?thesis
      by (rule frame_calls_input [OF m(2) movement_input_valid [OF m(1)]])
        (use p move m(1) in \<open>auto simp: movement_input_def movements_def player_moves_def movement_frame_def
          commands_in_def is_command_def frame_ids\<close>)
  next
    case command
    then obtain c where c: "ParsePlayerCommand frm = Ok c"
      "barrier_input (zero_input\<lparr>Kind := InputPlayerCommand, Command := c\<rparr>) s = (Ok (), s')"
      using h ph by (auto simp: handleBarrierFrame_def frame_ids split: res.splits)
    show ?thesis
      by (rule frame_calls_input [OF c(2)]) (use p command c(1) ParsePlayerCommand_Ok [OF c(1)] player_moves_single [OF p] in
          \<open>simp_all add: input_valid_def command_valid_def movements_def commands_in_def is_command_def frame_ids\<close>)
  next
    case bad
    then show ?thesis using h ph by (auto simp: handleBarrierFrame_def frame_ids)
  next
    case other
    then have "barrier_input (zero_input\<lparr>Kind := InputUnsafe\<rparr>) s = (Ok (), s')"
      using h ph by (auto simp: handleBarrierFrame_def)
    then show ?thesis
      by (rule frame_calls_input) (use p other(2) player_moves_single [OF p] in
          \<open>simp_all add: input_valid_def movements_def commands_in_def is_command_def\<close>)
  qed
qed


lemma accepted_barrier_call:
  assumes "list_all accepted_call cs"
  shows "list_all barrier_call cs"
proof -
  have "accepted_call c \<Longrightarrow> barrier_call c" for c by (cases c) simp_all
  then show ?thesis using assms by (simp add: list_all_iff)
qed

lemma inputs_of_append [simp]: "inputs_of (cs @ ds) = inputs_of cs @ inputs_of ds"
  by (simp add: inputs_of_def)

text \<open>Commands are accepted only while there is room for them.\<close>

lemma accepted_commands:
  assumes "BeginTransfer s now ids k = (Ok (), s0)" "runs session_step s0 cs t" "list_all accepted_call cs"
  shows "length (commands_in (inputs_of cs)) \<le> nat k"
  using assms(2,3)
proof (induction cs arbitrary: t rule: rev_induct)
  case (snoc c cs)
  then obtain t1 where run: "runs session_step s0 cs t1" and step: "session_step t1 c t"
    using runs_snocD [OF snoc.prems(1)] by blast
  have ok: "list_all accepted_call cs" "accepted_call c" using snoc.prems(2) by simp_all
  have IH: "length (commands_in (inputs_of cs)) \<le> nat k" by (rule snoc.IH [OF run ok(1)])
  have t1: "t1 = up now ids k cs"
    by (rule barrier_runs_up [OF assms(1) run accepted_barrier_call [OF ok(1)]])
  show ?case
  proof (cases "\<exists>i d. c = CallHandleInput i d None \<and> Kind i = InputPlayerCommand")
    case True
    then obtain i d where c: "c = CallHandleInput i d None" "Kind i = InputPlayerCommand" by blast
    then have "int (length (spec_commands k (inputs_of cs))) < max 0 k"
      using step by (auto simp: t1 up_def HandleBarrierInput_def barrier_handle_def spec_barrier_def split: if_splits)
    then have "length (commands_in (inputs_of cs)) < nat k"
      using IH by (auto simp: spec_commands_def commands_in_def)
    then show ?thesis by (simp add: c inputs_of_def commands_in_def)
  next
    case False
    then have "commands_in (inputs_of [c]) = []"
      using ok(2) by (cases c) (auto simp: inputs_of_def commands_in_def)
    then show ?thesis using IH by (simp add: commands_in_def)
  qed
qed (simp add: inputs_of_def commands_in_def)

lemma barrier_events_calls:
  "runs barrier_frame_step s0 es t \<Longrightarrow>
     \<exists>cs. runs session_step s0 cs t \<and> list_all accepted_call cs \<and> list_all input_valid (inputs_of cs) \<and>
       movements (inputs_of cs) = map movement_input (player_moves (event_frames es)) \<and>
       map Ok (commands_in (inputs_of cs)) = map ParsePlayerCommand (filter is_command (event_frames es))"
proof (induction rule: runs.induct)
  case (runs_snoc s0 es t e u)
  then obtain cs where cs: "runs session_step s0 cs t" "list_all accepted_call cs" "list_all input_valid (inputs_of cs)"
    "movements (inputs_of cs) = map movement_input (player_moves (event_frames es))"
    "map Ok (commands_in (inputs_of cs)) = map ParsePlayerCommand (filter is_command (event_frames es))"
    by blast
  show ?case
  proof (cases e)
    case (BarrierFrame frm)
    then obtain i body where "PacketID frm = Ok (i, body)" "handleBarrierFrame t i frm = (Ok (), u)"
      using runs_snoc.hyps(2) by auto
    then obtain ds where ds: "frame_calls t ds u frm" using handled_frame by blast
    then have "runs session_step s0 (cs @ ds) u" using cs(1) runs_append by (auto simp: frame_calls_def)
    with cs ds show ?thesis
      by (intro exI [of _ "cs @ ds"]) (simp add: frame_calls_def BarrierFrame movements_def player_moves_def commands_in_def)
  next
    case (BarrierPhaseDone ph)
    then have "runs session_step s0 (cs @ [CallAdvance ph (Ok ())]) u"
      using runs_snoc cs(1) by (intro runs.runs_snoc) auto
    with cs show ?thesis
      by (intro exI [of _ "cs @ [CallAdvance ph (Ok ())]"]) (simp add: BarrierPhaseDone inputs_of_def)
  qed
qed (auto simp: inputs_of_def movements_def player_moves_def commands_in_def intro!: exI [of _ "[]"])

text \<open>A decoded movement without a direction has direction zero, so the rule of the barrier gives that of the last with one.\<close>

lemma DecodeMovement_no_look: "DecodeMovement frm = Ok m \<Longrightarrow> mv_HasLook m \<or> mv_Yaw m = 0 \<and> mv_Pitch m = 0"
  by (auto simp: DecodeMovement_def res_iff Let_def split: if_splits)

lemma player_moves_look: "m \<in> set (player_moves fs) \<Longrightarrow> mv_HasLook m \<or> mv_Yaw m = 0 \<and> mv_Pitch m = 0"
  by (auto simp: player_moves_def movement_frame_def split: res.splits dest: DecodeMovement_no_look [OF sym])

lemma facing_last_look:
  assumes "\<And>m. m \<in> set ms \<Longrightarrow> mv_HasLook m \<or> mv_Yaw m = 0 \<and> mv_Pitch m = 0" "ms \<noteq> []"
  shows "pos_Yaw (facing (map movement_input ms)) = last_look mv_Yaw ms"
    "pos_Pitch (facing (map movement_input ms)) = last_look mv_Pitch ms"
proof -
  have looks: "filter HasLook (map movement_input ms) = map movement_input (filter mv_HasLook ms)"
    by (simp add: filter_map comp_def movement_input_def)
  have "pos_Yaw (facing (map movement_input ms)) = last_look mv_Yaw ms \<and>
      pos_Pitch (facing (map movement_input ms)) = last_look mv_Pitch ms"
  proof (cases "filter mv_HasLook ms" rule: rev_cases)
    case Nil
    then have "\<not> mv_HasLook (hd ms)" using assms(2) by (cases ms) (auto split: if_splits)
    then have "mv_Yaw (hd ms) = 0 \<and> mv_Pitch (hd ms) = 0" using assms by force
    then show ?thesis using Nil assms(2) by (simp add: facing_def looks last_look_def hd_map movement_input_def)
  next
    case (snoc ls m)
    then show ?thesis by (simp add: facing_def looks last_look_def movement_input_def)
  qed
  then show "pos_Yaw (facing (map movement_input ms)) = last_look mv_Yaw ms"
    "pos_Pitch (facing (map movement_input ms)) = last_look mv_Pitch ms" by blast+
qed

lemma spec_whole_movement:
  assumes "movements ins = map movement_input (player_moves fs)"
  shows "(case spec_position ins of None \<Rightarrow> [] | Some p \<Rightarrow> [Ok (movement_of p)]) = map Ok (whole_movement (player_moves fs))"
proof (cases "player_moves fs = []")
  case True
  then show ?thesis using assms by (simp add: spec_position_def whole_movement_def)
next
  case False
  have "in_Position (last (map movement_input (player_moves fs))) = in_Position (movement_input (last (player_moves fs)))"
    using False by (simp add: last_map)
  then show ?thesis
    using assms False facing_last_look [of "player_moves fs", OF player_moves_look False]
    by (simp add: spec_position_def whole_movement_def movement_of_def movement_input_def Let_def)
qed

section \<open>The end of a transfer\<close>



section \<open>Properties\<close>

text \<open>
  C30: what a player does during a transfer reaches the backend. While the barrier is up, the player's
  frames are handled in any order with the phases other goroutines complete. When the
  transfer is released, the packets written to the backend are, read by the backend's parsers, one
  movement, if the player moved, and then every command the player sent, in order. The movement has the coordinates and
  the ground flag of the player's last movement frame and the direction of the last frame that had one,
  or direction zero when none had.
\<close>

theorem barrier_frames_replayed:
  assumes "BeginTransfer s now ids k = (Ok (), s0)" "runs barrier_frame_step s0 es t" "ReleaseTransfer t = (Ok replay, t')"
  shows "\<exists>moves cmds. ReplayPayloads replay = moves @ cmds \<and>
    map DecodeMovement moves = map Ok (whole_movement (player_moves (event_frames es))) \<and>
    map ParsePlayerCommand cmds = map ParsePlayerCommand (filter is_command (event_frames es))"
proof -
  obtain cs where cs: "runs session_step s0 cs t" "list_all accepted_call cs" "list_all input_valid (inputs_of cs)"
    "movements (inputs_of cs) = map movement_input (player_moves (event_frames es))"
    "map Ok (commands_in (inputs_of cs)) = map ParsePlayerCommand (filter is_command (event_frames es))"
    using barrier_events_calls [OF assms(2)] by blast
  have "spec_commands k (inputs_of cs) = commands_in (inputs_of cs)"
    using accepted_commands [OF assms(1) cs(1,2)] by (simp add: spec_commands_def commands_in_def)
  then show ?thesis
    using replay_decodes [OF assms(1) cs(1) accepted_barrier_call [OF cs(2)] cs(3) assms(3)] cs(5)
      spec_whole_movement [OF cs(4)] by simp
qed

text \<open>
  C31: nobody is queued unchecked. When the loop has put the player into the admission queue, the
  challenge hook, if there is one, has reported that the player passed, and the player has answered at least
  as many keepalives as the hook requires, one at the least. Each answer carried, outside the barrier, the keepalive
  sent last before it, and the answers are to different keepalives: they are a subsequence of the keepalives written
  to the client.
\<close>

theorem queued_after_checks:
  assumes "runs (limbo_seen env) (limbo_start t st q) tr s" "lb_queued s"
  shows "(lm_hook env = None \<or> ChallengeResult None \<in> snd ` set tr) \<and> 1 \<le> required env \<and>
    required env \<le> int (length (player_answers tr)) \<and> subseq (player_answers tr) (keepalives_sent s)"
  using checked_runs [OF assms(1) refl] assms(2)
  by (auto simp: checked_def owing_def ledger_def required_def split: option.splits)

text \<open>
  C33: the loop enters the player into the queue once. Apart from what other goroutines do to the
  queue, a step of the loop leaves the queue alone or enqueues the player's item, and after that no
  step of it touches the queue again; so a player whose transfer has failed after the
  scheduler took the item out stays in Limbo and is never queued again.
\<close>

theorem queued_once:
  assumes "limbo_step env s e s'" "\<not> (\<exists>q. e = QueueMoves q)"
  shows "lb_queue s' = lb_queue s \<and> lb_queued s' = lb_queued s \<or>
    (\<exists>q n q'. \<not> lb_queued s \<and> lb_queued s' \<and> lb_queue s = Some q \<and> Enqueue q (limbo_item env) = (Ok n, q') \<and>
       lb_queue s' = Some q')"
  using limbo_step_queue [OF assms] by (simp add: same_queue_def enqueues_def)

text \<open>
  C32: admission requests are answered at most once, and answering never blocks the loop. Each
  request brings a channel of its own with room for one result, which its sender may or may not receive. Whatever
  transfers succeed, fail or time out, and whatever case the loop takes next, also one that ends it: no
  result goes to a nil or a full channel, no request is sent a second result, only requests that were made are
  answered, and one is told that its transfer succeeded exactly when the loop enters the play bridge.
\<close>

theorem admissions_answered_once:
  assumes "runs (limbo_step env) (limbo_start t st q) es s" "enabled e s" "limbo_handle env e s = (x, s')"
    "distinct (requests_of (es @ [e]))"
  shows "x \<noteq> Blocks \<and> distinct (map fst (lb_answers s')) \<and> set (map fst (lb_answers s')) \<subseteq> set (requests_of (es @ [e])) \<and>
    (None \<in> snd ` set (lb_answers s') \<longleftrightarrow> (\<exists>b. x = Plays b))"
  using last_answers [OF dealt_runs [OF assms(1) refl] assms(2-4)] assms(4) by auto


text \<open>
  C34: an answer behind the barrier does not stop the keepalive timer. A frame that is handled during a
  transfer, also the very answer to the keepalive that is being waited for, leaves the timer of
  that keepalive running; when it fires the session ends as timed out.
\<close>

theorem barrier_answer_still_times_out:
  assumes "state (lb_session s) = StateTransferBarrier" "lb_timeoutC s" "limbo_step env s (FrameArrives (Ok payload)) s'"
  shows "enabled TimeoutFires s' \<and>
    limbo_handle env TimeoutFires s' =
      (Returns (ErrText (''limbo keepalive '' @ show_int (sint (lb_pendingKeepAlive s)) @ '' timed out'')), s')"
proof -
  have "on_frame env (Ok payload) s = (GoesOn, s')" using assms(3) by (simp add: limbo_step_def)
  then show ?thesis
    by (cases rule: on_frame_cases) (use assms(1,2) in \<open>simp_all add: on_timeout_def ledger_def\<close>)
qed

text \<open>
  A failed transfer forgets the keepalive the player was sent before it: the answer, when it
  comes, is taken for an unsolicited one and ends the session.
\<close>

lemma late_answer_ends_session:
  assumes "limbo_step env s (PrepareOutcome (Fail e)) s'" "state (lb_session s') \<noteq> StateTransferBarrier"
    "ParseKeepAlive payload = Ok i"
  shows "limbo_handle env (FrameArrives (Ok payload)) s' = (Returns ErrPlayMalformed, s')"
proof -
  have "lb_pendingKeepAlive s' = 0"
    using assms(1) by (auto simp: limbo_step_def on_prepared_def lthen_eq answer_active_eq Let_def)
  moreover obtain body where "PacketID payload = Ok (ServerboundKeepAliveID, body)"
    using assms(3) by (auto simp: ParseKeepAlive_def res_iff)
  ultimately show ?thesis using assms(2,3) by (simp add: on_frame_def on_keepalive_def)
qed


section \<open>Examples\<close>

definition sample_limbo_env :: "(tcp, tcp, unit, unit) limbo_env" where
  "sample_limbo_env = \<lparr>lm_client = plain_net, lm_backend = plain_net, lm_coordinator = True, lm_hook = None,
     lm_identity = sample_identity, lm_queueCtx = (), lm_admit = (), lm_meanwhile = id,
     lm_clear_client = (\<lambda>t. None), lm_clear_backend = (\<lambda>t. None)\<rparr>"

definition sample_limbo :: "(tcp, tcp, unit, unit, nat) limbo" where
  "sample_limbo = limbo_start sample_transport limbo_session (Some (New_FIFO 5))"

definition sample_answer :: bytes where
  "sample_answer = [0x15, 0, 0, 0, 0, 0, 0, 0, 1]"

lemma sample_answer_parses: "ParseKeepAlive sample_answer = Ok 1" "\<exists>body. PacketID sample_answer = Ok (ServerboundKeepAliveID, body)"
proof -
  show 1: "ParseKeepAlive sample_answer = Ok 1" unfolding sample_answer_def by code_simp
  show "\<exists>body. PacketID sample_answer = Ok (ServerboundKeepAliveID, body)"
    using 1 by (auto simp: ParseKeepAlive_def res_iff)
qed

lemma sample_item: "ID (limbo_item sample_limbo_env) \<noteq> []" "Admit (limbo_item sample_limbo_env) = Some ()"
  by (simp_all add: limbo_item_def sample_limbo_env_def sample_identity_def sample_uid_def hex_EncodeToString_def)

lemma sample_enqueue: "\<exists>n q. Enqueue (New_FIFO 5) (limbo_item sample_limbo_env) = (Ok n, q)"
  using sample_item by (simp add: Enqueue_def New_FIFO_def Let_def)

lemma sample_limbo_queued:
  "\<exists>s. limbo_step sample_limbo_env sample_limbo (FrameArrives (Ok sample_answer)) s \<and> lb_queued s"
proof -
  obtain n q where q: "Enqueue (New_FIFO 5) (limbo_item sample_limbo_env) = (Ok n, q)" using sample_enqueue by blast
  obtain body where p: "PacketID sample_answer = Ok (ServerboundKeepAliveID, body)" using sample_answer_parses(2) by blast
  have env: "lm_hook sample_limbo_env = None" "lm_coordinator sample_limbo_env" by (simp_all add: sample_limbo_env_def)
  show ?thesis
    using q p sample_answer_parses(1) env
    by (simp add: limbo_step_def on_frame_def on_keepalive_def sample_limbo_def limbo_start_def limbo_session_def lthen_def
        start_challenge_def maybeEnqueue_def limbo_enqueue_def Let_def)
qed

theorem queued_after_checks_witness:
  "\<exists>s tr. runs (limbo_seen sample_limbo_env) (limbo_start sample_transport limbo_session (Some (New_FIFO 5))) tr s \<and>
     lb_queued (s :: (tcp, tcp, unit, unit, nat) limbo) \<and> required sample_limbo_env \<le> int (length (player_answers tr)) \<and>
     subseq (player_answers tr) (keepalives_sent s)"
proof -
  obtain s where s: "limbo_step sample_limbo_env sample_limbo (FrameArrives (Ok sample_answer)) s" "lb_queued s"
    using sample_limbo_queued by blast
  then have run: "runs (limbo_seen sample_limbo_env) (limbo_start sample_transport limbo_session (Some (New_FIFO 5)))
      [(sample_limbo, FrameArrives (Ok sample_answer))] s"
    by (intro runs_single) (simp add: limbo_seen_def sample_limbo_def)
  show ?thesis using run s(2) queued_after_checks [OF run s(2)] by blast
qed

theorem queued_once_witness:
  "\<exists>s q n q'. limbo_step sample_limbo_env sample_limbo (FrameArrives (Ok sample_answer)) s \<and>
     lb_queue sample_limbo = Some q \<and> Enqueue q (limbo_item sample_limbo_env) = (Ok n, q') \<and> lb_queue s = Some q'"
proof -
  obtain s where s: "limbo_step sample_limbo_env sample_limbo (FrameArrives (Ok sample_answer)) s" "lb_queued s"
    using sample_limbo_queued by blast
  have "\<not> lb_queued sample_limbo" by (simp add: sample_limbo_def limbo_start_def)
  then show ?thesis using s queued_once [OF s(1)] by auto
qed

theorem admissions_answered_once_witness:
  "\<exists>s s'. runs (limbo_step sample_limbo_env) (limbo_start sample_transport limbo_session (Some (New_FIFO 5))) [AdmissionRequest (1 :: nat)] s \<and>
     limbo_handle sample_limbo_env (PrepareOutcome (Fail EOF)) s = (GoesOn, s') \<and>
     distinct (map fst (lb_answers s')) \<and> set (map fst (lb_answers s')) \<subseteq> {1} \<and> lb_answers s' = [(1, Some EOF)]"
proof -
  let ?runs = "runs (limbo_step sample_limbo_env) (limbo_start sample_transport limbo_session (Some (New_FIFO 5)))"
  obtain s s' where s: "?runs [AdmissionRequest (1 :: nat)] s" "enabled (PrepareOutcome (Fail EOF) :: (tcp, unit, unit, nat) limbo_event) s"
    "limbo_handle sample_limbo_env (PrepareOutcome (Fail EOF)) s = (GoesOn, s')" "lb_answers s' = [(1, Some EOF)]"
    by (simp add: runs_Cons_iff limbo_step_def on_admission_def on_prepared_def limbo_start_def limbo_session_def
        lthen_def answer_active_def answer_def sample_limbo_env_def Let_def)
  have "distinct (requests_of ([AdmissionRequest 1] @ [PrepareOutcome (Fail EOF) :: (tcp, unit, unit, nat) limbo_event]))"
    "set (requests_of ([AdmissionRequest 1] @ [PrepareOutcome (Fail EOF) :: (tcp, unit, unit, nat) limbo_event])) = {1}"
    by (simp_all add: requests_of_def)
  with s admissions_answered_once [OF s(1-3)] show ?thesis by auto
qed


definition sample_behind :: "(tcp, tcp, unit, unit, nat) limbo" where
  "sample_behind = sample_limbo\<lparr>lb_session := snd (BeginTransfer limbo_session 0 (pendingIDs 1) 0)\<rparr>"

text \<open>The frame is the right answer, and the barrier has taken it.\<close>

theorem barrier_answer_still_times_out_witness:
  "\<exists>s. limbo_step sample_limbo_env sample_behind (FrameArrives (Ok sample_answer)) s \<and>
     ParseKeepAlive sample_answer = Ok (lb_pendingKeepAlive sample_behind) \<and> enabled TimeoutFires s \<and>
     limbo_handle sample_limbo_env TimeoutFires s = (Returns (ErrText ''limbo keepalive 1 timed out''), s)"
proof -
  obtain body where p: "PacketID sample_answer = Ok (ServerboundKeepAliveID, body)" using sample_answer_parses(2) by blast
  have pending: "lb_pendingKeepAlive sample_behind = 1" "lb_timeoutC sample_behind"
    "state (lb_session sample_behind) = StateTransferBarrier"
    by (simp_all add: sample_behind_def sample_limbo_def limbo_start_def BeginTransfer_def transitionLocked_def canTransition_def
        limbo_session_def)
  obtain s where s: "limbo_step sample_limbo_env sample_behind (FrameArrives (Ok sample_answer)) s"
    using p sample_answer_parses(1)
    by (simp add: limbo_step_def on_frame_def sample_behind_def sample_limbo_def limbo_start_def limbo_session_def BeginTransfer_def
        transitionLocked_def canTransition_def handleBarrierFrame_def Session_BarrierPhase_def newBarrier_def barrier_phases
        barrier_input_def HandleBarrierInput_def barrier_handle_def zero_input_def pendingIDs_def lthen_def progress_def
        outcome_of_def frame_ids Let_def)
  have "show_int (sint (1 :: int64)) = ''1''" by code_simp
  then show ?thesis
    using s pending barrier_answer_still_times_out [OF pending(3,2) s] sample_answer_parses(1) by auto
qed


definition sample_move :: bytes where
  "sample_move = ServerboundPositionPayload 0 0 0 True"

definition sample_sprint :: bytes where
  "sample_sprint = PlayerCommandPayload 1 3 0"

definition sample_barrier_events :: "barrier_event list" where
  "sample_barrier_events = [BarrierFrame sample_move, BarrierFrame sample_sprint, BarrierPhaseDone 1, BarrierPhaseDone 2,
     BarrierPhaseDone 3, BarrierPhaseDone 4, BarrierPhaseDone 5, BarrierPhaseDone 6]"

lemma sample_frames_parse:
  "\<exists>body. PacketID sample_move = Ok (0x17, body)" "\<exists>body. PacketID sample_sprint = Ok (0x22, body)"
  "DecodeMovement sample_move = Ok \<lparr>mv_X = 0, mv_Y = 0, mv_Z = 0, mv_Yaw = 0, mv_Pitch = 0, mv_OnGround = True, mv_HasLook = False\<rparr>"
  "ParsePlayerCommand sample_sprint = Ok \<lparr>EntityID = 1, ActionID = 3, CommandData = 0\<rparr>"
proof -
  show "\<exists>body. PacketID sample_move = Ok (0x17, body)" "\<exists>body. PacketID sample_sprint = Ok (0x22, body)"
    by (simp_all add: sample_move_def sample_sprint_def ServerboundPositionPayload_def PlayerCommandPayload_def play_ids play_appends)
qed (simp_all add: sample_move_def sample_sprint_def ParsePlayerCommand_roundtrip DecodeMovement_position finite64_def)

lemma sample_barrier_run:
  "\<exists>s0 t replay t'. BeginTransfer limbo_session 10 [42] 2 = (Ok (), s0) \<and> runs barrier_frame_step s0 sample_barrier_events t \<and>
     ReleaseTransfer t = (Ok replay, t')"
proof -
  obtain b1 where 1: "PacketID sample_move = Ok (0x17, b1)" using sample_frames_parse(1) by blast
  obtain b2 where 2: "PacketID sample_sprint = Ok (0x22, b2)" using sample_frames_parse(2) by blast
  show ?thesis
    using 1 2 sample_frames_parse(3,4)
    by (simp add: sample_barrier_events_def runs_Cons_iff BeginTransfer_def transitionLocked_def canTransition_def limbo_session_def
        handleBarrierFrame_def Session_BarrierPhase_def newBarrier_def barrier_phases barrier_input_def HandleBarrierInput_def
        barrier_handle_def zero_input_def movement_input_def AdvanceBarrier_def ReleaseTransfer_def frame_ids Let_def)
qed

theorem barrier_frames_replayed_witness:
  "\<exists>replay moves cmds. ReplayPayloads replay = moves @ cmds \<and> length moves = 1 \<and>
     map ParsePlayerCommand cmds = [Ok \<lparr>EntityID = 1, ActionID = 3, CommandData = 0\<rparr>]"
proof -
  obtain s0 t replay t' where r: "BeginTransfer limbo_session 10 [42] 2 = (Ok (), s0)"
    "runs barrier_frame_step s0 sample_barrier_events t" "ReleaseTransfer t = (Ok replay, t')"
    using sample_barrier_run by blast
  have frames: "event_frames sample_barrier_events = [sample_move, sample_sprint]" by (simp add: sample_barrier_events_def)
  have command: "filter is_command [sample_move, sample_sprint] = [sample_sprint]"
    using sample_frames_parse(1,2) by (auto simp: is_command_def frame_ids)
  have "DecodeMovement sample_sprint \<noteq> Ok m" for m
    using DecodeMovement_id [of sample_sprint m] sample_frames_parse(2) by (auto simp: frame_ids)
  then have moved: "player_moves [sample_move, sample_sprint] =
      [\<lparr>mv_X = 0, mv_Y = 0, mv_Z = 0, mv_Yaw = 0, mv_Pitch = 0, mv_OnGround = True, mv_HasLook = False\<rparr>]"
    using sample_frames_parse(3) by (auto simp: player_moves_def movement_frame_def split: res.splits)
  obtain moves cmds where m: "ReplayPayloads replay = moves @ cmds"
    "map DecodeMovement moves = map Ok (whole_movement (player_moves [sample_move, sample_sprint]))"
    "map ParsePlayerCommand cmds = map ParsePlayerCommand [sample_sprint]"
    using barrier_frames_replayed [OF r, unfolded frames command] by (elim exE conjE)
  have "length moves = 1" using arg_cong [OF m(2), of length] unfolding moved by (simp add: whole_movement_def)
  moreover have "map ParsePlayerCommand cmds = [Ok \<lparr>EntityID = 1, ActionID = 3, CommandData = 0\<rparr>]"
    unfolding m(3) list.map sample_frames_parse(4) ..
  ultimately show ?thesis using m(1) by (intro exI conjI)
qed

end
