(* ===== verification/Settings.thy ===== *)
theory Settings
  imports Frame BotFilter
begin

text \<open>
  The settings of the gateway, \<open>internal/app/config.go\<close>: what \<open>loadConfig\<close> makes of the
  environment. The parsers of the standard library it calls, \<open>strconv.Atoi\<close>, \<open>ParseUint\<close>,
  \<open>ParseBool\<close> and \<open>time.ParseDuration\<close>, are modelled here; the one float64 expression of the
  last is a parameter.

  The theorem shows which configurations can be loaded: exactly the valid ones.
\<close>

section \<open>Definitions\<close>

subsection \<open>Numbers and booleans\<close>

text \<open>A \<open>*NumError\<close> wraps the reason; the quoted input in its text is left out.\<close>

definition num_error :: "string \<Rightarrow> string \<Rightarrow> err" where
  "num_error fn reason = ErrWrap (''strconv.'' @ fn) (ErrText reason)"

definition is_digit :: "char \<Rightarrow> bool" where
  "is_digit c \<longleftrightarrow> (48 :: nat) \<le> of_char c \<and> (of_char c :: nat) \<le> 57"

definition digit_value :: "char \<Rightarrow> nat" where
  "digit_value c = of_char c - 48"

text \<open>The loop of \<open>ParseUint\<close> in base ten, from the number read so far.\<close>

fun ParseUint_loop :: "string \<Rightarrow> nat \<Rightarrow> nat \<Rightarrow> string \<Rightarrow> nat res" where
  "ParseUint_loop fn maxVal n [] = Ok n"
| "ParseUint_loop fn maxVal n (c # s) =
     (if \<not> is_digit c then Fail (num_error fn ''invalid syntax'')
      else if n * 10 + digit_value c > maxVal then Fail (num_error fn ''value out of range'')
      else ParseUint_loop fn maxVal (n * 10 + digit_value c) s)"

definition ParseUint :: "string \<Rightarrow> nat \<Rightarrow> nat res" where
  "ParseUint s bitSize =
     (if s = '''' then Fail (num_error ''ParseUint'' ''invalid syntax'')
      else ParseUint_loop ''ParseUint'' (2 ^ bitSize - 1) 0 s)"

text \<open>\<open>int\<close> has 64 bits.\<close>

definition Atoi :: "string \<Rightarrow> int res" where
  "Atoi s =
     (let (neg, digits) = (case s of
          [] \<Rightarrow> (False, [])
        | c # rest \<Rightarrow> if c = CHR ''-'' then (True, rest) else if c = CHR ''+'' then (False, rest) else (False, s)) in
      if digits = '''' then Fail (num_error ''Atoi'' ''invalid syntax'')
      else rbind (ParseUint_loop ''Atoi'' (2 ^ 64 - 1) 0 digits) (\<lambda>n.
           if \<not> neg \<and> n \<ge> 2 ^ 63 \<or> neg \<and> n > 2 ^ 63 then Fail (num_error ''Atoi'' ''value out of range'')
           else Ok (if neg then - int n else int n)))"

definition ParseBool :: "string \<Rightarrow> bool res" where
  "ParseBool s =
     (if s \<in> {''1'', ''t'', ''T'', ''true'', ''TRUE'', ''True''} then Ok True
      else if s \<in> {''0'', ''f'', ''F'', ''false'', ''FALSE'', ''False''} then Ok False
      else Fail (num_error ''ParseBool'' ''invalid syntax''))"

subsection \<open>Durations\<close>

definition unitMap :: "string \<Rightarrow> nat option" where
  "unitMap u =
     (if u = ''ns'' then Some 1
      else if u = ''us'' \<or> u = [CHR 0xC2, CHR 0xB5, CHR ''s''] \<or> u = [CHR 0xCE, CHR 0xBC, CHR ''s''] then Some 1000
      else if u = ''ms'' then Some 1000000
      else if u = ''s'' then Some 1000000000
      else if u = ''m'' then Some 60000000000
      else if u = ''h'' then Some 3600000000000
      else None)"

fun leadingInt :: "nat \<Rightarrow> string \<Rightarrow> (nat \<times> string) option" where
  "leadingInt x [] = Some (x, [])"
| "leadingInt x (c # s) =
     (if \<not> is_digit c then Some (x, c # s)
      else if x > 2 ^ 63 div 10 then None
      else if x * 10 + digit_value c > 2 ^ 63 then None
      else leadingInt (x * 10 + digit_value c) s)"

text \<open>The digits after the point: the number, the power of ten under it, and the rest.\<close>

fun leadingFraction :: "bool \<Rightarrow> nat \<Rightarrow> nat \<Rightarrow> string \<Rightarrow> nat \<times> nat \<times> string" where
  "leadingFraction overflow x scale [] = (x, scale, [])"
| "leadingFraction overflow x scale (c # s) =
     (if \<not> is_digit c then (x, scale, c # s)
      else if overflow \<or> x > (2 ^ 63 - 1) div 10 \<or> x * 10 + digit_value c > 2 ^ 63 then leadingFraction True x scale s
      else leadingFraction False (x * 10 + digit_value c) (scale * 10) s)"

lemma leadingInt_shorter: "leadingInt x s = Some (v, rest) \<Longrightarrow> length rest \<le> length s"
  by (induction x s rule: leadingInt.induct) (auto split: if_splits)

lemma leadingFraction_shorter: "leadingFraction b x k s = (f, scale, rest) \<Longrightarrow> length rest \<le> length s"
  by (induction b x k s rule: leadingFraction.induct) (auto split: if_splits)

definition duration_error :: err where
  "duration_error = ErrText ''time: invalid duration''"

text \<open>
  One round of the loop: a number, an optional fraction and a unit. The result is the number of
  nanoseconds, a \<open>uint64\<close>, and the rest of the text. \<open>fraction f unit scale\<close> stands for
  \<open>uint64(float64(f) * (float64(unit) / scale))\<close>.
\<close>

definition duration_part :: "(nat \<Rightarrow> nat \<Rightarrow> nat \<Rightarrow> nat) \<Rightarrow> string \<Rightarrow> (nat \<times> string) res" where
  "duration_part fraction s =
     (case s of
        [] \<Rightarrow> Panic
      | c # _ \<Rightarrow>
          if \<not> (c = CHR ''.'' \<or> is_digit c) then Fail duration_error
          else
            (case leadingInt 0 s of
               None \<Rightarrow> Fail duration_error
             | Some (v, s1) \<Rightarrow>
                 (let pre = (length s \<noteq> length s1);
                      (f, scale, s2) = (case s1 of
                          [] \<Rightarrow> (0, 1, s1)
                        | d # rest \<Rightarrow> if d = CHR ''.'' then leadingFraction False 0 1 rest else (0, 1, s1));
                      post = (case s1 of [] \<Rightarrow> False | d # rest \<Rightarrow> d = CHR ''.'' \<and> length rest \<noteq> length s2) in
                  if \<not> pre \<and> \<not> post then Fail duration_error
                  else
                    (let u = takeWhile (\<lambda>d. \<not> (d = CHR ''.'' \<or> is_digit d)) s2; s3 = drop (length u) s2 in
                     if u = [] then Fail (ErrText ''time: missing unit in duration'')
                     else
                       (case unitMap u of
                          None \<Rightarrow> Fail (ErrText ''time: unknown unit in duration'')
                        | Some unit \<Rightarrow>
                            if v > 2 ^ 63 div unit then Fail duration_error
                            else if f > 0 then
                              (let v = (v * unit + fraction f unit scale) mod 2 ^ 64 in
                               if v > 2 ^ 63 then Fail duration_error else Ok (v, s3))
                            else Ok (v * unit, s3))))))"

lemma duration_part_shorter:
  assumes "duration_part fraction s = Ok (v, rest)" shows "length rest < length s"
proof -
  obtain c s' where s: "s = c # s'" using assms by (cases s) (auto simp: duration_part_def)
  obtain n s1 where s1: "leadingInt 0 s = Some (n, s1)"
    using assms by (auto simp: duration_part_def s split: if_splits option.splits)
  obtain f scale s2 where s2: "(case s1 of [] \<Rightarrow> (0, 1, s1)
      | d # rest \<Rightarrow> if d = CHR ''.'' then leadingFraction False 0 1 rest else (0, 1, s1)) = (f, scale, s2)"
    using prod_cases3 by blast
  define u where "u = takeWhile (\<lambda>d. \<not> (d = CHR ''.'' \<or> is_digit d)) s2"
  have len: "length s2 \<le> length s"
    using s2 leadingInt_shorter [OF s1] by (cases s1) (auto split: if_splits dest: leadingFraction_shorter)
  have "u \<noteq> [] \<and> rest = drop (length u) s2"
    using assms unfolding duration_part_def s list.case s1 [unfolded s] option.case prod.case s2 Let_def u_def [symmetric]
    by (auto split: if_splits option.splits)
  moreover have "length u \<le> length s2" unfolding u_def by (rule length_takeWhile_le)
  moreover have "s2 \<noteq> []" if "u \<noteq> []" using that u_def by auto
  ultimately show ?thesis using len by (cases u) auto
qed

function ParseDuration_loop :: "(nat \<Rightarrow> nat \<Rightarrow> nat \<Rightarrow> nat) \<Rightarrow> nat \<Rightarrow> string \<Rightarrow> nat res" where
  "ParseDuration_loop fraction d s =
     (if s = '''' then Ok d
      else
        (case duration_part fraction s of
           Fail e \<Rightarrow> Fail e
         | Panic \<Rightarrow> Panic
         | Ok (v, rest) \<Rightarrow>
             let d = (d + v) mod 2 ^ 64 in
             if d > 2 ^ 63 then Fail duration_error else ParseDuration_loop fraction d rest))"
  by pat_completeness auto
termination
  by (relation "measure (\<lambda>(fraction, d, s). length s)") (auto dest: duration_part_shorter)

declare ParseDuration_loop.simps [simp del]

definition ParseDuration :: "(nat \<Rightarrow> nat \<Rightarrow> nat \<Rightarrow> nat) \<Rightarrow> string \<Rightarrow> duration res" where
  "ParseDuration fraction s =
     (let (neg, s) = (case s of
          [] \<Rightarrow> (False, [])
        | c # rest \<Rightarrow> if c = CHR ''-'' then (True, rest) else if c = CHR ''+'' then (False, rest) else (False, s)) in
      if s = ''0'' then Ok 0
      else if s = '''' then Fail duration_error
      else rbind (ParseDuration_loop fraction 0 s) (\<lambda>d.
           if neg then Ok (- int d)
           else if d > 2 ^ 63 - 1 then Fail duration_error
           else Ok (int d)))"

subsection \<open>The configuration\<close>

record Config =
  cfg_ListenAddress :: string
  cfg_HealthAddress :: string
  cfg_PprofAddress :: string
  cfg_AdminToken :: string
  cfg_BackendAddress :: string
  cfg_BackendHost :: string
  cfg_BackendPort :: uint16
  cfg_VelocitySecret :: string
  cfg_OnlineMode :: bool
  cfg_SessionServerURL :: string
  cfg_MaxConnections :: int
  cfg_MaxConnectionsPerIP :: int
  cfg_MaxPacketSize :: int
  cfg_HandshakeTimeout :: duration
  cfg_StatusTimeout :: duration
  cfg_LoginTimeout :: duration
  cfg_WriteTimeout :: duration
  cfg_KeepAliveInterval :: duration
  cfg_KeepAliveTimeout :: duration
  cfg_QueueSize :: int
  cfg_AdmissionInterval :: duration
  cfg_QueueStatusInterval :: duration
  cfg_ChallengeTimeout :: duration
  cfg_LoginRateLimit :: int
  cfg_LoginRateWindow :: duration
  cfg_BotFilterConfigFile :: string

definition valueOr :: "string \<Rightarrow> string \<Rightarrow> string" where
  "valueOr val fallback = (if val = '''' then fallback else val)"

definition intValue :: "string \<Rightarrow> int \<Rightarrow> int res" where
  "intValue val fallback = (if val = '''' then Ok fallback else Atoi val)"

definition uint16Value :: "string \<Rightarrow> uint16 \<Rightarrow> uint16 res" where
  "uint16Value val fallback =
     (if val = '''' then Ok fallback else rbind (ParseUint val 16) (\<lambda>parsed. Ok (of_nat parsed)))"

text \<open>A setting that must be a positive number, and one that must be a positive duration if it is given.\<close>

definition positive_setting :: "(string \<Rightarrow> string) \<Rightarrow> string \<Rightarrow> int \<Rightarrow> int res" where
  "positive_setting getenv name current =
     (case intValue (getenv name) current of
        Ok n \<Rightarrow> if n \<le> 0 then Fail (ErrText (name @ '' must be positive'')) else Ok n
      | Fail _ \<Rightarrow> Fail (ErrText (name @ '' must be positive''))
      | Panic \<Rightarrow> Panic)"

definition duration_setting ::
    "(nat \<Rightarrow> nat \<Rightarrow> nat \<Rightarrow> nat) \<Rightarrow> (string \<Rightarrow> string) \<Rightarrow> string \<Rightarrow> duration \<Rightarrow> duration res" where
  "duration_setting fraction getenv name current =
     (if getenv name = '''' then Ok current
      else
        (case ParseDuration fraction (getenv name) of
           Ok d \<Rightarrow> if d \<le> 0 then Fail (ErrText (name @ '' must be a positive duration'')) else Ok d
         | Fail _ \<Rightarrow> Fail (ErrText (name @ '' must be a positive duration''))
         | Panic \<Rightarrow> Panic))"

definition initial_config :: "(string \<Rightarrow> string) \<Rightarrow> Config" where
  "initial_config getenv =
     \<lparr>cfg_ListenAddress = valueOr (getenv ''REGIONGATE_LISTEN'') '':25565'',
      cfg_HealthAddress = valueOr (getenv ''REGIONGATE_HEALTH_LISTEN'') ''127.0.0.1:8080'',
      cfg_PprofAddress = getenv ''REGIONGATE_PPROF_LISTEN'',
      cfg_AdminToken = getenv ''REGIONGATE_ADMIN_TOKEN'',
      cfg_BackendAddress = getenv ''REGIONGATE_BACKEND_ADDRESS'',
      cfg_BackendHost = valueOr (getenv ''REGIONGATE_BACKEND_HOST'') ''localhost'',
      cfg_BackendPort = 25565,
      cfg_VelocitySecret = getenv ''REGIONGATE_VELOCITY_SECRET'',
      cfg_OnlineMode = False,
      cfg_SessionServerURL = getenv ''REGIONGATE_SESSION_SERVER_URL'',
      cfg_MaxConnections = 10000,
      cfg_MaxConnectionsPerIP = 16,
      cfg_MaxPacketSize = DefaultMaxPacketSize,
      cfg_HandshakeTimeout = seconds 10,
      cfg_StatusTimeout = seconds 10,
      cfg_LoginTimeout = seconds 30,
      cfg_WriteTimeout = seconds 10,
      cfg_KeepAliveInterval = seconds 15,
      cfg_KeepAliveTimeout = seconds 30,
      cfg_QueueSize = 1024,
      cfg_AdmissionInterval = seconds 1,
      cfg_QueueStatusInterval = seconds 1,
      cfg_ChallengeTimeout = seconds 10,
      cfg_LoginRateLimit = 10,
      cfg_LoginRateWindow = seconds 10,
      cfg_BotFilterConfigFile = getenv ''REGIONGATE_CONFIG_FILE''\<rparr>"

text \<open>The table of the loop over durations: a pointer into the configuration is how to read and how to write it.\<close>

definition duration_settings :: "(string \<times> (Config \<Rightarrow> duration) \<times> (duration \<Rightarrow> Config \<Rightarrow> Config)) list" where
  "duration_settings =
     [(''REGIONGATE_HANDSHAKE_TIMEOUT'', cfg_HandshakeTimeout, \<lambda>d c. c\<lparr>cfg_HandshakeTimeout := d\<rparr>),
      (''REGIONGATE_STATUS_TIMEOUT'', cfg_StatusTimeout, \<lambda>d c. c\<lparr>cfg_StatusTimeout := d\<rparr>),
      (''REGIONGATE_LOGIN_TIMEOUT'', cfg_LoginTimeout, \<lambda>d c. c\<lparr>cfg_LoginTimeout := d\<rparr>),
      (''REGIONGATE_WRITE_TIMEOUT'', cfg_WriteTimeout, \<lambda>d c. c\<lparr>cfg_WriteTimeout := d\<rparr>),
      (''REGIONGATE_KEEPALIVE_INTERVAL'', cfg_KeepAliveInterval, \<lambda>d c. c\<lparr>cfg_KeepAliveInterval := d\<rparr>),
      (''REGIONGATE_KEEPALIVE_TIMEOUT'', cfg_KeepAliveTimeout, \<lambda>d c. c\<lparr>cfg_KeepAliveTimeout := d\<rparr>),
      (''REGIONGATE_QUEUE_STATUS_INTERVAL'', cfg_QueueStatusInterval, \<lambda>d c. c\<lparr>cfg_QueueStatusInterval := d\<rparr>),
      (''REGIONGATE_CHALLENGE_TIMEOUT'', cfg_ChallengeTimeout, \<lambda>d c. c\<lparr>cfg_ChallengeTimeout := d\<rparr>)]"

fun load_durations ::
    "(nat \<Rightarrow> nat \<Rightarrow> nat \<Rightarrow> nat) \<Rightarrow> (string \<Rightarrow> string) \<Rightarrow>
     (string \<times> (Config \<Rightarrow> duration) \<times> (duration \<Rightarrow> Config \<Rightarrow> Config)) list \<Rightarrow> Config \<Rightarrow> Config res" where
  "load_durations fraction getenv [] config = Ok config"
| "load_durations fraction getenv ((name, get, put) # rest) config =
     rbind (duration_setting fraction getenv name (get config)) (\<lambda>d.
     load_durations fraction getenv rest (put d config))"

definition online_mode :: "string \<Rightarrow> bool res" where
  "online_mode val =
     (if val = '''' then Ok False
      else or_fail (ParseBool val) (ErrText ''REGIONGATE_ONLINE_MODE must be a boolean''))"

definition loadConfig :: "(nat \<Rightarrow> nat \<Rightarrow> nat \<Rightarrow> nat) \<Rightarrow> (string \<Rightarrow> string) \<Rightarrow> Config res" where
  "loadConfig fraction getenv =
     (let config = initial_config getenv in
      if cfg_AdminToken config \<noteq> '''' \<and> length (cfg_AdminToken config) < 32
      then Fail (ErrText ''REGIONGATE_ADMIN_TOKEN must contain at least 32 bytes'')
      else
      rbind (online_mode (getenv ''REGIONGATE_ONLINE_MODE'')) (\<lambda>b.
      let config = config\<lparr>cfg_OnlineMode := b\<rparr> in
      rbind (uint16Value (getenv ''REGIONGATE_BACKEND_PORT'') (cfg_BackendPort config)) (\<lambda>n.
      let config = config\<lparr>cfg_BackendPort := n\<rparr> in
      rbind (positive_setting getenv ''REGIONGATE_MAX_CONNECTIONS'' (cfg_MaxConnections config)) (\<lambda>n.
      let config = config\<lparr>cfg_MaxConnections := n\<rparr> in
      rbind (positive_setting getenv ''REGIONGATE_MAX_CONNECTIONS_PER_IP'' (cfg_MaxConnectionsPerIP config)) (\<lambda>n.
      let config = config\<lparr>cfg_MaxConnectionsPerIP := n\<rparr> in
      rbind (positive_setting getenv ''REGIONGATE_MAX_PACKET_SIZE'' (cfg_MaxPacketSize config)) (\<lambda>n.
      let config = config\<lparr>cfg_MaxPacketSize := n\<rparr> in
      rbind (load_durations fraction getenv duration_settings config) (\<lambda>config.
      rbind (positive_setting getenv ''REGIONGATE_QUEUE_SIZE'' (cfg_QueueSize config)) (\<lambda>n.
      let config = config\<lparr>cfg_QueueSize := n\<rparr> in
      rbind (duration_setting fraction getenv ''REGIONGATE_ADMISSION_INTERVAL'' (cfg_AdmissionInterval config)) (\<lambda>d.
      let config = config\<lparr>cfg_AdmissionInterval := d\<rparr> in
      rbind (positive_setting getenv ''REGIONGATE_LOGIN_RATE_LIMIT'' (cfg_LoginRateLimit config)) (\<lambda>n.
      let config = config\<lparr>cfg_LoginRateLimit := n\<rparr> in
      rbind (duration_setting fraction getenv ''REGIONGATE_LOGIN_RATE_WINDOW'' (cfg_LoginRateWindow config)) (\<lambda>d.
      let config = config\<lparr>cfg_LoginRateWindow := d\<rparr> in
      if (cfg_BackendAddress config = '''') \<noteq> (cfg_VelocitySecret config = '''')
      then Fail (ErrText ''backend address and Velocity secret must be configured together'')
      else Ok config)))))))))))"

section \<open>What the parsers accept\<close>

lemma of_char_char_of_digit: "n < 10 \<Longrightarrow> of_char (char_of (48 + n :: nat) :: char) = 48 + n"
  by simp

lemma digit_char [simp]:
  "n < 10 \<Longrightarrow> is_digit (char_of (48 + n :: nat))" "n < 10 \<Longrightarrow> digit_value (char_of (48 + n)) = n"
  by (simp_all add: is_digit_def digit_value_def)

text \<open>A printed number is read back, from any number read before, as long as it stays within the bound.\<close>

lemma show_nat_last: "\<not> n < 10 \<Longrightarrow> show_nat n = show_nat (n div 10) @ [char_of (48 + n mod 10)]"
  by (subst show_nat.simps) simp

lemma show_nat_digit: "n < 10 \<Longrightarrow> show_nat n = [char_of (48 + n)]"
  by (subst show_nat.simps) simp

lemma ParseUint_loop_append:
  "ParseUint_loop fn k n (s @ t) = rbind (ParseUint_loop fn k n s) (\<lambda>m. ParseUint_loop fn k m t)"
  by (induction fn k n s rule: ParseUint_loop.induct) auto

lemma ParseUint_loop_show_nat: "n \<le> k \<Longrightarrow> ParseUint_loop fn k 0 (show_nat n) = Ok n"
proof (induction n rule: show_nat.induct)
  case (1 n)
  show ?case
  proof (cases "n < 10")
    case True
    then show ?thesis using 1(2) by (simp add: show_nat_digit)
  next
    case False
    have "n div 10 \<le> k" using 1(2) div_le_dividend [of n 10] by linarith
    then show ?thesis using 1(1) [OF False] 1(2) False
      by (simp add: show_nat_last [OF False] ParseUint_loop_append)
  qed
qed

lemma leadingInt_append:
  assumes "leadingInt x s = Some (v, [])"
  shows "leadingInt x (s @ t) = leadingInt v t"
  using assms by (induction x s rule: leadingInt.induct) (auto split: if_splits)

lemma leadingInt_show_nat: "n \<le> 2 ^ 63 \<Longrightarrow> leadingInt 0 (show_nat n) = Some (n, [])"
proof (induction n rule: show_nat.induct)
  case (1 n)
  show ?case
  proof (cases "n < 10")
    case True
    then show ?thesis by (simp add: show_nat_digit)
  next
    case False
    have "n div 10 \<le> 2 ^ 63 div 10" using 1(2) by (rule div_le_mono)
    then show ?thesis using 1(1) [OF False] 1(2) False
      by (simp add: show_nat_last [OF False] leadingInt_append)
  qed
qed

lemma show_nat_front: "\<exists>c s. show_nat n = c # s \<and> is_digit c"
proof (induction n rule: show_nat.induct)
  case (1 n)
  show ?case using 1 by (cases "n < 10") (auto simp: show_nat_digit show_nat_last)
qed

lemma not_digit [simp]: "\<not> is_digit CHR ''-''" "\<not> is_digit CHR ''+''" "\<not> is_digit CHR ''.''" "\<not> is_digit CHR ''n''" "\<not> is_digit CHR ''s''"
  by (simp_all add: is_digit_def)

lemma Atoi_show_nat:
  assumes "n < 2 ^ 63" shows "Atoi (show_nat n) = Ok (int n)"
proof -
  obtain c s where f: "show_nat n = c # s" "is_digit c" using show_nat_front by blast
  have "ParseUint_loop ''Atoi'' (2 ^ 64 - 1) 0 (c # s) = Ok n"
    using ParseUint_loop_show_nat [of n "2 ^ 64 - 1" "''Atoi''"] assms f(1) by simp
  moreover have "c \<noteq> CHR ''-''" "c \<noteq> CHR ''+''" using f(2) by auto
  ultimately show ?thesis using assms f(1) by (simp add: Atoi_def del: ParseUint_loop.simps)
qed

lemma ParseUint_show_nat: "n < 2 ^ k \<Longrightarrow> ParseUint (show_nat n) k = Ok n"
  using show_nat_front [of n] by (auto simp: ParseUint_def ParseUint_loop_show_nat)

lemma duration_part_show_nat:
  assumes "n \<le> 2 ^ 63" shows "duration_part fraction (show_nat n @ ''ns'') = Ok (n, [])"
proof -
  obtain c s where f: "show_nat n = c # s" "is_digit c" using show_nat_front by blast
  have i: "leadingInt 0 (show_nat n @ ''ns'') = Some (n, ''ns'')"
    using leadingInt_append [OF leadingInt_show_nat [OF assms]] by simp
  show ?thesis using assms f i by (simp add: duration_part_def unitMap_def)
qed

lemma ParseDuration_show_nat:
  assumes "n < 2 ^ 63" shows "ParseDuration fraction (show_nat n @ ''ns'') = Ok (int n)"
proof -
  obtain c s where f: "show_nat n = c # s" "is_digit c" using show_nat_front by blast
  have "ParseDuration_loop fraction 0 (show_nat n @ ''ns'') = Ok n"
    using assms duration_part_show_nat [of n fraction] f(1)
    by (subst ParseDuration_loop.simps) (simp add: ParseDuration_loop.simps [of _ _ "[]"])
  then show ?thesis using assms f by (auto simp: ParseDuration_def)
qed

section \<open>Valid configurations\<close>

text \<open>A positive 64-bit integer.\<close>

definition positive64 :: "int \<Rightarrow> bool" where
  "positive64 n \<longleftrightarrow> 0 < n \<and> n < 2 ^ 63"

definition valid_config :: "Config \<Rightarrow> bool" where
  "valid_config c \<longleftrightarrow>
     cfg_ListenAddress c \<noteq> '''' \<and> cfg_HealthAddress c \<noteq> '''' \<and> cfg_BackendHost c \<noteq> '''' \<and>
     (cfg_AdminToken c = '''' \<or> 32 \<le> length (cfg_AdminToken c)) \<and>
     (cfg_BackendAddress c = '''' \<longleftrightarrow> cfg_VelocitySecret c = '''') \<and>
     positive64 (cfg_MaxConnections c) \<and> positive64 (cfg_MaxConnectionsPerIP c) \<and> positive64 (cfg_MaxPacketSize c) \<and>
     positive64 (cfg_HandshakeTimeout c) \<and> positive64 (cfg_StatusTimeout c) \<and> positive64 (cfg_LoginTimeout c) \<and>
     positive64 (cfg_WriteTimeout c) \<and> positive64 (cfg_KeepAliveInterval c) \<and> positive64 (cfg_KeepAliveTimeout c) \<and>
     positive64 (cfg_QueueSize c) \<and> positive64 (cfg_AdmissionInterval c) \<and> positive64 (cfg_QueueStatusInterval c) \<and>
     positive64 (cfg_ChallengeTimeout c) \<and> positive64 (cfg_LoginRateLimit c) \<and> positive64 (cfg_LoginRateWindow c)"

lemma Atoi_range: "Atoi s = Ok n \<Longrightarrow> n < 2 ^ 63"
  by (auto simp: Atoi_def res_iff Let_def split: if_splits list.splits prod.splits)

lemma ParseDuration_range: "ParseDuration fraction s = Ok d \<Longrightarrow> d < 2 ^ 63"
  by (auto simp: ParseDuration_def res_iff Let_def split: if_splits list.splits prod.splits)

lemma positive_setting_range: "positive_setting getenv name k = Ok n \<Longrightarrow> k < 2 ^ 63 \<Longrightarrow> positive64 n"
  by (auto simp: positive_setting_def intValue_def positive64_def dest: Atoi_range split: if_splits res.splits)

lemma duration_setting_range: "duration_setting fraction getenv name k = Ok d \<Longrightarrow> positive64 k \<Longrightarrow> positive64 d"
  by (auto simp: duration_setting_def positive64_def dest: ParseDuration_range split: if_splits res.splits)

lemma default_settings [simp]:
  "positive64 (seconds 1)" "positive64 (seconds 10)" "positive64 (seconds 15)" "positive64 (seconds 30)"
  "DefaultMaxPacketSize < 2 ^ 63"
  by (simp_all add: positive64_def seconds_def DefaultMaxPacketSize_def)

lemma valueOr_neq [simp]: "fallback \<noteq> '''' \<Longrightarrow> valueOr v fallback \<noteq> ''''" "v \<noteq> '''' \<Longrightarrow> valueOr v fallback = v"
  by (simp_all add: valueOr_def)

lemma rbind_OkE: "rbind m f = Ok y \<Longrightarrow> (\<And>x. m = Ok x \<Longrightarrow> f x = Ok y \<Longrightarrow> P) \<Longrightarrow> P"
  by (cases m) auto

lemma if_Fail_OkE: "(if b then Fail e else m) = Ok y \<Longrightarrow> (\<not> b \<Longrightarrow> m = Ok y \<Longrightarrow> P) \<Longrightarrow> P"
  by (cases b) auto

lemma loadConfig_valid: "loadConfig fraction getenv = Ok c \<Longrightarrow> valid_config c"
  unfolding loadConfig_def Let_def duration_settings_def load_durations.simps
  apply (elim if_Fail_OkE rbind_OkE)
  apply (simp add: initial_config_def)
  apply hypsubst_thin
  apply (simp add: valid_config_def not_less disj_commute imp_conv_disj)
  apply (intro conjI; (assumption | (erule positive_setting_range duration_setting_range, simp add: DefaultMaxPacketSize_def)))
  done

text \<open>The environment that holds the settings of a configuration.\<close>

definition config_env :: "Config \<Rightarrow> string \<Rightarrow> string" where
  "config_env c name =
     (let number = (\<lambda>n. show_nat (nat n)); span = (\<lambda>d. show_nat (nat d) @ ''ns'') in
      case map_of
       [(''LISTEN'', cfg_ListenAddress c), (''HEALTH_LISTEN'', cfg_HealthAddress c), (''PPROF_LISTEN'', cfg_PprofAddress c),
        (''ADMIN_TOKEN'', cfg_AdminToken c), (''BACKEND_ADDRESS'', cfg_BackendAddress c), (''BACKEND_HOST'', cfg_BackendHost c),
        (''BACKEND_PORT'', show_nat (unat (cfg_BackendPort c))), (''VELOCITY_SECRET'', cfg_VelocitySecret c),
        (''ONLINE_MODE'', if cfg_OnlineMode c then ''true'' else ''false''), (''SESSION_SERVER_URL'', cfg_SessionServerURL c),
        (''MAX_CONNECTIONS'', number (cfg_MaxConnections c)), (''MAX_CONNECTIONS_PER_IP'', number (cfg_MaxConnectionsPerIP c)),
        (''MAX_PACKET_SIZE'', number (cfg_MaxPacketSize c)), (''HANDSHAKE_TIMEOUT'', span (cfg_HandshakeTimeout c)),
        (''STATUS_TIMEOUT'', span (cfg_StatusTimeout c)), (''LOGIN_TIMEOUT'', span (cfg_LoginTimeout c)),
        (''WRITE_TIMEOUT'', span (cfg_WriteTimeout c)), (''KEEPALIVE_INTERVAL'', span (cfg_KeepAliveInterval c)),
        (''KEEPALIVE_TIMEOUT'', span (cfg_KeepAliveTimeout c)), (''QUEUE_SIZE'', number (cfg_QueueSize c)),
        (''ADMISSION_INTERVAL'', span (cfg_AdmissionInterval c)), (''QUEUE_STATUS_INTERVAL'', span (cfg_QueueStatusInterval c)),
        (''CHALLENGE_TIMEOUT'', span (cfg_ChallengeTimeout c)), (''LOGIN_RATE_LIMIT'', number (cfg_LoginRateLimit c)),
        (''LOGIN_RATE_WINDOW'', span (cfg_LoginRateWindow c)), (''CONFIG_FILE'', cfg_BotFilterConfigFile c)]
       (drop (length ''REGIONGATE_'') name) of
        None \<Rightarrow> '''' | Some v \<Rightarrow> v)"

lemma show_nat_neq [simp]: "show_nat n \<noteq> ''''"
  using show_nat_front [of n] by auto

lemma positive_setting_printed:
  assumes "getenv name = show_nat (nat n)" "positive64 n" shows "positive_setting getenv name k = Ok n"
  using assms Atoi_show_nat [of "nat n"] nat_less_iff [of n "2 ^ 63"] by (simp add: positive_setting_def intValue_def positive64_def)

lemma duration_setting_printed:
  assumes "getenv name = show_nat (nat d) @ ''ns''" "positive64 d" shows "duration_setting fraction getenv name k = Ok d"
  using assms ParseDuration_show_nat [of "nat d" fraction] nat_less_iff [of d "2 ^ 63"] by (simp add: duration_setting_def positive64_def)

lemma uint16Value_printed: "uint16Value (show_nat (unat n)) k = Ok n"
  using ParseUint_show_nat [of "unat n" 16] unsigned_less [of n, where ?'a = nat] by (simp add: uint16Value_def)

lemma online_mode_printed: "online_mode (if b then ''true'' else ''false'') = Ok b"
  by (simp add: online_mode_def ParseBool_def)

lemma config_env_texts:
  "config_env c ''REGIONGATE_LISTEN'' = cfg_ListenAddress c"
  "config_env c ''REGIONGATE_HEALTH_LISTEN'' = cfg_HealthAddress c"
  "config_env c ''REGIONGATE_PPROF_LISTEN'' = cfg_PprofAddress c"
  "config_env c ''REGIONGATE_ADMIN_TOKEN'' = cfg_AdminToken c"
  "config_env c ''REGIONGATE_BACKEND_ADDRESS'' = cfg_BackendAddress c"
  "config_env c ''REGIONGATE_BACKEND_HOST'' = cfg_BackendHost c"
  "config_env c ''REGIONGATE_BACKEND_PORT'' = show_nat (unat (cfg_BackendPort c))"
  "config_env c ''REGIONGATE_VELOCITY_SECRET'' = cfg_VelocitySecret c"
  "config_env c ''REGIONGATE_ONLINE_MODE'' = (if cfg_OnlineMode c then ''true'' else ''false'')"
  "config_env c ''REGIONGATE_SESSION_SERVER_URL'' = cfg_SessionServerURL c"
  "config_env c ''REGIONGATE_CONFIG_FILE'' = cfg_BotFilterConfigFile c"
  by (simp_all add: config_env_def)

lemma config_env_numbers:
  assumes "valid_config c"
  shows
    "positive_setting (config_env c) ''REGIONGATE_MAX_CONNECTIONS'' k = Ok (cfg_MaxConnections c)"
    "positive_setting (config_env c) ''REGIONGATE_MAX_CONNECTIONS_PER_IP'' k = Ok (cfg_MaxConnectionsPerIP c)"
    "positive_setting (config_env c) ''REGIONGATE_MAX_PACKET_SIZE'' k = Ok (cfg_MaxPacketSize c)"
    "positive_setting (config_env c) ''REGIONGATE_QUEUE_SIZE'' k = Ok (cfg_QueueSize c)"
    "positive_setting (config_env c) ''REGIONGATE_LOGIN_RATE_LIMIT'' k = Ok (cfg_LoginRateLimit c)"
  using assms by (simp_all add: valid_config_def positive_setting_printed config_env_def)

lemma config_env_durations:
  assumes "valid_config c"
  shows
    "duration_setting fraction (config_env c) ''REGIONGATE_HANDSHAKE_TIMEOUT'' k = Ok (cfg_HandshakeTimeout c)"
    "duration_setting fraction (config_env c) ''REGIONGATE_STATUS_TIMEOUT'' k = Ok (cfg_StatusTimeout c)"
    "duration_setting fraction (config_env c) ''REGIONGATE_LOGIN_TIMEOUT'' k = Ok (cfg_LoginTimeout c)"
    "duration_setting fraction (config_env c) ''REGIONGATE_WRITE_TIMEOUT'' k = Ok (cfg_WriteTimeout c)"
    "duration_setting fraction (config_env c) ''REGIONGATE_KEEPALIVE_INTERVAL'' k = Ok (cfg_KeepAliveInterval c)"
    "duration_setting fraction (config_env c) ''REGIONGATE_KEEPALIVE_TIMEOUT'' k = Ok (cfg_KeepAliveTimeout c)"
    "duration_setting fraction (config_env c) ''REGIONGATE_ADMISSION_INTERVAL'' k = Ok (cfg_AdmissionInterval c)"
    "duration_setting fraction (config_env c) ''REGIONGATE_QUEUE_STATUS_INTERVAL'' k = Ok (cfg_QueueStatusInterval c)"
    "duration_setting fraction (config_env c) ''REGIONGATE_CHALLENGE_TIMEOUT'' k = Ok (cfg_ChallengeTimeout c)"
    "duration_setting fraction (config_env c) ''REGIONGATE_LOGIN_RATE_WINDOW'' k = Ok (cfg_LoginRateWindow c)"
  using assms by (simp_all add: valid_config_def duration_setting_printed config_env_def)

lemma loadConfig_printed:
  assumes "valid_config c" shows "loadConfig fraction (config_env c) = Ok c"
proof -
  have texts: "cfg_ListenAddress c \<noteq> ''''" "cfg_HealthAddress c \<noteq> ''''" "cfg_BackendHost c \<noteq> ''''"
    "cfg_AdminToken c = '''' \<or> 32 \<le> length (cfg_AdminToken c)" "cfg_BackendAddress c = '''' \<longleftrightarrow> cfg_VelocitySecret c = ''''"
    using assms by (simp_all add: valid_config_def)
  show ?thesis
    using texts unfolding loadConfig_def Let_def duration_settings_def load_durations.simps
    by (simp add: initial_config_def config_env_texts config_env_numbers [OF assms] config_env_durations [OF assms]
        uint16Value_printed online_mode_printed not_less del: if_split)
qed

section \<open>No panics\<close>

lemma ParseUint_loop_no_panic [simp, no_panic]: "ParseUint_loop fn k n s \<noteq> Panic"
  by (induction fn k n s rule: ParseUint_loop.induct) auto

lemma duration_part_no_panic: "s \<noteq> [] \<Longrightarrow> duration_part fraction s \<noteq> Panic"
  by (cases s) (simp_all add: duration_part_def Let_def split: option.split prod.split)

lemma ParseDuration_loop_no_panic [simp, no_panic]: "ParseDuration_loop fraction d s \<noteq> Panic"
proof (induction fraction d s rule: ParseDuration_loop.induct)
  case (1 fraction d s)
  then show ?case
    using duration_part_no_panic [of s fraction]
    by (subst ParseDuration_loop.simps) (auto simp: Let_def split: res.split)
qed

lemma parsers_no_panic [simp, no_panic]:
  "Atoi s \<noteq> Panic" "ParseDuration fraction s \<noteq> Panic" "ParseUint s k \<noteq> Panic" "ParseBool s \<noteq> Panic"
  by (auto simp: Atoi_def ParseDuration_def ParseUint_def ParseBool_def res_iff Let_def split: prod.splits if_splits)

lemma settings_no_panic [simp, no_panic]:
  "positive_setting getenv name k \<noteq> Panic" "duration_setting fraction getenv name k \<noteq> Panic"
  "uint16Value v n \<noteq> Panic" "online_mode v \<noteq> Panic"
  by (auto simp: positive_setting_def duration_setting_def intValue_def uint16Value_def online_mode_def res_iff split: res.splits if_splits)

lemma load_durations_no_panic [simp, no_panic]: "load_durations fraction getenv table c \<noteq> Panic"
  by (induction fraction getenv table c rule: load_durations.induct) (auto simp: res_iff)

lemma loadConfig_no_panic [simp, no_panic]: "loadConfig fraction getenv \<noteq> Panic"
  unfolding loadConfig_def Let_def by (simp add: res_iff)

lemma loadConfig_defaults: "loadConfig fraction (\<lambda>_. '''') = Ok (initial_config (\<lambda>_. ''''))"
  unfolding loadConfig_def Let_def duration_settings_def load_durations.simps
  by (simp add: initial_config_def positive_setting_def duration_setting_def intValue_def uint16Value_def online_mode_def
      DefaultMaxPacketSize_def)

section \<open>Properties\<close>

text \<open>
  C37: which settings the gateway can run with. Whatever the environment holds, loading it gives a
  configuration or an error; the configurations it gives are exactly the valid ones: non-empty addresses and
  backend host, limits and durations that are positive and fit 64 bits, an admin token that is
  empty or has at least 32 bytes, and a backend address exactly when there is a forwarding secret. With
  nothing set, the defaults are loaded.
\<close>

theorem loadable_configurations:
  "loadConfig fraction getenv \<noteq> Panic \<and> ((\<exists>getenv. loadConfig fraction getenv = Ok c) \<longleftrightarrow> valid_config c) \<and>
   loadConfig fraction (\<lambda>_. '''') = Ok (initial_config (\<lambda>_. ''''))"
  using loadConfig_valid loadConfig_printed loadConfig_defaults by (intro conjI iffI exI) (auto simp del: not_None_eq)

end
