(* ===== verification/App.thy ===== *)
theory App
  imports Limbo Settings
begin

text \<open>
  The application, \<open>internal/app/run.go\<close> and \<open>cmd/regiongate/main.go\<close>: how \<open>Run\<close> builds the
  components from the configuration, what it returns, and the HTTP endpoints for health,
  readiness, metrics and the administrator. The system (files, key generation, the listener) is a
  parameter; the profiling endpoint and the logger are left out.

  The theorems show that the gateway runs with the configured values, who may read the
  administrator's status, and what the coordinator that \<open>Run\<close> builds does with commands sent during a
  transfer.
\<close>

section \<open>Definitions\<close>

subsection \<open>Building the components\<close>

text \<open>
  \<open>os_IsNotExist\<close> recognises the errors of \<open>os_ReadFile\<close> for a missing file; \<open>session_service\<close> is
  \<open>SessionService.HasJoined\<close> with the network behind it; \<open>net_Listen\<close> gives the error, if any.
\<close>

record 'k app_env =
  os_ReadFile :: "string \<Rightarrow> bytes res"
  os_IsNotExist :: "err \<Rightarrow> bool"
  yaml_Unmarshal :: "bytes \<Rightarrow> Policy \<Rightarrow> Policy res"
  rsa_GenerateKey :: "nat \<Rightarrow> 'k res"
  x509_MarshalPKIXPublicKey :: "'k \<Rightarrow> bytes res"
  session_service :: "SessionService \<Rightarrow> Verifier"
  net_Listen :: "string \<Rightarrow> err option"

text \<open>
  The manager as a challenge hook. Its methods read the policy of the manager: \<open>manager_hook m\<close> is the hook
  while the manager is in the state \<open>m\<close>, and a reload that changes the state changes the hook with it.
\<close>

definition manager_hook :: "Manager \<Rightarrow> challenge_hook" where
  "manager_hook m =
     \<lparr>hook_RequiredKeepAlives = Some (\<lambda>_. Manager_RequiredKeepAlives m),
      hook_KeepAliveInterval = Some (\<lambda>_. Manager_KeepAliveInterval m)\<rparr>"

definition Run_bot_filter :: "'k app_env \<Rightarrow> Config \<Rightarrow> (Manager option \<times> challenge_hook option) res" where
  "Run_bot_filter env config =
     (if cfg_BotFilterConfigFile config \<noteq> '''' then
        (case LoadFile (os_ReadFile env) (yaml_Unmarshal env) (cfg_BotFilterConfigFile config) of
           Panic \<Rightarrow> Panic
         | Fail err \<Rightarrow> if os_IsNotExist env err then Ok (None, None) else Fail (ErrWrap ''load bot filter policy'' err)
         | Ok pol \<Rightarrow>
             let m = New_Manager pol (cfg_BotFilterConfigFile config) in
             Ok (Some m, if Enabled (p_BotFilter pol) then Some (manager_hook m) else None))
      else Ok (None, None))"

definition Run_authenticator :: "'k app_env \<Rightarrow> Config \<Rightarrow> 'k Authenticator option res" where
  "Run_authenticator env config =
     (if cfg_OnlineMode config then
        rbind (NewAuthenticator (rsa_GenerateKey env) (x509_MarshalPKIXPublicKey env) (session_service env \<lparr>URL = ''''\<rparr>)
                (Some (session_service env \<lparr>URL = cfg_SessionServerURL config\<rparr>))) (\<lambda>a. Ok (Some a))
      else Ok None)"

text \<open>\<open>transfer.Config{}\<close>\<close>

definition zero_transfer_config :: TransferConfig where
  "zero_transfer_config =
     \<lparr>tc_MaxPendingCommands = 0, tc_BarrierTimeout = 0, tc_Login = \<lparr>lc_Timeout = 0\<rparr>,
      tc_Configuration = \<lparr>cc_Timeout = 0, cc_MaxPackets = 0, cc_MaxBytes = 0\<rparr>\<rparr>"

definition Run_backend :: "Config \<Rightarrow> (Coordinator option \<times> ('q, 'f) FIFO option) res" where
  "Run_backend config =
     (if cfg_BackendAddress config \<noteq> '''' then
        rbind (NewModernForwarding (bytes_of (cfg_VelocitySecret config))) (\<lambda>forwarder.
        let dialer = NewDialer \<lparr>dc_Address = cfg_BackendAddress config, dc_Host = cfg_BackendHost config,
                                dc_Port = cfg_BackendPort config, dc_MaxPacketSize = cfg_MaxPacketSize config,
                                dc_ConnectTimeout = 0\<rparr> in
        Ok (Some (NewCoordinator (Some dialer) (Some forwarder) zero_transfer_config), Some (New_FIFO (cfg_QueueSize config))))
      else Ok (None, None))"

definition Run_server_config ::
    "Config \<Rightarrow> Coordinator option \<Rightarrow> ('q, 'f) FIFO option \<Rightarrow> 'k Authenticator option \<Rightarrow> Manager option \<Rightarrow>
     challenge_hook option \<Rightarrow> ('q, 'f, 'k) ServerConfig" where
  "Run_server_config config coordinator fifo onlineAuthenticator botManager challengeHook =
     \<lparr>sc_MaxConnections = cfg_MaxConnections config, sc_MaxConnectionsPerIP = cfg_MaxConnectionsPerIP config,
      sc_MaxPacketSize = cfg_MaxPacketSize config, sc_HandshakeTimeout = cfg_HandshakeTimeout config,
      sc_StatusTimeout = cfg_StatusTimeout config, sc_LoginTimeout = cfg_LoginTimeout config,
      sc_WriteTimeout = cfg_WriteTimeout config, sc_KeepAliveInterval = cfg_KeepAliveInterval config,
      sc_KeepAliveTimeout = cfg_KeepAliveTimeout config,
      sc_Status = \<lparr>sr_Version = \<lparr>sv_Name = ''1.20.4'', sv_Protocol = sint ProtocolVersion\<rparr>,
                   sr_Players = \<lparr>sp_Max = cfg_MaxConnections config, sp_Online = 0\<rparr>,
                   sr_Description = \<lparr>sd_Text = ''RegionGate''\<rparr>\<rparr>,
      sc_TransferCoordinator = coordinator, sc_AdmissionQueue = fifo,
      sc_QueueStatusInterval = cfg_QueueStatusInterval config, sc_LoginRateLimit = cfg_LoginRateLimit config,
      sc_LoginRateWindow = cfg_LoginRateWindow config, sc_ChallengeHook = challengeHook,
      sc_ChallengeTimeout = cfg_ChallengeTimeout config, sc_BotFilter = botManager,
      sc_OnlineAuthenticator = onlineAuthenticator\<rparr>"

text \<open>
  The configuration of the server, and the scheduler, which shares the server's queue. The
  filter's and the scheduler's goroutines are those of \<open>Start_tick\<close> and \<open>Scheduler_Run\<close>.
\<close>

definition Run_parts :: "'k app_env \<Rightarrow> Config \<Rightarrow> (('q, 'f, 'k) ServerConfig \<times> ('q, 'f) Scheduler option) res" where
  "Run_parts env config =
     rbind (Run_bot_filter env config) (\<lambda>(botManager, challengeHook).
     rbind (Run_authenticator env config) (\<lambda>onlineAuthenticator.
     rbind (Run_backend config) (\<lambda>(coordinator, fifo).
     Ok (Run_server_config config coordinator fifo onlineAuthenticator botManager challengeHook,
         case fifo of None \<Rightarrow> None | Some q \<Rightarrow> Some \<lparr>sch_Queue = Some q, Interval = cfg_AdmissionInterval config, OnResult = True\<rparr>))))"

subsection \<open>Running\<close>

text \<open>
  What the last \<open>select\<close> of \<open>Run\<close> receives. \<open>RunDone\<close> carries what \<open>Serve\<close> returned, which is
  received after it. The channel of the profiling server is nil unless it runs.
\<close>

datatype run_event = ServeEnded "err option" | HealthEnded err | PprofEnded err | RunDone "err option"

definition http_ErrServerClosed :: err where
  "http_ErrServerClosed = ErrText ''http: Server closed''"

definition Run_select :: "bool \<Rightarrow> run_event \<Rightarrow> err option" where
  "Run_select ctx_done event =
     (case event of
        ServeEnded err \<Rightarrow> err
      | HealthEnded err \<Rightarrow> if errors_Is err http_ErrServerClosed \<and> ctx_done then None else Some err
      | PprofEnded err \<Rightarrow> if errors_Is err http_ErrServerClosed \<and> ctx_done then None else Some err
      | RunDone err \<Rightarrow> err)"

definition Run :: "'k app_env \<Rightarrow> Config \<Rightarrow> bool \<Rightarrow> run_event \<Rightarrow> unit res" where
  "Run env config ctx_done event =
     rbind (Run_parts env config :: ((unit, unit, 'k) ServerConfig \<times> (unit, unit) Scheduler option) res) (\<lambda>_.
     case net_Listen env (cfg_ListenAddress config) of
       Some err \<Rightarrow> Fail err
     | None \<Rightarrow> (case Run_select ctx_done event of Some err \<Rightarrow> Fail err | None \<Rightarrow> Ok ()))"

text \<open>The exit status of the process; a panic ends it with status 2.\<close>

definition main_exit ::
    "(nat \<Rightarrow> nat \<Rightarrow> nat \<Rightarrow> nat) \<Rightarrow> (string \<Rightarrow> string) \<Rightarrow> 'k app_env \<Rightarrow> bool \<Rightarrow> run_event \<Rightarrow> nat" where
  "main_exit fraction getenv env ctx_done event =
     (case loadConfig fraction getenv of
        Panic \<Rightarrow> 2
      | Fail _ \<Rightarrow> 1
      | Ok config \<Rightarrow> (case Run env config ctx_done event of Panic \<Rightarrow> 2 | Fail _ \<Rightarrow> 1 | Ok _ \<Rightarrow> 0))"

subsection \<open>HTTP\<close>

text \<open>Bodies are JSON documents, with the keys in the order the encoder writes them, or text.\<close>

datatype json = JString string | JBool bool | JNumber int | JObject "(string \<times> json) list"

datatype body = NoBody | Text string | Json json

record http_request =
  rq_Method :: string
  rq_Path :: string
  rq_Authorization :: string

record http_reply =
  rs_Status :: nat
  rs_Headers :: "(string \<times> string) list"
  rs_Body :: body

definition http_NotFound :: http_reply where
  "http_NotFound = \<lparr>rs_Status = 404,
     rs_Headers = [(''Content-Type'', ''text/plain; charset=utf-8''), (''X-Content-Type-Options'', ''nosniff'')],
     rs_Body = Text (''404 page not found'' @ [CHR 0x0A])\<rparr>"

definition http_MethodNotAllowed :: http_reply where
  "http_MethodNotAllowed = \<lparr>rs_Status = 405,
     rs_Headers = [(''Allow'', ''GET, HEAD''), (''Content-Type'', ''text/plain; charset=utf-8''), (''X-Content-Type-Options'', ''nosniff'')],
     rs_Body = Text (''Method Not Allowed'' @ [CHR 0x0A])\<rparr>"

definition CutPrefix :: "string \<Rightarrow> string \<Rightarrow> string \<times> bool" where
  "CutPrefix s p = (if take (length p) s = p then (drop (length p) s, True) else (s, False))"

text \<open>\<open>subtle.ConstantTimeCompare\<close>: the differences of all bytes are collected before the answer.\<close>

definition ConstantTimeCompare :: "bytes \<Rightarrow> bytes \<Rightarrow> nat" where
  "ConstantTimeCompare x y =
     (if length x \<noteq> length y then 0
      else if foldl (\<lambda>v (a, b). v OR (a XOR b)) 0 (zip x y) = 0 then 1 else 0)"

definition json_number :: "uint64 \<Rightarrow> json" where
  "json_number n = JNumber (uint n)"

definition json_metrics :: "MetricsSnapshot \<Rightarrow> json" where
  "json_metrics m = JObject
     [(''ActiveConnections'', json_number (ms_ActiveConnections m)), (''Sessions'', json_number (ms_Sessions m)),
      (''QueueLength'', json_number (ms_QueueLength m)), (''Accepted'', json_number (ms_Accepted m)),
      (''RejectedCapacity'', json_number (ms_RejectedCapacity m)), (''RejectedPerIP'', json_number (ms_RejectedPerIP m)),
      (''LoginRateLimited'', json_number (ms_LoginRateLimited m)),
      (''BackendHealthState'', json_number (ms_BackendHealthState m)), (''BackendConfigured'', JBool (ms_BackendConfigured m)),
      (''BotFilter'', JObject
        [(''Allowed'', json_number (Allowed (ms_BotFilter m))), (''Observed'', json_number (Observed (ms_BotFilter m))),
         (''Denied'', json_number (Denied (ms_BotFilter m))),
         (''ActiveObservations'', json_number (ActiveObservations (ms_BotFilter m))),
         (''ReputationEntries'', json_number (ReputationEntries (ms_BotFilter m))),
         (''ReloadFailures'', json_number (ReloadFailures (ms_BotFilter m)))])]"

definition adminStatusHandler :: "('n, 's, 't, 'a, 'q, 'f, 'k) Server \<Rightarrow> string \<Rightarrow> http_request \<Rightarrow> http_reply" where
  "adminStatusHandler gateway expectedToken request =
     (if expectedToken = '''' then http_NotFound
      else
        (case CutPrefix (rq_Authorization request) ''Bearer '' of
           (provided, ok) \<Rightarrow>
             if \<not> ok \<or> ConstantTimeCompare (bytes_of provided) (bytes_of expectedToken) \<noteq> 1
             then \<lparr>rs_Status = 401, rs_Headers = [(''WWW-Authenticate'', ''Bearer realm=\"regiongate-admin\"'')], rs_Body = NoBody\<rparr>
             else \<lparr>rs_Status = 200, rs_Headers = [(''Content-Type'', ''application/json'')],
                   rs_Body = Json (json_metrics (Server_Metrics gateway))\<rparr>))"

definition metric_line :: "string \<times> uint64 \<Rightarrow> string" where
  "metric_line = (\<lambda>(name, val). name @ '' '' @ show_nat (unat val) @ [CHR 0x0A])"

definition metric_values :: "MetricsSnapshot \<Rightarrow> (string \<times> uint64) list" where
  "metric_values m =
     [(''regiongate_connections_active'', ms_ActiveConnections m),
      (''regiongate_sessions_active'', ms_Sessions m),
      (''regiongate_queue_length'', ms_QueueLength m),
      (''regiongate_connections_accepted_total'', ms_Accepted m),
      (''regiongate_connections_rejected_capacity_total'', ms_RejectedCapacity m),
      (''regiongate_connections_rejected_ip_total'', ms_RejectedPerIP m),
      (''regiongate_login_rate_limited_total'', ms_LoginRateLimited m),
      (''regiongate_backend_health_state'', ms_BackendHealthState m),
      (''regiongate_botfilter_allowed_total'', Allowed (ms_BotFilter m)),
      (''regiongate_botfilter_observed_total'', Observed (ms_BotFilter m)),
      (''regiongate_botfilter_denied_total'', Denied (ms_BotFilter m)),
      (''regiongate_botfilter_active_observations'', ActiveObservations (ms_BotFilter m)),
      (''regiongate_botfilter_reputation_entries'', ReputationEntries (ms_BotFilter m)),
      (''regiongate_botfilter_reload_failures_total'', ReloadFailures (ms_BotFilter m))]"

definition metricsHandler :: "('n, 's, 't, 'a, 'q, 'f, 'k) Server \<Rightarrow> http_reply" where
  "metricsHandler gateway =
     \<lparr>rs_Status = 200, rs_Headers = [(''Content-Type'', ''text/plain; version=0.0.4'')],
      rs_Body = Text (concat (map metric_line (metric_values (Server_Metrics gateway))))\<rparr>"

definition healthz :: "('n, 's, 't, 'a, 'q, 'f, 'k) Server \<Rightarrow> http_reply" where
  "healthz gateway =
     \<lparr>rs_Status = 200, rs_Headers = [(''Content-Type'', ''application/json'')],
      rs_Body = Json (JObject [(''sessions'', JNumber (int (SessionCount gateway))), (''status'', JString ''ok'')])\<rparr>"

definition readyz :: "('n, 's, 't, 'a, 'q, 'f, 'k) Server \<Rightarrow> http_reply" where
  "readyz gateway =
     (let metrics = Server_Metrics gateway;
          ready = (\<not> ms_BackendConfigured metrics \<or> ms_BackendHealthState metrics \<noteq> health_number HealthUnhealthy)
      in \<lparr>rs_Status = (if \<not> ready then 503 else 200), rs_Headers = [(''Content-Type'', ''application/json'')],
          rs_Body = Json (JObject [(''backend_health_state'', json_number (ms_BackendHealthState metrics)), (''ready'', JBool ready)])\<rparr>)"

text \<open>
  The router, for requests whose path is in canonical form (it redirects the others there): a
  pattern for GET also serves HEAD, and other methods on its path are refused. The reply is what the
  handler writes; the HTTP server does not send the body of a reply to HEAD.
\<close>

definition healthHandler :: "('n, 's, 't, 'a, 'q, 'f, 'k) Server \<Rightarrow> string \<Rightarrow> http_request \<Rightarrow> http_reply" where
  "healthHandler gateway adminToken request =
     (if rq_Path request \<notin> {''/healthz'', ''/readyz'', ''/metrics'', ''/admin/status''} then http_NotFound
      else if rq_Method request \<noteq> ''GET'' \<and> rq_Method request \<noteq> ''HEAD'' then http_MethodNotAllowed
      else if rq_Path request = ''/healthz'' then healthz gateway
      else if rq_Path request = ''/readyz'' then readyz gateway
      else if rq_Path request = ''/metrics'' then metricsHandler gateway
      else adminStatusHandler gateway adminToken request)"

section \<open>The endpoints\<close>

lemma differences_zero:
  "length x = length y \<Longrightarrow> foldl (\<lambda>v (a, b). v OR (a XOR b)) v (zip x y) = 0 \<longleftrightarrow> v = 0 \<and> (x :: bytes) = y"
proof (induction x y arbitrary: v rule: list_induct2)
  case (Cons a x b y)
  have "v OR (a XOR b) = 0 \<longleftrightarrow> v = 0 \<and> a = b"
    using xor.assoc [of a b b] by (auto simp: or_eq_0_iff)
  then show ?case by (simp add: Cons.IH)
qed simp

lemma ConstantTimeCompare_iff: "ConstantTimeCompare x y = 1 \<longleftrightarrow> x = y"
  using differences_zero [of x y 0] by (auto simp: ConstantTimeCompare_def)

lemma CutPrefix_iff: "CutPrefix s p = (rest, True) \<longleftrightarrow> s = p @ rest"
  by (auto simp: CutPrefix_def) (metis append_take_drop_id)

lemma CutPrefix_fails: "CutPrefix s p = (rest, False) \<Longrightarrow> s \<noteq> p @ t"
  by (auto simp: CutPrefix_def)

text \<open>The administrator's status: hidden without a token, refused without the right one.\<close>

lemma adminStatusHandler_eq:
  "adminStatusHandler gateway token request =
     (if token = '''' then http_NotFound
      else if rq_Authorization request = ''Bearer '' @ token
      then \<lparr>rs_Status = 200, rs_Headers = [(''Content-Type'', ''application/json'')],
             rs_Body = Json (json_metrics (Server_Metrics gateway))\<rparr>
      else \<lparr>rs_Status = 401, rs_Headers = [(''WWW-Authenticate'', ''Bearer realm=\"regiongate-admin\"'')], rs_Body = NoBody\<rparr>)"
proof (cases "CutPrefix (rq_Authorization request) ''Bearer ''")
  case (Pair provided ok)
  have "ok \<and> provided = token \<longleftrightarrow> rq_Authorization request = ''Bearer '' @ token"
    using Pair CutPrefix_iff [of "rq_Authorization request" "''Bearer ''"] CutPrefix_fails [of "rq_Authorization request" "''Bearer ''"]
    by (cases ok) auto
  then show ?thesis
    unfolding adminStatusHandler_def Pair prod.case ConstantTimeCompare_iff bytes_of_eq_iff by (auto simp del: append.simps)
qed

lemma healthHandler_admin:
  "rs_Body (healthHandler gateway token request) = Json (json_metrics (Server_Metrics gateway)) \<longleftrightarrow>
   rq_Path request = ''/admin/status'' \<and> rq_Method request \<in> {''GET'', ''HEAD''} \<and>
   token \<noteq> '''' \<and> rq_Authorization request = ''Bearer '' @ token"
  by (simp add: healthHandler_def adminStatusHandler_eq http_NotFound_def http_MethodNotAllowed_def healthz_def readyz_def
      metricsHandler_def json_metrics_def Let_def)

lemma readyz_status:
  "rs_Status (readyz gateway) = 503 \<longleftrightarrow>
   (\<exists>c. sc_TransferCoordinator (srv_config gateway) = Some c \<and> hs_State (BackendHealth (Some c)) = HealthUnhealthy)"
  by (auto simp: readyz_def Server_Metrics_def Let_def health_number_def split: HealthState.splits option.splits)

section \<open>The components\<close>


lemma Run_backend_no_panic [simp]: "(Run_backend c :: (Coordinator option \<times> ('q, 'f) FIFO option) res) \<noteq> Panic"
  by (auto simp: Run_backend_def NewModernForwarding_def res_iff split: if_splits)













text \<open>A command during a transfer of the coordinator that \<open>Run\<close> builds.\<close>

lemma Run_parts_coordinator:
  assumes "Run_parts env c = Ok (sc, scheduler)" "sc_TransferCoordinator sc = Some co"
  shows "co_config co = zero_transfer_config"
  using assms by (auto simp: Run_parts_def Run_server_config_def Run_backend_def NewModernForwarding_def NewCoordinator_def res_iff
      split: if_splits)

lemma command_refused:
  assumes "PacketID payload = Ok (ServerboundPlayerCommandID, rest)" "ParsePlayerCommand payload = Ok cmd"
  shows "handleBarrierFrame (up now ids 0 es) ServerboundPlayerCommandID payload = (Fail ErrCommandQueueExhausted, up now ids 0 es)"
proof -
  have "HandleBarrierInput (up now ids 0 es) (zero_input\<lparr>Kind := InputPlayerCommand, Command := cmd\<rparr>) =
      ((InputDropped, Some ErrCommandQueueExhausted), up now ids 0 es)"
    by (simp add: HandleBarrierInput_def up_def barrier_handle_def spec_barrier_def)
  then show ?thesis
    using assms(2) by (simp add: handleBarrierFrame_def Session_BarrierPhase_def up_def barrier_input_def frame_ids)
qed

text \<open>
  The process exits with success exactly when the settings load, the components are built, the port is
  free, and the server, or an HTTP server that was shut down with it, ended without an error.
\<close>

lemma main_exit_success:
  "main_exit fraction getenv env ctx_done event = 0 \<longleftrightarrow>
   (\<exists>c parts. loadConfig fraction getenv = Ok c \<and>
      (Run_parts env c :: ((unit, unit, 'k) ServerConfig \<times> (unit, unit) Scheduler option) res) = Ok parts \<and>
      net_Listen env (cfg_ListenAddress c) = None \<and>
      (event = ServeEnded None \<or> event = RunDone None \<or>
       ctx_done \<and> (\<exists>err. errors_Is err http_ErrServerClosed \<and> (event = HealthEnded err \<or> event = PprofEnded err))))"
proof -
  have "Run_select ctx_done event = None \<longleftrightarrow> event = ServeEnded None \<or> event = RunDone None \<or>
      ctx_done \<and> (\<exists>err. errors_Is err http_ErrServerClosed \<and> (event = HealthEnded err \<or> event = PprofEnded err))"
    by (cases event) (auto simp: Run_select_def)
  moreover have "Run env c ctx_done event = Ok () \<longleftrightarrow>
      (\<exists>parts. (Run_parts env c :: ((unit, unit, 'k) ServerConfig \<times> (unit, unit) Scheduler option) res) = Ok parts) \<and>
      net_Listen env (cfg_ListenAddress c) = None \<and> Run_select ctx_done event = None" for c
    by (auto simp: Run_def res_iff split: option.splits)
  moreover have "main_exit fraction getenv env ctx_done event = 0 \<longleftrightarrow>
      (\<exists>c. loadConfig fraction getenv = Ok c \<and> Run env c ctx_done event = Ok ())"
    by (auto simp: main_exit_def split: res.splits)
  ultimately show ?thesis by (simp only:) blast
qed

section \<open>Properties\<close>


text \<open>
  C36: who reads the administrator's status. A request is answered with the metrics document exactly when it is a
  GET or HEAD of \<open>/admin/status\<close>, a token is configured, and its authorization is that token as a bearer
  token; on that path any other request is not found, refused by its method or unauthorized. The readiness
  endpoint reports failure exactly when a backend is configured and known to be unhealthy.
\<close>

theorem admin_status_guarded:
  "(rs_Body (healthHandler gateway token request) = Json (json_metrics (Server_Metrics gateway)) \<longleftrightarrow>
      rq_Path request = ''/admin/status'' \<and> rq_Method request \<in> {''GET'', ''HEAD''} \<and>
      token \<noteq> '''' \<and> rq_Authorization request = ''Bearer '' @ token) \<and>
   rs_Status (healthHandler gateway token (request\<lparr>rq_Path := ''/admin/status''\<rparr>)) =
     (if rq_Method request \<notin> {''GET'', ''HEAD''} then 405
      else if token = '''' then 404
      else if rq_Authorization request = ''Bearer '' @ token then 200 else 401) \<and>
   (rs_Status (healthHandler gateway token (request\<lparr>rq_Method := ''GET'', rq_Path := ''/readyz''\<rparr>)) = 503 \<longleftrightarrow>
      (\<exists>c. sc_TransferCoordinator (srv_config gateway) = Some c \<and> hs_State (BackendHealth (Some c)) = HealthUnhealthy))"
proof (intro conjI)
  show "rs_Status (healthHandler gateway token (request\<lparr>rq_Path := ''/admin/status''\<rparr>)) =
     (if rq_Method request \<notin> {''GET'', ''HEAD''} then 405
      else if token = '''' then 404
      else if rq_Authorization request = ''Bearer '' @ token then 200 else 401)"
    by (simp add: healthHandler_def adminStatusHandler_eq http_NotFound_def http_MethodNotAllowed_def del: append.simps)
  show "rs_Status (healthHandler gateway token (request\<lparr>rq_Method := ''GET'', rq_Path := ''/readyz''\<rparr>)) = 503 \<longleftrightarrow>
      (\<exists>c. sc_TransferCoordinator (srv_config gateway) = Some c \<and> hs_State (BackendHealth (Some c)) = HealthUnhealthy)"
    using readyz_status [of gateway] by (simp add: healthHandler_def)
qed (rule healthHandler_admin)

text \<open>
  C35: transfers refuse commands. \<open>Run\<close> gives the coordinator the zero configuration, so the barrier
  of its transfers keeps no command: whatever has happened since the transfer began, a
  well-formed command of the player ends the session with \<open>ErrCommandQueueExhausted\<close>.
\<close>

theorem transfers_refuse_commands:
  assumes "Run_parts env c = Ok (sc, scheduler)" "sc_TransferCoordinator sc = Some co"
    "BeginTransfer s now olds (tc_MaxPendingCommands (co_config co)) = (Ok (), s0)"
    "runs session_step s0 es (lb_session l)" "list_all barrier_call es"
    "PacketID payload = Ok (ServerboundPlayerCommandID, rest)" "ParsePlayerCommand payload = Ok cmd"
  shows "fst (on_frame lenv (Ok payload) l) = Returns ErrCommandQueueExhausted"
proof -
  have limit: "tc_MaxPendingCommands (co_config co) = 0"
    using Run_parts_coordinator [OF assms(1,2)] by (simp add: zero_transfer_config_def)
  have l: "lb_session l = up now olds 0 es"
    using barrier_runs_up [OF assms(3) [unfolded limit] assms(4,5)] .
  have "state (lb_session l) = StateTransferBarrier" unfolding l by (simp add: up_def)
  then show ?thesis
    using assms(6) command_refused [OF assms(6,7), of now olds es] unfolding l [symmetric]
    by (simp add: on_frame_def lthen_def outcome_of_def)
qed

section \<open>Witnesses\<close>

definition sample_config :: Config where
  "sample_config = (initial_config (\<lambda>_. ''''))\<lparr>cfg_BackendAddress := ''lobby:25566'', cfg_VelocitySecret := ''s''\<rparr>"

definition sample_app_env :: "unit app_env" where
  "sample_app_env = \<lparr>os_ReadFile = (\<lambda>_. Fail EOF), os_IsNotExist = (\<lambda>_. False), yaml_Unmarshal = (\<lambda>_ p. Ok p),
     rsa_GenerateKey = (\<lambda>_. Ok ()), x509_MarshalPKIXPublicKey = (\<lambda>_. Ok []), session_service = (\<lambda>_ _ _ _. Fail ErrNotJoined),
     net_Listen = (\<lambda>_. None)\<rparr>"


lemma sample_parts:
  "\<exists>sc scheduler co. (Run_parts sample_app_env sample_config :: ((unit, unit, unit) ServerConfig \<times> (unit, unit) Scheduler option) res) =
     Ok (sc, scheduler) \<and> sc_TransferCoordinator sc = Some co"
  by (simp add: Run_parts_def Run_bot_filter_def Run_authenticator_def Run_backend_def NewModernForwarding_def
      Run_server_config_def sample_config_def initial_config_def Let_def)


theorem transfers_refuse_commands_witness:
  "\<exists>l :: (tcp, tcp, unit, unit, nat) limbo. state (lb_session l) = StateTransferBarrier \<and>
     fst (on_frame sample_limbo_env (Ok sample_sprint) l) = Returns ErrCommandQueueExhausted"
proof -
  obtain sc scheduler co where r: "(Run_parts sample_app_env sample_config ::
      ((unit, unit, unit) ServerConfig \<times> (unit, unit) Scheduler option) res) = Ok (sc, scheduler)"
    "sc_TransferCoordinator sc = Some co"
    using sample_parts by blast
  obtain body where p: "PacketID sample_sprint = Ok (ServerboundPlayerCommandID, body)"
    using sample_frames_parse(2) by (auto simp: frame_ids)
  define s0 where "s0 = snd (BeginTransfer limbo_session 10 [42] (tc_MaxPendingCommands (co_config co)))"
  have b: "BeginTransfer limbo_session 10 [42] (tc_MaxPendingCommands (co_config co)) = (Ok (), s0)"
    unfolding s0_def by (simp add: BeginTransfer_def transitionLocked_def canTransition_def limbo_session_def)
  have "state s0 = StateTransferBarrier" using BeginTransfer_up [OF b] by (simp add: up_def)
  moreover have "fst (on_frame sample_limbo_env (Ok sample_sprint) (sample_limbo\<lparr>lb_session := s0\<rparr>)) = Returns ErrCommandQueueExhausted"
    by (rule transfers_refuse_commands [OF r b _ _ p sample_frames_parse(4), where es = "[]"]) (simp_all add: runs.intros)
  ultimately show ?thesis by (intro exI [of _ "sample_limbo\<lparr>lb_session := s0\<rparr>"]) simp
qed

end
