(* ===== verification/Lifecycle.thy ===== *)
theory Lifecycle
  imports App
begin

text \<open>
  The goroutines of \<open>Run\<close> in \<open>internal/app/run.go\<close>, once the components are built: the accept loop, the
  goroutine of \<open>Serve\<close> that closes the listener, the HTTP servers for health and profiling with the
  goroutines that shut them down, and the final \<open>select\<close>. Each is a sequence of steps, and the
  steps interleave. Channels are buffered for one error. \<open>http.Server\<close> is taken at its documented behaviour:
  \<open>ListenAndServe\<close> returns \<open>ErrServerClosed\<close> only after \<open>Shutdown\<close> was called.

  \<open>Accept\<close> on an open listener may wait for ever, and so may an HTTP server that is not shut down: a
  step that ends such a wait is not one that the process can count on. The theorem shows that \<open>Run\<close> ends, by its
  own moves, once its context is done, and with an error only if something failed.
\<close>

section \<open>Definitions\<close>

subsection \<open>The profiling endpoint\<close>

datatype pprof_page = PprofIndex | PprofCmdline | PprofProfile | PprofSymbol | PprofTrace

datatype route = Page pprof_page | RedirectTo string | NoRoute

text \<open>
  For paths in canonical form. A pattern that ends in a slash stands for every path below it, the
  longest pattern that matches wins, and the path without the slash is redirected.
\<close>

definition pprofHandler :: "string \<Rightarrow> route" where
  "pprofHandler p =
     (if p = ''/debug/pprof/cmdline'' then Page PprofCmdline
      else if p = ''/debug/pprof/profile'' then Page PprofProfile
      else if p = ''/debug/pprof/symbol'' then Page PprofSymbol
      else if p = ''/debug/pprof/trace'' then Page PprofTrace
      else if snd (CutPrefix p ''/debug/pprof/'') then Page PprofIndex
      else if p = ''/debug/pprof'' then RedirectTo ''/debug/pprof/''
      else NoRoute)"

subsection \<open>An HTTP server and its goroutines\<close>

datatype http_phase = HttpServing | HttpReturned err | HttpFinished

record http_part =
  hp_phase :: http_phase
  hp_shutdown :: bool
  hp_errors :: "err option"

definition http_start :: http_part where
  "http_start = \<lparr>hp_phase = HttpServing, hp_shutdown = False, hp_errors = None\<rparr>"

datatype http_event = HttpShutdown | HttpReturns err | HttpSends

fun http_step :: "bool \<Rightarrow> http_part \<Rightarrow> http_event \<Rightarrow> http_part \<Rightarrow> bool" where
  "http_step ctx_done h HttpShutdown h' \<longleftrightarrow> ctx_done \<and> \<not> hp_shutdown h \<and> h' = h\<lparr>hp_shutdown := True\<rparr>"
| "http_step ctx_done h (HttpReturns e) h' \<longleftrightarrow>
     hp_phase h = HttpServing \<and> (errors_Is e http_ErrServerClosed \<longrightarrow> hp_shutdown h) \<and> h' = h\<lparr>hp_phase := HttpReturned e\<rparr>"
| "http_step ctx_done h HttpSends h' \<longleftrightarrow>
     (\<exists>e. hp_phase h = HttpReturned e \<and> hp_errors h = None \<and> h' = h\<lparr>hp_phase := HttpFinished, hp_errors := Some e\<rparr>)"

subsection \<open>The process\<close>

datatype http_server = HealthServer | PprofServer

datatype serve_phase = Accepting | ServeReturned "err option" | ServeFinished

datatype main_phase = Selecting | AwaitingServe | RunReturned "err option"

record run_state =
  rn_ctx_done :: bool
  rn_listener_closed :: bool
  rn_serve :: serve_phase
  rn_serveErrors :: "err option option"
  rn_http :: "http_server \<Rightarrow> http_part option"
  rn_main :: main_phase

definition run_start :: "Config \<Rightarrow> run_state" where
  "run_start config =
     \<lparr>rn_ctx_done = False, rn_listener_closed = False, rn_serve = Accepting, rn_serveErrors = None,
      rn_http = (\<lambda>x. case x of HealthServer \<Rightarrow> Some http_start
                            | PprofServer \<Rightarrow> if cfg_PprofAddress config \<noteq> '''' then Some http_start else None),
      rn_main = Selecting\<rparr>"

text \<open>
  \<open>ContextDone\<close> comes from outside. An iteration of the accept loop that returns is
  one of \<open>Serve_accept\<close>; a listener that is not closed does not fail with \<open>net.ErrClosed\<close>.
\<close>

datatype 'n lifecycle_event =
    ContextDone
  | CloseListener
  | ServeEnds "'n res" "err option"
  | ServeSends
  | HttpMoves http_server http_event
  | SelectReceives run_event
  | SelectDone
  | ReceiveServe "err option"

definition received :: "run_event \<Rightarrow> run_state \<Rightarrow> run_state option" where
  "received event s =
     (case event of
        ServeEnded r \<Rightarrow> if rn_serveErrors s = Some r then Some (s\<lparr>rn_serveErrors := None\<rparr>) else None
      | HealthEnded e \<Rightarrow>
          (case rn_http s HealthServer of
             Some h \<Rightarrow> if hp_errors h = Some e then Some (s\<lparr>rn_http := (rn_http s)(HealthServer \<mapsto> h\<lparr>hp_errors := None\<rparr>)\<rparr>) else None
           | None \<Rightarrow> None)
      | PprofEnded e \<Rightarrow>
          (case rn_http s PprofServer of
             Some h \<Rightarrow> if hp_errors h = Some e then Some (s\<lparr>rn_http := (rn_http s)(PprofServer \<mapsto> h\<lparr>hp_errors := None\<rparr>)\<rparr>) else None
           | None \<Rightarrow> None)
      | RunDone r \<Rightarrow> None)"

fun lifecycle_step ::
    "('n \<Rightarrow> string) \<Rightarrow> ('n, 's, 't, 'a, 'q, 'f, 'k) Server \<Rightarrow> run_state \<Rightarrow> 'n lifecycle_event \<Rightarrow> run_state \<Rightarrow> bool" where
  "lifecycle_step addr gateway s ContextDone s' \<longleftrightarrow> \<not> rn_ctx_done s \<and> s' = s\<lparr>rn_ctx_done := True\<rparr>"
| "lifecycle_step addr gateway s CloseListener s' \<longleftrightarrow>
     rn_ctx_done s \<and> \<not> rn_listener_closed s \<and> s' = s\<lparr>rn_listener_closed := True\<rparr>"
| "lifecycle_step addr gateway s (ServeEnds accept r) s' \<longleftrightarrow>
     rn_serve s = Accepting \<and> (\<forall>e. accept = Fail e \<and> errors_Is e net_ErrClosed \<longrightarrow> rn_listener_closed s) \<and>
     fst (Serve_accept addr (rn_ctx_done s) accept gateway) = Ok (ServeReturns r) \<and> s' = s\<lparr>rn_serve := ServeReturned r\<rparr>"
| "lifecycle_step addr gateway s ServeSends s' \<longleftrightarrow>
     (\<exists>r. rn_serve s = ServeReturned r \<and> rn_serveErrors s = None \<and>
        s' = s\<lparr>rn_serve := ServeFinished, rn_serveErrors := Some r\<rparr>)"
| "lifecycle_step addr gateway s (HttpMoves x ev) s' \<longleftrightarrow>
     (\<exists>h h'. rn_http s x = Some h \<and> http_step (rn_ctx_done s) h ev h' \<and> s' = s\<lparr>rn_http := (rn_http s)(x \<mapsto> h')\<rparr>)"
| "lifecycle_step addr gateway s (SelectReceives event) s' \<longleftrightarrow>
     rn_main s = Selecting \<and>
     (\<exists>t. received event s = Some t \<and> s' = t\<lparr>rn_main := RunReturned (Run_select (rn_ctx_done s) event)\<rparr>)"
| "lifecycle_step addr gateway s SelectDone s' \<longleftrightarrow>
     rn_main s = Selecting \<and> rn_ctx_done s \<and> s' = s\<lparr>rn_main := AwaitingServe\<rparr>"
| "lifecycle_step addr gateway s (ReceiveServe r) s' \<longleftrightarrow>
     rn_main s = AwaitingServe \<and> rn_serveErrors s = Some r \<and>
     s' = s\<lparr>rn_serveErrors := None, rn_main := RunReturned (Run_select (rn_ctx_done s) (RunDone r))\<rparr>"

section \<open>The invariant\<close>

definition http_inv :: "bool \<Rightarrow> http_part \<Rightarrow> bool" where
  "http_inv ctx_done h \<longleftrightarrow>
     (hp_shutdown h \<longrightarrow> ctx_done) \<and> (hp_errors h \<noteq> None \<longrightarrow> hp_phase h = HttpFinished) \<and>
     (\<forall>e. hp_phase h = HttpReturned e \<or> hp_errors h = Some e \<longrightarrow> errors_Is e http_ErrServerClosed \<longrightarrow> hp_shutdown h)"

definition life_inv :: "run_state \<Rightarrow> bool" where
  "life_inv s \<longleftrightarrow>
     (rn_serveErrors s \<noteq> None \<longrightarrow> rn_serve s = ServeFinished) \<and>
     (rn_serve s = ServeFinished \<longrightarrow> rn_serveErrors s = None \<longrightarrow> (\<exists>r. rn_main s = RunReturned r)) \<and>
     (rn_main s = AwaitingServe \<longrightarrow> rn_ctx_done s) \<and>
     (\<forall>x h. rn_http s x = Some h \<longrightarrow> http_inv (rn_ctx_done s) h)"

lemma life_invD:
  assumes "life_inv s"
  shows "rn_serveErrors s = Some r \<Longrightarrow> rn_serve s = ServeFinished"
    "rn_serve s = ServeFinished \<Longrightarrow> rn_serveErrors s = None \<Longrightarrow> \<exists>r. rn_main s = RunReturned r"
    "rn_main s = AwaitingServe \<Longrightarrow> rn_ctx_done s" "rn_http s x = Some h \<Longrightarrow> http_inv (rn_ctx_done s) h"
  using assms by (auto simp: life_inv_def)

lemma http_inv_start: "http_inv ctx_done http_start"
  by (simp add: http_inv_def http_start_def)

lemma http_inv_step: "http_inv ctx_done h \<Longrightarrow> http_step ctx_done h ev h' \<Longrightarrow> http_inv ctx_done h'"
  by (cases ev) (auto simp: http_inv_def)

lemma http_inv_done: "http_inv ctx_done h \<Longrightarrow> http_inv True h"
  by (simp add: http_inv_def)

lemma http_inv_received: "http_inv ctx_done h \<Longrightarrow> http_inv ctx_done (h\<lparr>hp_errors := None\<rparr>)"
  by (simp add: http_inv_def)

text \<open>What receiving from a channel leaves alone, and what it takes.\<close>

lemma received_cases:
  assumes "received event s = Some t"
  obtains r where "event = ServeEnded r" "rn_serveErrors s = Some r" "t = s\<lparr>rn_serveErrors := None\<rparr>"
  | x h e where "rn_http s x = Some h" "hp_errors h = Some e" "event = (case x of HealthServer \<Rightarrow> HealthEnded e | PprofServer \<Rightarrow> PprofEnded e)"
      "t = s\<lparr>rn_http := (rn_http s)(x \<mapsto> h\<lparr>hp_errors := None\<rparr>)\<rparr>"
proof (cases event)
  case (HealthEnded e)
  then obtain h where "rn_http s HealthServer = Some h" "hp_errors h = Some e"
    "t = s\<lparr>rn_http := (rn_http s)(HealthServer \<mapsto> h\<lparr>hp_errors := None\<rparr>)\<rparr>"
    using assms by (auto simp: received_def split: option.splits if_splits)
  then show ?thesis using HealthEnded that(2) [of HealthServer h e] by simp
next
  case (PprofEnded e)
  then obtain h where "rn_http s PprofServer = Some h" "hp_errors h = Some e"
    "t = s\<lparr>rn_http := (rn_http s)(PprofServer \<mapsto> h\<lparr>hp_errors := None\<rparr>)\<rparr>"
    using assms by (auto simp: received_def split: option.splits if_splits)
  then show ?thesis using PprofEnded that(2) [of PprofServer h e] by simp
qed (use assms that(1) in \<open>auto simp: received_def split: if_splits\<close>)

lemma life_inv_step:
  assumes "life_inv s" "lifecycle_step addr gateway s ev t" shows "life_inv t"
proof (cases ev)
  case ContextDone
  with assms show ?thesis by (auto simp: life_inv_def intro: http_inv_done)
next
  case (HttpMoves x hev)
  then obtain h h' where "rn_http s x = Some h" "http_step (rn_ctx_done s) h hev h'"
    and t: "t = s\<lparr>rn_http := (rn_http s)(x \<mapsto> h')\<rparr>" using assms(2) by auto
  then have "http_inv (rn_ctx_done s) h'" using life_invD(4) [OF assms(1)] http_inv_step by blast
  with assms(1) t show ?thesis by (simp add: life_inv_def)
next
  case (SelectReceives event)
  then obtain u where u: "received event s = Some u" "t = u\<lparr>rn_main := RunReturned (Run_select (rn_ctx_done s) event)\<rparr>"
    using assms(2) by auto
  from u(1) show ?thesis
  proof (cases rule: received_cases)
    case (1 r)
    with u(2) assms(1) show ?thesis by (simp add: life_inv_def)
  next
    case (2 x h e)
    then have "http_inv (rn_ctx_done s) (h\<lparr>hp_errors := None\<rparr>)"
      using life_invD(4) [OF assms(1)] http_inv_received by blast
    with u(2) 2 assms(1) show ?thesis by (simp add: life_inv_def)
  qed
qed (use assms in \<open>auto simp: life_inv_def\<close>)

interpretation lc: invariant "\<lambda>s. s = run_start config" "lifecycle_step addr gateway" life_inv for config addr gateway
proof unfold_locales
  fix s assume "s = run_start config"
  then show "life_inv s"
    using http_inv_start by (auto simp: life_inv_def run_start_def split: http_server.splits if_splits)
qed (rule life_inv_step)

section \<open>Progress\<close>

text \<open>
  The moves that the goroutines make without help from outside. \<open>Accept\<close> returns by itself only from a closed
  listener, and \<open>ListenAndServe\<close> only from a server that was shut down.
\<close>

fun own_move :: "'n lifecycle_event \<Rightarrow> bool" where
  "own_move ContextDone = False"
| "own_move (ServeEnds accept r) = (case accept of Fail e \<Rightarrow> errors_Is e net_ErrClosed | _ \<Rightarrow> False)"
| "own_move (HttpMoves x (HttpReturns e)) = errors_Is e http_ErrServerClosed"
| "own_move _ = True"

text \<open>Every step but the end of the context brings the goroutines closer to their ends.\<close>

definition http_remaining :: "http_part option \<Rightarrow> nat" where
  "http_remaining p =
     (case p of None \<Rightarrow> 0
      | Some h \<Rightarrow> (if hp_shutdown h then 0 else 1) +
          (case hp_phase h of HttpServing \<Rightarrow> 2 | HttpReturned _ \<Rightarrow> 1 | HttpFinished \<Rightarrow> 0))"

definition run_remaining :: "run_state \<Rightarrow> nat" where
  "run_remaining s =
     (if rn_listener_closed s then 0 else 1) +
     (case rn_serve s of Accepting \<Rightarrow> 2 | ServeReturned _ \<Rightarrow> 1 | ServeFinished \<Rightarrow> 0) +
     (case rn_main s of Selecting \<Rightarrow> 2 | AwaitingServe \<Rightarrow> 1 | RunReturned _ \<Rightarrow> 0) +
     http_remaining (rn_http s HealthServer) + http_remaining (rn_http s PprofServer)"

lemma http_remaining_step: "http_step ctx_done h ev h' \<Longrightarrow> http_remaining (Some h') < http_remaining (Some h)"
  by (cases ev) (auto simp: http_remaining_def split: http_phase.splits)

lemma http_remaining_received [simp]: "http_remaining (Some (h\<lparr>hp_errors := None\<rparr>)) = http_remaining (Some h)"
  by (simp add: http_remaining_def)

lemma run_remaining_http:
  "run_remaining (s\<lparr>rn_http := (rn_http s)(x \<mapsto> h')\<rparr>) + http_remaining (rn_http s x) =
   run_remaining s + http_remaining (Some h')"
  by (cases x) (simp_all add: run_remaining_def)

lemma run_remaining_step:
  assumes "lifecycle_step addr gateway s ev t" "ev \<noteq> ContextDone"
  shows "run_remaining t < run_remaining s"
proof (cases ev)
  case (HttpMoves x hev)
  then obtain h h' where "rn_http s x = Some h" "http_step (rn_ctx_done s) h hev h'"
    "t = s\<lparr>rn_http := (rn_http s)(x \<mapsto> h')\<rparr>" using assms(1) by auto
  then show ?thesis using run_remaining_http [of s x h'] http_remaining_step by fastforce
next
  case (SelectReceives event)
  then obtain u where u: "received event s = Some u" "t = u\<lparr>rn_main := RunReturned (Run_select (rn_ctx_done s) event)\<rparr>"
    "rn_main s = Selecting" using assms(1) by auto
  have "run_remaining u = run_remaining s \<and> rn_main u = rn_main s"
    using u(1)
  proof (cases rule: received_cases)
    case (2 x h e)
    then show ?thesis using run_remaining_http [of s x "h\<lparr>hp_errors := None\<rparr>"] by simp
  qed (simp add: run_remaining_def)
  moreover have "run_remaining t < run_remaining u" if "rn_main u = Selecting"
    using that u(2) by (simp add: run_remaining_def)
  ultimately show ?thesis using u(3) by simp
qed (use assms in \<open>auto simp: run_remaining_def\<close>)

lemma run_remaining_start: "run_remaining (run_start config) \<le> 11"
  by (simp add: run_remaining_def run_start_def http_remaining_def http_start_def)

text \<open>Once the context is done, nothing keeps \<open>Run\<close> from returning.\<close>

lemma lifecycle_progress:
  fixes gateway :: "('n, 's, 't, 'a, 'q, 'f, 'k) Server" and addr :: "'n \<Rightarrow> string"
  assumes "life_inv s" "rn_ctx_done s" "\<forall>r. rn_main s \<noteq> RunReturned r"
  shows "\<exists>ev t. own_move ev \<and> lifecycle_step addr gateway s ev t"
proof -
  have "\<exists>ev t. ev \<in> {CloseListener, ServeEnds (Fail net_ErrClosed) None, ServeSends, SelectDone} \<union> range ReceiveServe \<and>
      lifecycle_step addr gateway s ev t"
  proof (cases "rn_main s")
    case Selecting
    then show ?thesis using assms(2) by (intro exI [of _ SelectDone]) simp
  next
    case AwaitingServe
    show ?thesis
    proof (cases "rn_serveErrors s")
      case (Some r)
      then show ?thesis using AwaitingServe by (intro exI [of _ "ReceiveServe r"]) simp
    next
      case None
      then have "rn_serve s \<noteq> ServeFinished" using life_invD(2) [OF assms(1)] AwaitingServe by auto
      then consider "rn_serve s = Accepting" "rn_listener_closed s" | "rn_serve s = Accepting" "\<not> rn_listener_closed s"
        | r where "rn_serve s = ServeReturned r" by (cases "rn_serve s") auto
      then show ?thesis
      proof cases
        case 1
        then show ?thesis using assms(2) by (intro exI [of _ "ServeEnds (Fail net_ErrClosed) None"]) (simp add: Serve_accept_def)
      next
        case 2
        then show ?thesis using assms(2) by (intro exI [of _ CloseListener]) simp
      next
        case 3
        then show ?thesis using None by (intro exI [of _ ServeSends]) simp
      qed
    qed
  qed (use assms(3) in simp)
  then obtain ev t where ev: "ev \<in> {CloseListener, ServeEnds (Fail net_ErrClosed) None, ServeSends, SelectDone} \<union> range ReceiveServe"
    "lifecycle_step addr gateway s ev t" by blast
  moreover from ev(1) have "own_move ev" by (auto simp: net_ErrClosed_def)
  ultimately show ?thesis by blast
qed

lemma lifecycle_step_done: "lifecycle_step addr gateway s ev t \<Longrightarrow> rn_ctx_done s \<Longrightarrow> rn_ctx_done t"
  by (cases ev) (auto elim!: received_cases)

text \<open>The goroutines bring \<open>Run\<close> to its return by their own moves.\<close>

lemma lifecycle_returns:
  fixes gateway :: "('n, 's, 't, 'a, 'q, 'f, 'k) Server" and addr :: "'n \<Rightarrow> string"
  assumes "life_inv s" "rn_ctx_done s"
  shows "\<exists>es t r. runs (lifecycle_step addr gateway) s es t \<and> list_all own_move es \<and> rn_main t = RunReturned r"
  using assms
proof (induction "run_remaining s" arbitrary: s rule: less_induct)
  case less
  show ?case
  proof (cases "\<exists>r. rn_main s = RunReturned r")
    case True
    then obtain r where "rn_main s = RunReturned r" by blast
    then show ?thesis by (intro exI [of _ "[]"] exI [of _ s] exI [of _ r]) simp
  next
    case False
    then obtain ev u where u: "own_move ev" "lifecycle_step addr gateway s ev u"
      using lifecycle_progress [OF less.prems, where addr = addr and gateway = gateway] by blast
    then have "ev \<noteq> ContextDone" by auto
    then obtain es t r where "runs (lifecycle_step addr gateway) u es t" "list_all own_move es" "rn_main t = RunReturned r"
      using less.hyps [OF run_remaining_step [OF u(2)] life_inv_step [OF less.prems(1) u(2)]
          lifecycle_step_done [OF u(2) less.prems(2)]] by blast
    then show ?thesis
      using u runs_Cons_iff [of "lifecycle_step addr gateway" s ev es t] by (intro exI [of _ "ev # es"] exI [of _ t] exI [of _ r]) auto
  qed
qed

section \<open>Errors\<close>

text \<open>The failures of a run: of the listener, or of an HTTP server that was not shut down.\<close>

definition failures :: "'n lifecycle_event list \<Rightarrow> err set" where
  "failures es = {e. ServeEnds (Fail e) (Some e) \<in> set es \<or>
     (\<exists>x. HttpMoves x (HttpReturns e) \<in> set es \<and> \<not> errors_Is e http_ErrServerClosed)}"

definition blamed :: "err set \<Rightarrow> run_state \<Rightarrow> bool" where
  "blamed E s \<longleftrightarrow>
     (\<forall>e. rn_serve s = ServeReturned (Some e) \<or> rn_serveErrors s = Some (Some e) \<or> rn_main s = RunReturned (Some e) \<longrightarrow> e \<in> E) \<and>
     (\<forall>x h e. rn_http s x = Some h \<longrightarrow> hp_phase h = HttpReturned e \<or> hp_errors h = Some e \<longrightarrow>
        \<not> errors_Is e http_ErrServerClosed \<longrightarrow> e \<in> E)"

lemma failures_snoc: "failures es \<subseteq> failures (es @ [ev])"
  by (auto simp: failures_def)

lemma blamed_mono: "blamed E s \<Longrightarrow> E \<subseteq> F \<Longrightarrow> blamed F s"
  unfolding blamed_def by blast

lemma serve_returns_error:
  assumes "fst (Serve_accept addr ctx_done accept gateway) = Ok (ServeReturns (Some e))" shows "accept = Fail e"
proof -
  have "Serve_accept addr ctx_done accept gateway = (Ok (ServeReturns (Some e)), snd (Serve_accept addr ctx_done accept gateway))"
    using assms by (simp add: prod_eq_iff)
  then show ?thesis unfolding Serve_accept_returns by (auto split: if_splits)
qed

lemma blamed_http:
  assumes "blamed E s" "\<And>e. hp_phase h' = HttpReturned e \<or> hp_errors h' = Some e \<Longrightarrow> \<not> errors_Is e http_ErrServerClosed \<Longrightarrow> e \<in> E"
  shows "blamed E (s\<lparr>rn_http := (rn_http s)(x \<mapsto> h')\<rparr>)"
  using assms by (auto simp: blamed_def split: if_splits)

lemma blamedD:
  assumes "blamed E s"
  shows "rn_serveErrors s = Some (Some e) \<Longrightarrow> e \<in> E"
    "rn_http s x = Some h \<Longrightarrow> hp_phase h = HttpReturned e \<or> hp_errors h = Some e \<Longrightarrow> \<not> errors_Is e http_ErrServerClosed \<Longrightarrow> e \<in> E"
  using assms unfolding blamed_def by blast+

text \<open>An error that \<open>Run\<close> returns for an HTTP server is a failure: a closed server was shut down, so the context is done.\<close>

lemma blamed_received:
  assumes i: "life_inv s" and b: "blamed E s" and r: "received event s = Some u"
  shows "blamed E (u\<lparr>rn_main := RunReturned (Run_select (rn_ctx_done s) event)\<rparr>)"
  using r
proof (cases rule: received_cases)
  case (1 r)
  then show ?thesis using b by (auto simp: blamed_def Run_select_def)
next
  case (2 x h e)
  have closed: "errors_Is e http_ErrServerClosed \<Longrightarrow> rn_ctx_done s"
    using life_invD(4) [OF i 2(1)] 2(2) by (auto simp: http_inv_def)
  have "\<not> errors_Is e http_ErrServerClosed \<Longrightarrow> e \<in> E" using blamedD(2) [OF b 2(1)] 2(2) by blast
  then have "Run_select (rn_ctx_done s) event = Some e' \<Longrightarrow> e' \<in> E" for e'
    using closed 2(3) by (cases x) (auto simp: Run_select_def split: if_splits)
  moreover have "blamed E u"
    unfolding 2(4) using b blamedD(2) [OF b 2(1)] by (intro blamed_http) auto
  ultimately show ?thesis by (simp add: blamed_def)
qed

lemma blamed_step:
  assumes i: "life_inv s" and b: "blamed (failures es) s" and s: "lifecycle_step addr gateway s ev t"
  shows "blamed (failures (es @ [ev])) t"
proof -
  note b' = blamed_mono [OF b failures_snoc [of es ev]]
  show ?thesis
  proof (cases ev)
    case (ServeEnds accept r)
    have "e \<in> failures (es @ [ev])" if "r = Some e" for e
      using s ServeEnds serve_returns_error [of addr "rn_ctx_done s" accept gateway e] that by (auto simp: failures_def)
    then show ?thesis using b' s ServeEnds by (simp add: blamed_def)
  next
    case (HttpMoves x hev)
    then obtain h h' where h: "rn_http s x = Some h" "http_step (rn_ctx_done s) h hev h'"
      "t = s\<lparr>rn_http := (rn_http s)(x \<mapsto> h')\<rparr>" using s by auto
    have "e \<in> failures (es @ [ev])"
      if "hp_phase h' = HttpReturned e \<or> hp_errors h' = Some e" "\<not> errors_Is e http_ErrServerClosed" for e
      using that h(2) blamedD(2) [OF b' h(1), of e] HttpMoves by (cases hev) (auto simp: failures_def)
    then show ?thesis unfolding h(3) using b' by (intro blamed_http)
  next
    case (SelectReceives event)
    then show ?thesis using s blamed_received [OF i b'] by auto
  next
    case ServeSends
    then obtain r where "rn_serve s = ServeReturned r" "t = s\<lparr>rn_serve := ServeFinished, rn_serveErrors := Some r\<rparr>" using s by auto
    then show ?thesis using b' by (simp add: blamed_def)
  next
    case (ReceiveServe r)
    then show ?thesis using b' s blamedD(1) [OF b'] by (simp add: blamed_def Run_select_def)
  qed (use b' s in \<open>simp_all add: blamed_def\<close>)
qed

lemma blamed_runs:
  assumes "runs (lifecycle_step addr gateway) (run_start config) es s"
  shows "blamed (failures es) s"
  using assms
proof (induction es arbitrary: s rule: rev_induct)
  case Nil
  have "hp_phase h = HttpServing \<and> hp_errors h = None" if "rn_http (run_start config) x = Some h" for x h
    using that by (cases x) (auto simp: run_start_def http_start_def split: if_splits)
  moreover have "rn_serve (run_start config) = Accepting" "rn_serveErrors (run_start config) = None"
    "rn_main (run_start config) = Selecting" by (simp_all add: run_start_def)
  ultimately have "blamed {} (run_start config)" unfolding blamed_def by fastforce
  then have "blamed (failures []) (run_start config)" by (rule blamed_mono) simp
  with Nil show ?case by simp
next
  case (snoc ev es)
  obtain u where u: "runs (lifecycle_step addr gateway) (run_start config) es u" "lifecycle_step addr gateway u ev s"
    using runs_snocD [OF snoc.prems] by blast
  show ?case by (rule blamed_step [OF lc.inv_reachable [OF refl u(1)] snoc.IH [OF u(1)] u(2)])
qed

lemma moves_bounded:
  assumes "runs (lifecycle_step addr gateway) s es t"
  shows "length (filter (\<lambda>ev. ev \<noteq> ContextDone) es) + run_remaining t \<le> run_remaining s"
  using assms
proof (induction es arbitrary: t rule: rev_induct)
  case (snoc ev es)
  obtain u where u: "runs (lifecycle_step addr gateway) s es u" "lifecycle_step addr gateway u ev t"
    using runs_snocD [OF snoc.prems] by blast
  have "run_remaining t = run_remaining u" if "ev = ContextDone" using that u(2) by (auto simp: run_remaining_def)
  then show ?case using snoc.IH [OF u(1)] run_remaining_step [OF u(2)] by (cases "ev = ContextDone") auto
qed simp

text \<open>The profiling server serves the five pages and nothing outside its tree.\<close>

lemma CutPrefix_ok: "snd (CutPrefix s p) \<longleftrightarrow> (\<exists>rest. s = p @ rest)"
proof (cases "CutPrefix s p")
  case (Pair rest ok)
  then show ?thesis using CutPrefix_iff [of s p rest] CutPrefix_fails [of s p rest] by (cases ok) auto
qed

lemma pprofHandler_routes:
  "pprofHandler p = NoRoute \<longleftrightarrow> p \<noteq> ''/debug/pprof'' \<and> (\<nexists>rest. p = ''/debug/pprof/'' @ rest)"
proof -
  have routes: "(if c1 then Page a1 else if c2 then Page a2 else if c3 then Page a3 else if c4 then Page a4 else if b then Page a5
      else if x then RedirectTo y else NoRoute) = NoRoute \<longleftrightarrow> \<not> x \<and> \<not> b"
    if "c1 \<or> c2 \<or> c3 \<or> c4 \<Longrightarrow> b" for c1 c2 c3 c4 b x a1 a2 a3 a4 a5 y
    using that by auto
  show ?thesis
    unfolding pprofHandler_def CutPrefix_ok by (rule routes) auto
qed

section \<open>Properties\<close>

text \<open>
  C39: shutting down. Whatever the order of the goroutines of \<open>Run\<close>: once its context is done
  and as long as \<open>Run\<close> has not returned, one of them can move by itself, without waiting for a client, for a
  listener that is still open or for an HTTP server that was not told to stop. Every sequence of
  their moves is at most eleven steps long, so these moves bring \<open>Run\<close> to its return. It returns an error only if
  that error was a failure of the listener or of an HTTP server that was not being shut down.
\<close>

theorem run_shuts_down:
  fixes gateway :: "('n, 's, 't, 'a, 'q, 'f, 'k) Server"
  assumes "runs (lifecycle_step addr gateway) (run_start config) es s"
  shows "(rn_ctx_done s \<and> (\<forall>r. rn_main s \<noteq> RunReturned r) \<longrightarrow>
      (\<exists>ev t. own_move ev \<and> lifecycle_step addr gateway s ev t)) \<and>
    (rn_ctx_done s \<longrightarrow>
      (\<exists>es' t r. runs (lifecycle_step addr gateway) s es' t \<and> list_all own_move es' \<and> rn_main t = RunReturned r)) \<and>
    length (filter (\<lambda>ev. ev \<noteq> ContextDone) es) \<le> 11 \<and>
    (rn_main s = RunReturned (Some e) \<longrightarrow> e \<in> failures es)"
proof -
  have i: "life_inv s" using lc.inv_reachable [OF refl assms] .
  have "length (filter (\<lambda>ev. ev \<noteq> ContextDone) es) + run_remaining s \<le> run_remaining (run_start config)"
    using assms by (rule moves_bounded)
  then have "length (filter (\<lambda>ev. ev \<noteq> ContextDone) es) \<le> 11"
    using run_remaining_start [of config] by linarith
  moreover have "rn_main s = RunReturned (Some e) \<longrightarrow> e \<in> failures es"
    using blamed_runs [OF assms] by (simp add: blamed_def)
  ultimately show ?thesis
    using lifecycle_progress [OF i, of addr gateway] lifecycle_returns [OF i, of addr gateway] by blast
qed

definition sample_shutdown :: "nat lifecycle_event list" where
  "sample_shutdown = [HttpMoves HealthServer (HttpReturns EOF), ContextDone, SelectDone, CloseListener]"

theorem run_shuts_down_witness:
  "\<exists>s. runs (lifecycle_step (\<lambda>_ :: nat. '''') (New_Server (Run_server_config sample_config None None None None None)
        :: (nat, unit, unit, unit, unit, unit, unit) Server)) (run_start sample_config) sample_shutdown s \<and>
     rn_ctx_done s \<and> rn_main s = AwaitingServe \<and> rn_serve s = Accepting \<and>
     (\<exists>ev t. own_move ev \<and> lifecycle_step (\<lambda>_ :: nat. '''') (New_Server (Run_server_config sample_config None None None None None)
        :: (nat, unit, unit, unit, unit, unit, unit) Server) s ev t)"
proof -
  let ?step = "lifecycle_step (\<lambda>_ :: nat. '''') (New_Server (Run_server_config sample_config None None None None None)
    :: (nat, unit, unit, unit, unit, unit, unit) Server)"
  have "\<exists>s. runs ?step (run_start sample_config) sample_shutdown s \<and> rn_ctx_done s \<and> rn_main s = AwaitingServe \<and> rn_serve s = Accepting"
    by (simp add: sample_shutdown_def runs_Cons_iff run_start_def http_start_def http_ErrServerClosed_def)
  then obtain s where s: "runs ?step (run_start sample_config) sample_shutdown s" "rn_ctx_done s" "rn_main s = AwaitingServe"
    "rn_serve s = Accepting" by blast
  have "\<exists>ev t. own_move ev \<and> ?step s ev t" using run_shuts_down [OF s(1), of EOF] s(2,3) by simp
  with s show ?thesis by blast
qed

end
