(* ===== verification/Harness.thy ===== *)
theory Harness
  imports Registrar Settings "HOL-Library.Sublist"
begin

text \<open>
  The test support of \<open>integration/internal/minecrafttest/server.go\<close>: the docker command that starts a
  Minecraft server, and the loops that wait for its port and for its readiness. What the commands print and
  how they end is a parameter; a loop gets one observation for every round.

  The lemmas show what a started server is known to have done, and that the loops end with their
  deadlines.
\<close>

section \<open>Definitions\<close>

record Options =
  op_Type :: string
  op_Version :: string
  op_ExtraEnvironment :: "(string \<times> string) list"

record TestServer =
  ts_name :: string
  ts_addr :: string

text \<open>How a helper of a test ends: with a value, by \<open>Skip\<close> or \<open>Fatalf\<close>, or not yet.\<close>

datatype 'a test_outcome = Succeeds 'a | Skipped string | Fatal string | Waiting

text \<open>\<open>strings.ToLower\<close>, \<open>TrimSpace\<close> and \<open>Contains\<close>; the parameters are their results on text that is not ASCII.\<close>

definition is_ascii :: "string \<Rightarrow> bool" where
  "is_ascii s = list_all (\<lambda>c. of_char c < (128 :: nat)) s"

definition ToLower :: "(string \<Rightarrow> string) \<Rightarrow> string \<Rightarrow> string" where
  "ToLower unicode_lower s =
     (if is_ascii s
      then map (\<lambda>c. if (65 :: nat) \<le> of_char c \<and> of_char c \<le> (90 :: nat) then char_of (of_char c + 32 :: nat) else c) s
      else unicode_lower s)"

definition is_space :: "char \<Rightarrow> bool" where
  "is_space c \<longleftrightarrow> of_char c \<in> {9, 10, 11, 12, 13, 32 :: nat}"

definition TrimSpace :: "(string \<Rightarrow> string) \<Rightarrow> string \<Rightarrow> string" where
  "TrimSpace unicode_trim s =
     (if is_ascii s then rev (dropWhile is_space (rev (dropWhile is_space s))) else unicode_trim s)"

fun Contains :: "string \<Rightarrow> string \<Rightarrow> bool" where
  "Contains [] p = (p = [])"
| "Contains (c # s) p = (take (length p) (c # s) = p \<or> Contains s p)"

definition server_name :: "(string \<Rightarrow> string) \<Rightarrow> int \<Rightarrow> int \<Rightarrow> Options \<Rightarrow> string" where
  "server_name unicode_lower pid nanos options =
     ''regiongate-'' @ ToLower unicode_lower (op_Type options) @ ''-'' @ show_int pid @ ''-'' @ show_int nanos"

text \<open>The variables of \<open>ExtraEnvironment\<close> come in the order in which the loop visits the map.\<close>

definition env_args :: "(string \<times> string) list \<Rightarrow> string list" where
  "env_args vars = concat (map (\<lambda>(key, val). [''--env'', key @ ''='' @ val]) vars)"

definition docker_args :: "(string \<Rightarrow> string \<Rightarrow> bool) \<Rightarrow> string \<Rightarrow> string \<Rightarrow> Options \<Rightarrow> string list" where
  "docker_args unicode_fold name jar options =
     (let args = [''run'', ''--detach'', ''--name'', name, ''--publish'', ''127.0.0.1::25565'',
                  ''--env'', ''EULA=TRUE'', ''--env'', ''TYPE='' @ op_Type options, ''--env'', ''VERSION='' @ op_Version options,
                  ''--env'', ''ONLINE_MODE=FALSE'', ''--env'', ''ENFORCE_SECURE_PROFILE=FALSE'', ''--env'', ''ENABLE_RCON=FALSE'',
                  ''--env'', ''MEMORY=1G''];
          args = (if jar \<noteq> '''' \<and> EqualFold unicode_fold (op_Type options) ''PAPER''
                  then args @ [''--volume'', jar @ '':/data/paper.jar:ro'', ''--env'', ''TYPE=CUSTOM'',
                               ''--env'', ''CUSTOM_SERVER=/data/paper.jar'']
                  else args);
          args = args @ env_args (op_ExtraEnvironment options)
      in args @ [''itzg/minecraft-server:java21''])"

definition TestServer_Address :: "TestServer \<Rightarrow> string" where
  "TestServer_Address s = ts_addr s"

text \<open>A command gives its output and its error, if any.\<close>

definition Logs :: "(err \<Rightarrow> string) \<Rightarrow> string \<times> err option \<Rightarrow> string" where
  "Logs error_text result =
     (case result of (output, None) \<Rightarrow> output | (_, Some e) \<Rightarrow> ''docker logs failed: '' @ error_text e)"

definition valid_port :: "string \<Rightarrow> bool" where
  "valid_port address =
     (case SplitHostPort address of Some (_, port) \<Rightarrow> (case ParseUint port 16 of Ok _ \<Rightarrow> True | _ \<Rightarrow> False) | None \<Rightarrow> False)"

text \<open>A round of \<open>port\<close>: the time, what \<open>docker port\<close> did, and the logs at that moment.\<close>

fun port_loop :: "(string \<Rightarrow> string) \<Rightarrow> time \<Rightarrow> (time \<times> string res \<times> string) list \<Rightarrow> string test_outcome" where
  "port_loop unicode_trim deadline [] = Waiting"
| "port_loop unicode_trim deadline ((now, output, logs) # rounds) =
     (if \<not> now < deadline then Fatal (''Minecraft server port was not published'' @ [CHR 0x0A] @ logs)
      else
        (case output of
           Ok text \<Rightarrow>
             let address = TrimSpace unicode_trim text in
             if valid_port address then Succeeds address else port_loop unicode_trim deadline rounds
         | _ \<Rightarrow> port_loop unicode_trim deadline rounds))"

definition TestServer_port :: "(string \<Rightarrow> string) \<Rightarrow> time \<Rightarrow> (time \<times> string res \<times> string) list \<Rightarrow> string test_outcome" where
  "TestServer_port unicode_trim now rounds = port_loop unicode_trim (now + seconds 30) rounds"

text \<open>
  A round of \<open>waitReady\<close>: the time, the logs, whether the server can be dialled, and how the
  \<open>select\<close> ends: the context's error, or a second has passed.
\<close>

record ready_round =
  ry_now :: time
  ry_logs :: string
  ry_dial :: "err option"
  ry_ctx :: "err option"

fun waitReady_loop :: "(err \<Rightarrow> string) \<Rightarrow> time \<Rightarrow> ready_round list \<Rightarrow> unit test_outcome" where
  "waitReady_loop error_text deadline [] = Waiting"
| "waitReady_loop error_text deadline (r # rounds) =
     (if \<not> ry_now r < deadline then Fatal (''Minecraft server did not become ready'' @ [CHR 0x0A] @ ry_logs r)
      else if Contains (ry_logs r) ''Done ('' \<and> ry_dial r = None then Succeeds ()
      else
        (case ry_ctx r of
           Some e \<Rightarrow> Fatal (''Minecraft server startup context expired: '' @ error_text e @ [CHR 0x0A] @ ry_logs r)
         | None \<Rightarrow> waitReady_loop error_text deadline rounds))"

definition waitReady :: "(err \<Rightarrow> string) \<Rightarrow> time \<Rightarrow> ready_round list \<Rightarrow> unit test_outcome" where
  "waitReady error_text now rounds = waitReady_loop error_text (now + seconds (3 * 60)) rounds"

fun tbind :: "'a test_outcome \<Rightarrow> ('a \<Rightarrow> 'b test_outcome) \<Rightarrow> 'b test_outcome" where
  "tbind (Succeeds x) f = f x"
| "tbind (Skipped m) f = Skipped m"
| "tbind (Fatal m) f = Fatal m"
| "tbind Waiting f = Waiting"

record start_env =
  se_LookPath :: "err option"
  se_pid :: int
  se_nanos :: int
  se_jar :: string
  se_docker :: "string list \<Rightarrow> string \<times> err option"
  se_port_now :: time
  se_port_rounds :: "(time \<times> string res \<times> string) list"
  se_ready_now :: time
  se_ready_rounds :: "ready_round list"

text \<open>The result, and the command that the test will run on cleanup, if one is registered.\<close>

definition Start ::
    "(string \<Rightarrow> string) \<Rightarrow> (string \<Rightarrow> string) \<Rightarrow> (string \<Rightarrow> string \<Rightarrow> bool) \<Rightarrow> (err \<Rightarrow> string) \<Rightarrow> start_env \<Rightarrow> Options \<Rightarrow>
     TestServer test_outcome \<times> string list option" where
  "Start unicode_lower unicode_trim unicode_fold error_text env options =
     (if se_LookPath env \<noteq> None then (Skipped ''docker is not available'', None)
      else
        (let name = server_name unicode_lower (se_pid env) (se_nanos env) options in
         case se_docker env (docker_args unicode_fold name (se_jar env) options) of
           (output, Some e) \<Rightarrow> (Fatal (''docker run: '' @ error_text e @ [CHR 0x0A] @ output), None)
         | (_, None) \<Rightarrow>
             (tbind (TestServer_port unicode_trim (se_port_now env) (se_port_rounds env)) (\<lambda>addr.
              tbind (waitReady error_text (se_ready_now env) (se_ready_rounds env)) (\<lambda>_.
              Succeeds \<lparr>ts_name = name, ts_addr = addr\<rparr>)),
              Some [''rm'', ''--force'', name])))"

section \<open>Facts\<close>

lemma take_prefix_iff: "take (length p) s = p \<longleftrightarrow> prefix p s"
  by (metis append_eq_conv_conj prefix_def take_is_prefix)

lemma Contains_iff: "Contains s p \<longleftrightarrow> sublist p s"
  by (induction s) (simp_all only: Contains.simps sublist_Cons_right take_prefix_iff sublist_Nil_right)

text \<open>What ends a loop: a round that is accepted, or the deadline.\<close>

lemma port_loop_succeeds:
  assumes "port_loop trim deadline rounds = Succeeds address"
  shows "valid_port address \<and> (\<exists>now text logs. (now, Ok text, logs) \<in> set rounds \<and> now < deadline \<and> address = TrimSpace trim text)"
  using assms
proof (induction rounds)
  case (Cons round rounds)
  obtain now out logs where round: "round = (now, out, logs)" by (cases round)
  have now: "now < deadline" using Cons.prems by (auto simp: round split: if_splits)
  show ?case
  proof (cases "port_loop trim deadline rounds = Succeeds address")
    case True
    then show ?thesis using Cons.IH by fastforce
  next
    case False
    then obtain msg where "out = Ok msg" "valid_port (TrimSpace trim msg)" "address = TrimSpace trim msg"
      using Cons.prems now by (cases out) (auto simp: round Let_def split: if_splits)
    then show ?thesis using now by (auto simp: round)
  qed
qed simp

lemma port_loop_ends:
  assumes "\<exists>round \<in> set rounds. deadline \<le> fst round" shows "port_loop trim deadline rounds \<noteq> Waiting"
  using assms
proof (induction rounds)
  case (Cons round rounds)
  obtain now out logs where round: "round = (now, out, logs)" by (cases round)
  show ?case
    using Cons by (cases out) (auto simp: round Let_def)
qed simp

lemma waitReady_loop_succeeds:
  assumes "waitReady_loop error_text deadline rounds = Succeeds ()"
  shows "\<exists>r \<in> set rounds. ry_now r < deadline \<and> sublist ''Done ('' (ry_logs r) \<and> ry_dial r = None"
  using assms
proof (induction rounds)
  case (Cons r rounds)
  show ?case
  proof (cases "Contains (ry_logs r) ''Done ('' \<and> ry_dial r = None")
    case True
    then show ?thesis using Cons.prems unfolding Contains_iff by (auto split: if_splits)
  next
    case False
    then have "waitReady_loop error_text deadline rounds = Succeeds ()"
      using Cons.prems by (auto split: if_splits option.splits)
    then show ?thesis using Cons.IH by auto
  qed
qed simp

lemma waitReady_loop_ends:
  assumes "\<exists>r \<in> set rounds. deadline \<le> ry_now r \<or> ry_ctx r \<noteq> None"
  shows "waitReady_loop error_text deadline rounds \<noteq> Waiting"
  using assms
proof (induction rounds)
  case (Cons r rounds)
  then show ?case by (cases "ry_ctx r") auto
qed simp

text \<open>
  A started server has a published port and has reported that it is ready within its deadlines, and a
  container that was started is removed on cleanup.
\<close>

lemma Start_succeeds:
  assumes "Start lower trim equal_fold error_text env options = (Succeeds s, undo)"
  shows "valid_port (TestServer_Address s) \<and> undo = Some [''rm'', ''--force'', ts_name s] \<and>
    (\<exists>r \<in> set (se_ready_rounds env). ry_now r < se_ready_now env + seconds 180 \<and> sublist ''Done ('' (ry_logs r) \<and>
       ry_dial r = None)"
proof -
  have tbind: "tbind m f = Succeeds y \<longleftrightarrow> (\<exists>x. m = Succeeds x \<and> f x = Succeeds y)" for m :: "'x test_outcome" and f :: "'x \<Rightarrow> TestServer test_outcome" and y
    by (cases m) auto
  have "\<exists>addr. TestServer_port trim (se_port_now env) (se_port_rounds env) = Succeeds addr \<and> ts_addr s = addr \<and>
      waitReady error_text (se_ready_now env) (se_ready_rounds env) = Succeeds () \<and> undo = Some [''rm'', ''--force'', ts_name s]"
    using assms by (auto simp: Start_def Let_def tbind split: if_splits prod.splits option.splits)
  then show ?thesis
    using port_loop_succeeds waitReady_loop_succeeds
    by (auto simp: TestServer_port_def waitReady_def TestServer_Address_def)
qed

lemma Start_cleans_up:
  assumes "se_LookPath env = None"
    "snd (se_docker env (docker_args equal_fold (server_name lower (se_pid env) (se_nanos env) options) (se_jar env) options)) = None"
  shows "snd (Start lower trim equal_fold error_text env options) =
    Some [''rm'', ''--force'', server_name lower (se_pid env) (se_nanos env) options]"
  using assms by (auto simp: Start_def Let_def split: prod.split)

end
